(* ===== verification/Prelude.thy ===== *)
theory Prelude
  imports Main "HOL-Library.Word" "HOL-Library.Monad_Syntax" "HOL-Library.Code_Target_Numeral"
begin

text \<open>
  Shared vocabulary of the development: bytes and byte strings, fixed-width integers in the
  little-endian layout the client writes to disk, the two's complement reading of signed
  fields, and the list lemmas about overwriting and resizing a \<open>std::vector<char>\<close>.

  A byte is a HOL \<open>char\<close>, so a \<open>std::string\<close> is a HOL string and a literal of the source can be
  written as it is. Unsigned fields of the source are kept at their width as words where bits or
  wrap-around matter (flags, versions, time stamps); \<open>int64_t\<close> identifiers, which the code only
  compares and stores, are integers with an explicit range predicate.

  The interface \<open>codec\<close> states what a byte format promises its readers: what the encoder wrote is
  read back, whatever follows it. Its client lemmas (unambiguity, recovery of a whole log) are
  proved once here and reached through interpretations on the formats of the program.
\<close>

named_theorems stream_simps "what the stream operations do to the pending bytes"
named_theorems codec_simps "what the decoders return on encoded bytes"
named_theorems index_simps "facts about the ordered header index"

subsection \<open>Bytes and machine integers\<close>

type_synonym byte = char
type_synonym cstring = "char list"
type_synonym u8 = "8 word"
type_synonym u32 = "32 word"
type_synonym u64 = "64 word"

abbreviation NUL :: byte where
  "NUL \<equiv> CHR 0x00"

fun le_bytes :: "nat \<Rightarrow> nat \<Rightarrow> byte list" where
  "le_bytes 0 x = []"
| "le_bytes (Suc n) x = char_of (x mod 256) # le_bytes n (x div 256)"

fun le_nat :: "byte list \<Rightarrow> nat" where
  "le_nat [] = 0"
| "le_nat (b # bs) = of_char b + 256 * le_nat bs"

lemma of_char_less_256 [simp]: "of_char b < (256 :: nat)"
  by (metis of_char_mod_256 mod_less_divisor zero_less_numeral)

lemma length_le_bytes [simp]: "length (le_bytes n x) = n"
  by (induction n arbitrary: x) auto

lemma le_nat_le_bytes [simp]: "le_nat (le_bytes n x) = x mod 256 ^ n"
  by (induction n arbitrary: x) (auto simp: mod_mult2_eq)

lemma le_bytes_le_nat: "le_bytes (length bs) (le_nat bs) = bs"
  by (induction bs) auto

lemma le_nat_less: "le_nat bs < 256 ^ length bs"
proof (induction bs)
  case (Cons b bs)
  from Cons have n: "le_nat bs + 1 \<le> 256 ^ length bs" by simp
  have "of_char b + 256 * le_nat bs < 256 + 256 * le_nat bs"
    by (rule add_strict_right_mono) (rule of_char_less_256)
  also have "\<dots> = 256 * (le_nat bs + 1)" by simp
  also have "\<dots> \<le> 256 * 256 ^ length bs" using n by (rule mult_le_mono2)
  finally show ?case by simp
qed simp

definition word_bytes :: "nat \<Rightarrow> 'a::len word \<Rightarrow> byte list" where
  "word_bytes n w = le_bytes n (unat w)"

definition word_of_bytes :: "byte list \<Rightarrow> 'a::len word" where
  "word_of_bytes bs = word_of_nat (le_nat bs)"

lemma length_word_bytes [simp]: "length (word_bytes n w) = n"
  by (simp add: word_bytes_def)

lemma word_of_bytes_word_bytes:
  assumes "LENGTH('a) \<le> 8 * n"
  shows "word_of_bytes (word_bytes n w) = (w :: 'a::len word)"
proof -
  have "unat w < 2 ^ LENGTH('a)" by (rule unsigned_less)
  also have "(2::nat) ^ LENGTH('a) \<le> 2 ^ (8 * n)" using assms by (rule power_increasing) simp
  also have "(2::nat) ^ (8 * n) = 256 ^ n" by (simp add: power_mult)
  finally show ?thesis by (simp add: word_of_bytes_def word_bytes_def)
qed

lemmas word_bytes_roundtrips [simp, codec_simps] =
  word_of_bytes_word_bytes [where 'a = 8 and n = 1, simplified]
  word_of_bytes_word_bytes [where 'a = 32 and n = 4, simplified]
  word_of_bytes_word_bytes [where 'a = 64 and n = 8, simplified]

text \<open>Two's complement: a signed value of \<open>w\<close> bits and the unsigned number that stores it.\<close>

definition in_signed :: "nat \<Rightarrow> int \<Rightarrow> bool" where
  "in_signed w i \<longleftrightarrow> - (2 ^ (w - 1)) \<le> i \<and> i < 2 ^ (w - 1)"

definition of_signed :: "nat \<Rightarrow> int \<Rightarrow> nat" where
  "of_signed w i = nat (i mod 2 ^ w)"

definition to_signed :: "nat \<Rightarrow> nat \<Rightarrow> int" where
  "to_signed w n = (if n < 2 ^ (w - 1) then int n else int n - 2 ^ w)"

abbreviation int64_max :: int where
  "int64_max \<equiv> 9223372036854775807"

lemma of_signed_less: "of_signed w i < 2 ^ w"
  by (simp add: of_signed_def nat_less_iff)

lemma to_signed_of_signed:
  assumes "0 < w" and "in_signed w i"
  shows "to_signed w (of_signed w i) = i"
proof -
  have p: "(2::int) ^ w = 2 * 2 ^ (w - 1)"
    using assms(1) by (cases w) auto
  show ?thesis
  proof (cases "0 \<le> i")
    case True
    then have "i mod 2 ^ w = i"
      using assms(2) p by (intro mod_pos_pos_trivial) (auto simp: in_signed_def)
    moreover have "nat i < 2 ^ (w - 1)"
      using True assms(2) by (simp add: in_signed_def nat_less_iff)
    ultimately show ?thesis using True by (simp add: to_signed_def of_signed_def)
  next
    case False
    have "i mod 2 ^ w = (i + 2 ^ w) mod 2 ^ w" by simp
    also have "\<dots> = i + 2 ^ w"
      using False assms(2) p by (intro mod_pos_pos_trivial) (auto simp: in_signed_def)
    finally have m: "i mod 2 ^ w = i + 2 ^ w" .
    moreover have "\<not> nat (i + 2 ^ w) < 2 ^ (w - 1)"
      using False assms(2) p by (auto simp: in_signed_def nat_less_iff)
    moreover have "0 \<le> i + 2 ^ w"
      using assms(2) p by (auto simp: in_signed_def)
    ultimately show ?thesis by (simp add: to_signed_def of_signed_def)
  qed
qed

definition i64_bytes :: "int \<Rightarrow> byte list" where
  "i64_bytes i = le_bytes 8 (of_signed 64 i)"

definition i64_of_bytes :: "byte list \<Rightarrow> int" where
  "i64_of_bytes bs = to_signed 64 (le_nat bs)"

definition i32_bytes :: "int \<Rightarrow> byte list" where
  "i32_bytes i = le_bytes 4 (of_signed 32 i)"

definition i32_of_bytes :: "byte list \<Rightarrow> int" where
  "i32_of_bytes bs = to_signed 32 (le_nat bs)"

abbreviation int64 :: "int \<Rightarrow> bool" where
  "int64 i \<equiv> in_signed 64 i"

abbreviation int32 :: "int \<Rightarrow> bool" where
  "int32 i \<equiv> in_signed 32 i"

lemma length_i64_bytes [simp]: "length (i64_bytes i) = 8"
  by (simp add: i64_bytes_def)

lemma length_i32_bytes [simp]: "length (i32_bytes i) = 4"
  by (simp add: i32_bytes_def)

lemma i64_roundtrip [simp, codec_simps]: "int64 i \<Longrightarrow> i64_of_bytes (i64_bytes i) = i"
  using of_signed_less [of 64 i]
  by (simp add: i64_of_bytes_def i64_bytes_def to_signed_of_signed)

lemma i32_roundtrip [simp, codec_simps]: "int32 i \<Longrightarrow> i32_of_bytes (i32_bytes i) = i"
  using of_signed_less [of 32 i]
  by (simp add: i32_of_bytes_def i32_bytes_def to_signed_of_signed)

text \<open>A \<open>bool\<close> takes one byte; it is written as 0 or 1 and any other byte reads as true.\<close>

definition bool_bytes :: "bool \<Rightarrow> byte list" where
  "bool_bytes b = [if b then CHR 0x01 else NUL]"

definition bool_of_bytes :: "byte list \<Rightarrow> bool" where
  "bool_of_bytes bs = (bs \<noteq> [NUL])"

lemma length_bool_bytes [simp]: "length (bool_bytes b) = 1"
  by (simp add: bool_bytes_def)

lemma bool_roundtrip [simp, codec_simps]: "bool_of_bytes (bool_bytes b) = b"
  by (simp add: bool_of_bytes_def bool_bytes_def)

subsection \<open>A vector of bytes written by index\<close>

definition vresize :: "nat \<Rightarrow> byte list \<Rightarrow> byte list" where
  "vresize n xs = take n xs @ replicate (n - length xs) NUL"

definition overwrite :: "byte list \<Rightarrow> nat \<Rightarrow> byte list \<Rightarrow> byte list" where
  "overwrite xs i d = take i xs @ d @ drop (i + length d) xs"

lemma length_vresize [simp]: "length (vresize n xs) = n"
  by (simp add: vresize_def)

lemma take_vresize: "k \<le> length xs \<Longrightarrow> k \<le> n \<Longrightarrow> take k (vresize n xs) = take k xs"
  by (simp add: vresize_def min_def)

lemma length_overwrite [simp]: "i + length d \<le> length xs \<Longrightarrow> length (overwrite xs i d) = length xs"
  by (simp add: overwrite_def)

lemma take_overwrite:
  "i \<le> length xs \<Longrightarrow> take (i + length d) (overwrite xs i d) = take i xs @ d"
  by (simp add: overwrite_def)

subsection \<open>The interface of a byte format\<close>

locale codec =
  fixes enc :: "'a \<Rightarrow> byte list"
    and dec :: "byte list \<Rightarrow> ('a \<times> byte list) option"
    and ok :: "'a \<Rightarrow> bool"
  assumes dec_enc: "ok x \<Longrightarrow> dec (enc x @ rest) = Some (x, rest)"
begin

lemma enc_cancel:
  assumes "ok x" and "ok y" and "enc x @ r = enc y @ s"
  shows "x = y \<and> r = s"
proof -
  have "dec (enc x @ r) = dec (enc y @ s)" using assms(3) by (rule arg_cong)
  then show ?thesis by (simp only: dec_enc assms(1,2) option.inject prod.inject)
qed

lemma enc_inject: "ok x \<Longrightarrow> ok y \<Longrightarrow> enc x = enc y \<Longrightarrow> x = y"
  using enc_cancel [of x y "[]" "[]"] by simp

lemma log_unambiguous:
  "list_all ok xs \<Longrightarrow> list_all ok ys \<Longrightarrow> length xs = length ys \<Longrightarrow>
    concat (map enc xs) @ r = concat (map enc ys) @ s \<Longrightarrow> xs = ys \<and> r = s"
proof (induction xs ys rule: list_induct2')
  case (4 x xs y ys)
  then have "x = y \<and> concat (map enc xs) @ r = concat (map enc ys) @ s"
    by (intro enc_cancel) auto
  with 4 show ?case by auto
qed auto

end

text \<open>A format whose values take at least one byte: a log of them ends where its bytes end.\<close>

locale log_codec = codec +
  assumes enc_nonempty: "ok x \<Longrightarrow> enc x \<noteq> []"
begin

lemma log_inject:
  "list_all ok xs \<Longrightarrow> list_all ok ys \<Longrightarrow> concat (map enc xs) = concat (map enc ys) \<Longrightarrow> xs = ys"
proof (induction xs ys rule: list_induct2')
  case (2 x xs)
  then show ?case using enc_nonempty [of x] by simp
next
  case (3 y ys)
  then show ?case using enc_nonempty [of y] by simp
next
  case (4 x xs y ys)
  then have "x = y \<and> concat (map enc xs) = concat (map enc ys)"
    by (intro enc_cancel) auto
  with 4 show ?case by auto
qed auto

end

text \<open>
  Interpretation on the integer fields: a 32-bit length and a 64-bit identifier are read back
  from the front of any byte sequence.
\<close>

definition dec_u32 :: "byte list \<Rightarrow> (u32 \<times> byte list) option" where
  "dec_u32 bs = (if length bs < 4 then None else Some (word_of_bytes (take 4 bs), drop 4 bs))"

definition dec_i64 :: "byte list \<Rightarrow> (int \<times> byte list) option" where
  "dec_i64 bs = (if length bs < 8 then None else Some (i64_of_bytes (take 8 bs), drop 8 bs))"

interpretation u32_field: log_codec "word_bytes 4" dec_u32 "\<lambda>_. True"
proof unfold_locales
  show "word_bytes 4 x \<noteq> []" for x :: u32
    by (metis length_word_bytes list.size(3) zero_neq_numeral)
qed (simp add: dec_u32_def)

interpretation i64_field: log_codec i64_bytes dec_i64 int64
proof unfold_locales
  show "i64_bytes x \<noteq> []" for x
    by (metis length_i64_bytes list.size(3) zero_neq_numeral)
qed (simp add: dec_i64_def)

end
