(* ===== verification/Ordered_Map.thy ===== *)
theory Ordered_Map
  imports Prelude
begin

text \<open>
  \<open>std::map\<close>: the entries in ascending order of their keys, as an association list. An iterator is a
  split of the list; \<open>om_lower_bound\<close> returns the entries before it and the entries from it on.

  The interface \<open>keyed_map\<close> is what the clients of a dictionary rely on. Its client lemmas describe a
  fold of insertions that combine a new value with the stored one, which is how the archive index is
  built; the interpretation is on the ordered list.
\<close>

type_synonym ('k, 'v) omap = "('k \<times> 'v) list"

definition om_wf :: "('k::linorder, 'v) omap \<Rightarrow> bool" where
  "om_wf xs \<longleftrightarrow> sorted_wrt (<) (map fst xs)"

fun om_put :: "'k::linorder \<Rightarrow> 'v \<Rightarrow> ('k, 'v) omap \<Rightarrow> ('k, 'v) omap" where
  "om_put k v [] = [(k, v)]"
| "om_put k v ((k', v') # xs) =
    (if k < k' then (k, v) # (k', v') # xs
     else if k = k' then (k, v) # xs
     else (k', v') # om_put k v xs)"

definition om_erase :: "'k::linorder \<Rightarrow> ('k, 'v) omap \<Rightarrow> ('k, 'v) omap" where
  "om_erase k xs = filter (\<lambda>e. fst e \<noteq> k) xs"

definition om_lower_bound :: "'k::linorder \<Rightarrow> ('k, 'v) omap \<Rightarrow> ('k, 'v) omap \<times> ('k, 'v) omap" where
  "om_lower_bound k xs = (takeWhile (\<lambda>e. fst e < k) xs, dropWhile (\<lambda>e. fst e < k) xs)"

lemma om_wf_Nil [simp]: "om_wf []"
  by (simp add: om_wf_def)

lemma om_wf_Cons: "om_wf ((k, v) # xs) \<longleftrightarrow> (\<forall>k' \<in> fst ` set xs. k < k') \<and> om_wf xs"
  by (simp add: om_wf_def)

lemma om_wf_append:
  "om_wf (xs @ ys) \<longleftrightarrow> om_wf xs \<and> om_wf ys \<and> (\<forall>a \<in> fst ` set xs. \<forall>b \<in> fst ` set ys. a < b)"
  by (auto simp: om_wf_def sorted_wrt_append)

lemma om_wf_distinct: "om_wf xs \<Longrightarrow> distinct (map fst xs)"
  by (induction xs) (auto simp: om_wf_def)

lemma fst_set_om_put [simp]: "fst ` set (om_put k v xs) = insert k (fst ` set xs)"
  by (induction k v xs rule: om_put.induct) auto

lemma om_wf_put [simp, index_simps]: "om_wf xs \<Longrightarrow> om_wf (om_put k v xs)"
proof (induction k v xs rule: om_put.induct)
  case (2 k v k' v' xs)
  then show ?case by (auto simp: om_wf_Cons intro: order.strict_trans)
qed (simp add: om_wf_def)

lemma om_wf_filter: "om_wf xs \<Longrightarrow> om_wf (filter P xs)"
  by (auto simp: om_wf_def sorted_wrt_map intro: sorted_wrt_filter)

lemma om_wf_erase [simp, index_simps]: "om_wf xs \<Longrightarrow> om_wf (om_erase k xs)"
  by (simp add: om_erase_def om_wf_filter)

lemma map_of_om_put [simp, index_simps]:
  "om_wf xs \<Longrightarrow> map_of (om_put k v xs) = (map_of xs)(k \<mapsto> v)"
proof (induction k v xs rule: om_put.induct)
  case (2 k v k' v' xs)
  then show ?case by (auto simp: om_wf_Cons fun_eq_iff)
qed simp

lemma map_of_om_erase [simp, index_simps]: "map_of (om_erase k xs) = (map_of xs)(k := None)"
  by (induction xs) (auto simp: om_erase_def fun_eq_iff)

lemma om_put_last: "\<forall>k' \<in> fst ` set xs. k' < k \<Longrightarrow> om_put k v xs = xs @ [(k, v)]"
  by (induction k v xs rule: om_put.induct) auto

lemma om_ext:
  assumes "om_wf xs" and "om_wf ys" and "map_of xs = map_of ys"
  shows "xs = ys"
proof -
  have "set xs = set ys"
    using assms by (metis map_of_eq_Some_iff om_wf_distinct subset_antisym subrelI)
  moreover have "sorted (map fst xs)" "sorted (map fst ys)"
    using assms by (auto simp: om_wf_def strict_sorted_iff)
  moreover have "inj_on fst (set ys)" "distinct (map fst xs)" "distinct (map fst ys)"
    using assms om_wf_distinct by (auto simp: distinct_map)
  ultimately show ?thesis
    by (intro map_sorted_distinct_set_unique [of fst xs ys]) auto
qed

lemma om_lower_bound_append: "fst (om_lower_bound k xs) @ snd (om_lower_bound k xs) = xs"
  by (simp add: om_lower_bound_def)

lemma om_lower_bound_parts:
  assumes "om_wf xs"
  shows "fst (om_lower_bound k xs) = filter (\<lambda>e. fst e < k) xs"
    and "snd (om_lower_bound k xs) = filter (\<lambda>e. k \<le> fst e) xs"
proof -
  have "takeWhile (\<lambda>e. fst e < k) xs = filter (\<lambda>e. fst e < k) xs \<and>
      dropWhile (\<lambda>e. fst e < k) xs = filter (\<lambda>e. k \<le> fst e) xs"
    using assms
  proof (induction xs)
    case (Cons e xs)
    then show ?case
      by (cases e) (auto simp: om_wf_Cons not_less intro!: filter_False [symmetric] filter_True [symmetric])
  qed simp
  then show "fst (om_lower_bound k xs) = filter (\<lambda>e. fst e < k) xs"
    and "snd (om_lower_bound k xs) = filter (\<lambda>e. k \<le> fst e) xs"
    by (simp_all add: om_lower_bound_def)
qed

subsection \<open>The interface of a dictionary\<close>

locale keyed_map =
  fixes lookup :: "'m \<Rightarrow> 'k \<Rightarrow> 'v option"
    and put :: "'k \<Rightarrow> 'v \<Rightarrow> 'm \<Rightarrow> 'm"
    and erase :: "'k \<Rightarrow> 'm \<Rightarrow> 'm"
    and inv :: "'m \<Rightarrow> bool"
  assumes inv_put: "inv m \<Longrightarrow> inv (put k v m)"
    and inv_erase: "inv m \<Longrightarrow> inv (erase k m)"
    and lookup_put: "inv m \<Longrightarrow> lookup (put k v m) = (lookup m)(k \<mapsto> v)"
    and lookup_erase: "inv m \<Longrightarrow> lookup (erase k m) = (lookup m)(k := None)"
begin

definition upsert :: "('v \<Rightarrow> 'v \<Rightarrow> 'v) \<Rightarrow> 'k \<times> 'v \<Rightarrow> 'm \<Rightarrow> 'm" where
  "upsert f e m = put (fst e) (case lookup m (fst e) of None \<Rightarrow> snd e | Some old \<Rightarrow> f old (snd e)) m"

lemma inv_upsert: "inv m \<Longrightarrow> inv (upsert f e m)"
  by (simp add: upsert_def inv_put)

lemma lookup_upsert:
  "inv m \<Longrightarrow> lookup (upsert f e m) =
    (lookup m)(fst e \<mapsto> (case lookup m (fst e) of None \<Rightarrow> snd e | Some old \<Rightarrow> f old (snd e)))"
  by (simp add: upsert_def lookup_put)

lemma inv_fold_upsert: "inv m \<Longrightarrow> inv (fold (upsert f) es m)"
  by (induction es arbitrary: m) (auto simp: inv_upsert)

text \<open>What a whole log of entries does to one key: its values are combined from left to right.\<close>

lemma lookup_fold_upsert:
  "inv m \<Longrightarrow> lookup (fold (upsert f) es m) k =
    fold (\<lambda>e acc. Some (case acc of None \<Rightarrow> snd e | Some old \<Rightarrow> f old (snd e)))
      (filter (\<lambda>e. fst e = k) es) (lookup m k)"
  by (induction es arbitrary: m) (auto simp: inv_upsert lookup_upsert)

lemma lookup_fold_upsert_distinct:
  assumes "inv m" and "\<forall>k. lookup m k = None" and "distinct (map fst es)"
  shows "lookup (fold (upsert f) es m) = map_of es"
proof
  fix k
  have "filter (\<lambda>e. fst e = k) es = (case map_of es k of None \<Rightarrow> [] | Some v \<Rightarrow> [(k, v)])"
    using assms(3)
  proof (induction es)
    case (Cons e es)
    then show ?case
      by (cases e) (auto simp: filter_empty_conv map_of_eq_None_iff rev_image_eqI split: option.splits)
  qed simp
  then show "lookup (fold (upsert f) es m) k = map_of es k"
    using assms(1,2) by (simp add: lookup_fold_upsert split: option.splits)
qed

lemma erase_put: "inv m \<Longrightarrow> lookup (erase k (put k v m)) = lookup (erase k m)"
  by (simp add: lookup_erase lookup_put inv_put fun_eq_iff)

end

interpretation omap: keyed_map map_of om_put om_erase om_wf
  by unfold_locales simp_all

lemma omap_upsert: "omap.upsert f (k, v) m =
    om_put k (case map_of m k of None \<Rightarrow> v | Some old \<Rightarrow> f old v) m"
  unfolding omap.upsert_def fst_conv snd_conv by (rule refl)

end
