(* ===== verification/Binary_Stream.thy ===== *)
theory Binary_Stream
  imports Prelude
begin

text \<open>
  The byte stream of the core (\<open>core/tools/binary_stream.h\<close>, \<open>binary_stream.cpp\<close>,
  \<open>binary_stream_reader.cpp\<close>): a growing vector with a write position \<open>input_cursor\<close> and a read
  position \<open>output_cursor\<close>.

  The cursors are natural numbers, because every caller passes sizes and positions that are not
  negative; \<open>available\<close> is the signed difference of the code. A pointer returned by \<open>read\<close> is
  modelled by the bytes it points at, and the null pointer by \<open>None\<close>. The typed \<open>read<T>\<close>
  dereferences that pointer without a check, so its result is an option whose \<open>None\<close> is the
  null dereference, the end of the process. \<open>im_assert\<close> is compiled out of a release build and
  has no counterpart.

  \<open>bs_pending\<close> is the abstraction: the bytes between the two cursors. Under \<open>bs_wf\<close> a write
  appends to it and a read takes from its front, which is all the clients use.
\<close>

record binary_stream =
  buffer :: "byte list"
  input_cursor :: nat
  output_cursor :: nat

definition bs_new :: binary_stream where
  "bs_new = \<lparr>buffer = [], input_cursor = 0, output_cursor = 0\<rparr>"

definition bs_get_data :: "binary_stream \<Rightarrow> byte list option" where
  "bs_get_data s = (if buffer s = [] then None else Some (buffer s))"

definition bs_copy :: "binary_stream \<Rightarrow> binary_stream \<Rightarrow> binary_stream" where
  "bs_copy this other = this\<lparr>input_cursor := input_cursor other,
     output_cursor := output_cursor other, buffer := buffer other\<rparr>"

definition bs_swap :: "binary_stream \<Rightarrow> binary_stream \<Rightarrow> binary_stream \<times> binary_stream" where
  "bs_swap this other =
    (this\<lparr>input_cursor := input_cursor other, output_cursor := output_cursor other,
       buffer := buffer other\<rparr>,
     other\<lparr>input_cursor := input_cursor this, output_cursor := output_cursor this,
       buffer := buffer this\<rparr>)"

definition bs_available :: "binary_stream \<Rightarrow> int" where
  "bs_available s = int (input_cursor s) - int (output_cursor s)"

definition bs_resize :: "nat \<Rightarrow> binary_stream \<Rightarrow> binary_stream" where
  "bs_resize n s = s\<lparr>buffer := vresize n (buffer s)\<rparr>"

definition bs_resize_val :: "nat \<Rightarrow> byte \<Rightarrow> binary_stream \<Rightarrow> binary_stream" where
  "bs_resize_val n v s =
     s\<lparr>buffer := take n (buffer s) @ replicate (n - length (buffer s)) v\<rparr>"

definition bs_reserve :: "nat \<Rightarrow> binary_stream \<Rightarrow> binary_stream" where
  "bs_reserve n s = (if length (buffer s) < n then bs_resize n s else s)"

definition bs_reset :: "binary_stream \<Rightarrow> binary_stream" where
  "bs_reset s = s\<lparr>input_cursor := 0, output_cursor := 0\<rparr>"

definition bs_reset_out :: "binary_stream \<Rightarrow> binary_stream" where
  "bs_reset_out s = s\<lparr>output_cursor := 0\<rparr>"

definition bs_set_output :: "nat \<Rightarrow> binary_stream \<Rightarrow> binary_stream" where
  "bs_set_output n s = s\<lparr>output_cursor := n\<rparr>"

definition bs_set_input :: "nat \<Rightarrow> binary_stream \<Rightarrow> binary_stream" where
  "bs_set_input n s = s\<lparr>input_cursor := n\<rparr>"

definition bs_all_size :: "binary_stream \<Rightarrow> nat" where
  "bs_all_size s = length (buffer s)"

text \<open>
  \<open>alloc_buffer\<close> hands out a pointer to \<open>n\<close> fresh bytes at the write position; the caller fills
  them. The model returns the offset of the pointer.
\<close>

definition bs_alloc_buffer :: "nat \<Rightarrow> binary_stream \<Rightarrow> nat \<times> binary_stream" where
  "bs_alloc_buffer n s =
    (let size_need = input_cursor s + n;
         buf = (if length (buffer s) < size_need then vresize (size_need * 2) (buffer s)
                else buffer s)
     in (input_cursor s, s\<lparr>buffer := buf, input_cursor := input_cursor s + n\<rparr>))"

definition bs_fill :: "nat \<Rightarrow> byte list \<Rightarrow> binary_stream \<Rightarrow> binary_stream" where
  "bs_fill off d s = s\<lparr>buffer := overwrite (buffer s) off d\<rparr>"

definition bs_write :: "byte list \<Rightarrow> binary_stream \<Rightarrow> binary_stream" where
  "bs_write d s =
    (if d = [] then s
     else let size_need = input_cursor s + length d;
              buf = (if length (buffer s) < size_need then vresize (size_need + 1) (buffer s)
                     else buffer s)
          in s\<lparr>buffer := overwrite buf (input_cursor s) d,
               input_cursor := input_cursor s + length d\<rparr>)"

text \<open>\<open>write_stream\<close> appends with a \<open>back_inserter\<close>: behind the whole vector, slack included.\<close>

definition bs_write_stream :: "byte list \<Rightarrow> binary_stream \<Rightarrow> binary_stream" where
  "bs_write_stream src s = s\<lparr>buffer := buffer s @ src,
     input_cursor := input_cursor s + (length (buffer s @ src) - length (buffer s))\<rparr>"

definition bs_read :: "nat \<Rightarrow> binary_stream \<Rightarrow> byte list option \<times> binary_stream" where
  "bs_read n s =
    (if n = 0 then (None, s)
     else if bs_available s < int n then (None, s)
     else (Some (take n (drop (output_cursor s) (buffer s))),
           s\<lparr>output_cursor := output_cursor s + n\<rparr>))"

definition bs_read_available :: "binary_stream \<Rightarrow> byte list option \<times> binary_stream" where
  "bs_read_available s =
    (let available_size = bs_available s
     in if available_size = 0 then (None, s)
        else (Some (take (nat available_size) (drop (output_cursor s) (buffer s))),
              s\<lparr>output_cursor := nat (int (output_cursor s) + available_size)\<rparr>))"

text \<open>The typed read: the pointer is dereferenced whatever \<open>read\<close> returned.\<close>

definition bs_read_as :: "nat \<Rightarrow> (byte list \<Rightarrow> 'a) \<Rightarrow> binary_stream \<Rightarrow> ('a \<times> binary_stream) option" where
  "bs_read_as n conv s =
    (case bs_read n s of (None, _) \<Rightarrow> None | (Some d, s') \<Rightarrow> Some (conv d, s'))"

definition bs_read_u8 :: "binary_stream \<Rightarrow> (u8 \<times> binary_stream) option" where
  "bs_read_u8 = bs_read_as 1 word_of_bytes"

definition bs_read_u32 :: "binary_stream \<Rightarrow> (u32 \<times> binary_stream) option" where
  "bs_read_u32 = bs_read_as 4 word_of_bytes"

definition bs_read_u64 :: "binary_stream \<Rightarrow> (u64 \<times> binary_stream) option" where
  "bs_read_u64 = bs_read_as 8 word_of_bytes"

definition bs_read_i64 :: "binary_stream \<Rightarrow> (int \<times> binary_stream) option" where
  "bs_read_i64 = bs_read_as 8 i64_of_bytes"

definition bs_read_bool :: "binary_stream \<Rightarrow> (bool \<times> binary_stream) option" where
  "bs_read_bool = bs_read_as 1 bool_of_bytes"

definition bs_read_string :: "binary_stream \<Rightarrow> (cstring \<times> binary_stream) option" where
  "bs_read_string s =
    (let sz = bs_available s
     in if sz = 0 then Some ([], s) else bs_read_as (nat sz) (\<lambda>d. d) s)"

definition bs_write_string :: "cstring \<Rightarrow> binary_stream \<Rightarrow> binary_stream" where
  "bs_write_string v s = (if v \<noteq> [] then bs_write v s else s)"

definition bs_get_data_for_log :: "binary_stream \<Rightarrow> byte list option" where
  "bs_get_data_for_log s =
    (if bs_available s \<le> 0 then None else Some (drop (output_cursor s) (buffer s)))"

subsection \<open>Recognising a compressed stream\<close>

definition bs_is_zlib_compressed :: "binary_stream \<Rightarrow> bool" where
  "bs_is_zlib_compressed s =
    (2 < bs_all_size s \<and> buffer s ! 0 = CHR 0x78 \<and>
     (buffer s ! 1 = CHR 0x9C \<or> buffer s ! 1 = CHR 0x01 \<or>
      buffer s ! 1 = CHR 0xDA \<or> buffer s ! 1 = CHR 0x5E))"

definition bs_is_gzip_compressed :: "binary_stream \<Rightarrow> bool" where
  "bs_is_gzip_compressed s =
    (2 < bs_all_size s \<and> buffer s ! 0 = CHR 0x1F \<and> buffer s ! 1 = CHR 0x8B)"

definition bs_is_zstd_compressed :: "binary_stream \<Rightarrow> bool" where
  "bs_is_zstd_compressed s =
    (4 < bs_all_size s \<and> buffer s ! 0 = CHR 0x28 \<and> buffer s ! 1 = CHR 0xB5 \<and>
     buffer s ! 2 = CHR 0x2F \<and> buffer s ! 3 = CHR 0xFD)"

definition bs_is_compressed :: "binary_stream \<Rightarrow> bool" where
  "bs_is_compressed s =
    (bs_is_zlib_compressed s \<or> bs_is_gzip_compressed s \<or> bs_is_zstd_compressed s)"

lemma compressed_kinds_exclusive:
  "\<not> (bs_is_zlib_compressed s \<and> bs_is_gzip_compressed s)"
  "\<not> (bs_is_zlib_compressed s \<and> bs_is_zstd_compressed s)"
  "\<not> (bs_is_gzip_compressed s \<and> bs_is_zstd_compressed s)"
  by (auto simp: bs_is_zlib_compressed_def bs_is_gzip_compressed_def bs_is_zstd_compressed_def)

subsection \<open>The pending bytes\<close>

definition bs_wf :: "binary_stream \<Rightarrow> bool" where
  "bs_wf s \<longleftrightarrow> output_cursor s \<le> input_cursor s \<and> input_cursor s \<le> length (buffer s)"

definition bs_pending :: "binary_stream \<Rightarrow> byte list" where
  "bs_pending s = drop (output_cursor s) (take (input_cursor s) (buffer s))"

lemma bs_new_wf [simp]: "bs_wf bs_new"
  by (simp add: bs_wf_def bs_new_def)

lemma bs_new_pending [simp, stream_simps]: "bs_pending bs_new = []"
  by (simp add: bs_pending_def bs_new_def)

lemma bs_available_pending: "bs_wf s \<Longrightarrow> bs_available s = int (length (bs_pending s))"
  by (simp add: bs_wf_def bs_pending_def bs_available_def)

lemma bs_reset_wf [simp]: "bs_wf (bs_reset s)"
  by (simp add: bs_wf_def bs_reset_def)

lemma bs_reset_pending [simp, stream_simps]: "bs_pending (bs_reset s) = []"
  by (simp add: bs_pending_def bs_reset_def)

lemma bs_copy_eq [simp]: "bs_copy this other = other"
  by (simp add: bs_copy_def)

lemma bs_swap_eq [simp]: "bs_swap a b = (b, a)"
  by (simp add: bs_swap_def)

lemma bs_reserve_wf [simp]: "bs_wf s \<Longrightarrow> bs_wf (bs_reserve n s)"
  by (auto simp: bs_wf_def bs_reserve_def bs_resize_def)

lemma bs_reserve_pending [simp, stream_simps]: "bs_wf s \<Longrightarrow> bs_pending (bs_reserve n s) = bs_pending s"
  by (auto simp: bs_wf_def bs_pending_def bs_reserve_def bs_resize_def take_vresize)

lemma bs_write_cursor [simp]:
  "output_cursor (bs_write d s) = output_cursor s"
  "input_cursor (bs_write d s) = input_cursor s + length d"
  by (simp_all add: bs_write_def Let_def)

lemma bs_write_wf [simp]: "bs_wf s \<Longrightarrow> bs_wf (bs_write d s)"
  by (auto simp: bs_wf_def bs_write_def Let_def)

lemma take_bs_write:
  assumes "input_cursor s \<le> length (buffer s)"
  shows "take (input_cursor s + length d) (buffer (bs_write d s)) = take (input_cursor s) (buffer s) @ d"
  using assms by (auto simp: bs_write_def Let_def take_overwrite take_vresize)

lemma bs_write_pending [simp, stream_simps]:
  "bs_wf s \<Longrightarrow> bs_pending (bs_write d s) = bs_pending s @ d"
  by (simp add: bs_pending_def take_bs_write bs_wf_def)

lemma bs_write_string_eq [simp]: "bs_write_string v s = bs_write v s"
  by (simp add: bs_write_string_def bs_write_def)

lemma bs_read_advance:
  assumes "bs_wf s" and "n \<le> length (bs_pending s)"
  shows "take n (drop (output_cursor s) (buffer s)) = take n (bs_pending s)"
    and "bs_wf (s\<lparr>output_cursor := output_cursor s + n\<rparr>)"
    and "bs_pending (s\<lparr>output_cursor := output_cursor s + n\<rparr>) = drop n (bs_pending s)"
proof -
  have n: "output_cursor s + n \<le> input_cursor s"
    using assms by (auto simp: bs_wf_def bs_pending_def)
  then have "take n (drop (output_cursor s) (take (input_cursor s) (buffer s))) =
      take n (drop (output_cursor s) (buffer s))"
    by (simp add: drop_take min_def)
  then show "take n (drop (output_cursor s) (buffer s)) = take n (bs_pending s)"
    by (simp add: bs_pending_def)
  show "bs_wf (s\<lparr>output_cursor := output_cursor s + n\<rparr>)"
    using assms(1) n by (simp add: bs_wf_def)
  show "bs_pending (s\<lparr>output_cursor := output_cursor s + n\<rparr>) = drop n (bs_pending s)"
    by (simp add: bs_pending_def add.commute)
qed

lemma bs_read_ok:
  assumes "bs_wf s" and "0 < n" and "n \<le> length (bs_pending s)"
  obtains s' where "bs_read n s = (Some (take n (bs_pending s)), s')"
    and "bs_wf s'" and "bs_pending s' = drop n (bs_pending s)"
  using that [of "s\<lparr>output_cursor := output_cursor s + n\<rparr>"] bs_read_advance [OF assms(1,3)] assms
  by (simp add: bs_read_def bs_available_pending)

lemma bs_read_short: "bs_wf s \<Longrightarrow> length (bs_pending s) < n \<Longrightarrow> bs_read n s = (None, s)"
  by (simp add: bs_read_def bs_available_pending)

lemma bs_read_cases:
  "bs_read n s = (None, s) \<or> (\<exists>d. bs_read n s = (Some d, s\<lparr>output_cursor := output_cursor s + n\<rparr>) \<and>
     0 < n \<and> int n \<le> bs_available s)"
  by (auto simp: bs_read_def)

lemma bs_read_as_ok:
  assumes "bs_wf s" and "0 < n" and "bs_pending s = d @ rest" and "length d = n"
  obtains s' where "bs_read_as n conv s = Some (conv d, s')" and "bs_wf s'" and "bs_pending s' = rest"
proof -
  from assms obtain s' where "bs_read n s = (Some (take n (bs_pending s)), s')"
    and "bs_wf s'" and "bs_pending s' = drop n (bs_pending s)"
    by (elim bs_read_ok [of s n]) auto
  with assms show thesis by (intro that [of s']) (auto simp: bs_read_as_def)
qed

lemma bs_read_as_take:
  assumes "bs_wf s" and "0 < n" and "n \<le> length (bs_pending s)"
  obtains s' where "bs_read_as n conv s = Some (conv (take n (bs_pending s)), s')" and "bs_wf s'"
    and "bs_pending s' = drop n (bs_pending s)"
  by (rule bs_read_as_ok [OF assms(1,2), of "take n (bs_pending s)" "drop n (bs_pending s)"])
    (use assms that in auto)

lemma bs_read_as_null: "bs_wf s \<Longrightarrow> length (bs_pending s) < n \<Longrightarrow> bs_read_as n conv s = None"
  by (simp add: bs_read_as_def bs_read_short)

lemma bs_read_as_Some:
  assumes "bs_wf s" and "bs_read_as n conv s = Some (v, s')"
  shows "bs_wf s' \<and> n \<le> length (bs_pending s) \<and> 0 < n \<and> v = conv (take n (bs_pending s)) \<and>
    bs_pending s' = drop n (bs_pending s)"
proof -
  from assms(2) have n: "0 < n" "n \<le> length (bs_pending s)"
    using assms(1) by (auto simp: bs_read_as_def bs_read_def bs_available_pending split: if_splits)
  with assms(1) obtain t where t: "bs_read n s = (Some (take n (bs_pending s)), t)"
    "bs_wf t" "bs_pending t = drop n (bs_pending s)"
    by (elim bs_read_ok [of s n])
  with assms(2) n show ?thesis by (auto simp: bs_read_as_def)
qed

text \<open>
  The same facts as equations on a named next state, for readers of several fields: under
  \<open>bs_wf\<close> a typed read takes the front of the pending bytes, or meets the null pointer.
\<close>

definition bs_skip :: "nat \<Rightarrow> binary_stream \<Rightarrow> binary_stream" where
  "bs_skip n s = s\<lparr>output_cursor := output_cursor s + n\<rparr>"

lemma bs_skip_pending [simp, stream_simps]: "bs_pending (bs_skip n s) = drop n (bs_pending s)"
  by (simp add: bs_pending_def bs_skip_def add.commute)

lemma bs_skip_wf [simp]: "bs_wf s \<Longrightarrow> n \<le> length (bs_pending s) \<Longrightarrow> bs_wf (bs_skip n s)"
  unfolding bs_skip_def by (rule bs_read_advance(2))

lemma bs_skip_skip [simp]: "bs_skip m (bs_skip n s) = bs_skip (n + m) s"
  by (simp add: bs_skip_def add.assoc)

lemma bs_read_eq:
  "bs_wf s \<Longrightarrow> 0 < n \<Longrightarrow> n \<le> length (bs_pending s) \<Longrightarrow>
    bs_read n s = (Some (take n (bs_pending s)), bs_skip n s)"
  using bs_read_advance(1) [of s n]
  by (simp add: bs_read_def bs_available_pending bs_skip_def)

lemma bs_read_as_eq:
  "bs_wf s \<Longrightarrow> 0 < n \<Longrightarrow> bs_read_as n conv s =
    (if n \<le> length (bs_pending s) then Some (conv (take n (bs_pending s)), bs_skip n s) else None)"
  by (simp add: bs_read_as_def bs_read_eq bs_read_short)

lemma bs_typed_reads:
  assumes "bs_wf s"
  shows "bs_read_u8 s = (if 1 \<le> length (bs_pending s)
      then Some (word_of_bytes (take 1 (bs_pending s)), bs_skip 1 s) else None)"
    and "bs_read_u32 s = (if 4 \<le> length (bs_pending s)
      then Some (word_of_bytes (take 4 (bs_pending s)), bs_skip 4 s) else None)"
    and "bs_read_u64 s = (if 8 \<le> length (bs_pending s)
      then Some (word_of_bytes (take 8 (bs_pending s)), bs_skip 8 s) else None)"
    and "bs_read_i64 s = (if 8 \<le> length (bs_pending s)
      then Some (i64_of_bytes (take 8 (bs_pending s)), bs_skip 8 s) else None)"
    and "bs_read_bool s = (if 1 \<le> length (bs_pending s)
      then Some (bool_of_bytes (take 1 (bs_pending s)), bs_skip 1 s) else None)"
  using assms
  by (simp_all add: bs_read_u8_def bs_read_u32_def bs_read_u64_def bs_read_i64_def bs_read_bool_def
      bs_read_as_eq)

subsection \<open>Properties\<close>

text \<open>
  \<open>write_stream\<close> on a stream without slack appends the source. After any \<open>write\<close> that grew the
  buffer there is one byte of slack behind the cursor, and then the bytes that become readable are
  that byte followed by the source without its last byte.
\<close>

theorem write_stream_contents:
  assumes "bs_wf s"
  shows "bs_pending (bs_write_stream src s) =
      bs_pending s @ take (length src) (drop (input_cursor s) (buffer s) @ src) \<and>
    (length (buffer s) = input_cursor s \<longrightarrow> bs_pending (bs_write_stream src s) = bs_pending s @ src) \<and>
    bs_pending (bs_write_stream (src @ [c]) (bs_write (d # ds) bs_new)) = d # ds @ CHR 0x00 # src"
proof (intro conjI)
  have pre: "output_cursor s \<le> input_cursor s" "input_cursor s \<le> length (buffer s)"
    using assms by (auto simp: bs_wf_def)
  then show *: "bs_pending (bs_write_stream src s) =
      bs_pending s @ take (length src) (drop (input_cursor s) (buffer s) @ src)"
    by (simp add: bs_pending_def bs_write_stream_def take_add drop_append add.commute)
  show "length (buffer s) = input_cursor s \<longrightarrow> bs_pending (bs_write_stream src s) = bs_pending s @ src"
    by (simp add: *)
  show "bs_pending (bs_write_stream (src @ [c]) (bs_write (d # ds) bs_new)) = d # ds @ CHR 0x00 # src"
    using drop_replicate [of "length ds" "Suc (length ds)" "CHR 0x00"]
    by (simp add: bs_pending_def bs_write_stream_def bs_write_def bs_new_def vresize_def overwrite_def)
qed

theorem write_stream_contents_witness:
  "bs_pending (bs_write_stream ''bc'' (bs_write ''a'' bs_new)) = [CHR ''a'', CHR 0x00, CHR ''b'']"
  using write_stream_contents [of bs_new "''b''" "CHR ''c''" "CHR ''a''" "[]"] by simp

end
