(* ===== verification/Tlv.thy ===== *)
theory Tlv
  imports Binary_Stream
begin

text \<open>
  The tagged values of the local database (\<open>core/tools/tlv.h\<close>, \<open>tlv.cpp\<close>). A \<open>tlv\<close> is a type and a
  stream with its value; a \<open>tlvpack\<close> is a vector of them with a cursor for
  \<open>get_first\<close>/\<open>get_next\<close>. The value stream is \<open>mutable\<close> in the source, so the readers return the
  changed \<open>tlv\<close> beside their result.

  The cursor is an iterator of the vector: \<open>None\<close> stands for an iterator that was never set or
  that a \<open>push_child\<close> invalidated, and using it is undefined behaviour, modelled like the null
  dereference by the result \<open>None\<close>.

  The second half states the wire format (\<open>tlv_enc\<close>) as a log codec and shows that the stream
  operations implement it.
\<close>

record tlv =
  tlv_type :: u32
  value_stream :: binary_stream

record tlvpack =
  tlvlist :: "tlv list"
  cursor :: "nat option"

definition tlv_new :: tlv where
  "tlv_new = \<lparr>tlv_type = 0, value_stream = bs_new\<rparr>"

definition tlvpack_new :: tlvpack where
  "tlvpack_new = \<lparr>tlvlist = [], cursor = None\<rparr>"

definition tlv_set_type :: "u32 \<Rightarrow> tlv \<Rightarrow> tlv" where
  "tlv_set_type ty t = t\<lparr>tlv_type := ty\<rparr>"

subsection \<open>One tagged value\<close>

definition tlv_serialize :: "tlv \<Rightarrow> binary_stream \<Rightarrow> tlv \<times> binary_stream" where
  "tlv_serialize t s =
    (let s1 = bs_write (word_bytes 4 (tlv_type t)) s;
         s2 = bs_write (word_bytes 4 (word_of_int (bs_available (value_stream t)) :: u32)) s1;
         size = bs_available (value_stream t)
     in if 0 < size
        then (case bs_read (nat size) (value_stream t) of
                (Some d, vs) \<Rightarrow> (t\<lparr>value_stream := bs_reset_out vs\<rparr>, bs_write d s2)
              | (None, vs) \<Rightarrow> (t\<lparr>value_stream := bs_reset_out vs\<rparr>, s2))
        else (t, s2))"

definition tlv_unserialize :: "tlv \<Rightarrow> binary_stream \<Rightarrow> (bool \<times> tlv \<times> binary_stream) option" where
  "tlv_unserialize t s =
    (if bs_available s < 8
     then Some (True, t, snd (bs_read (nat (bs_available s)) s))
     else do {
       (ty, s) \<leftarrow> bs_read_u32 s;
       (len, s) \<leftarrow> bs_read_u32 s;
       let t = tlv_set_type ty t;
       if len = 0 then Some (True, t, s)
       else if bs_available s < int (unat len) then Some (False, t, s)
       else do {
         (d, s) \<leftarrow> bs_read_as (unat len) (\<lambda>d. d) s;
         Some (True, t\<lparr>value_stream := bs_write d (value_stream t)\<rparr>, s)
       }
     })"

text \<open>\<open>try_get_field_with_type\<close>: the value it returns is the success flag and \<open>_length\<close>.\<close>

definition try_get_field_with_type ::
  "u32 \<Rightarrow> binary_stream \<Rightarrow> (bool \<times> u32 \<times> binary_stream) option" where
  "try_get_field_with_type wanted s =
    (if bs_available s < 8 then Some (False, 0, s)
     else do {
       (ty, s) \<leftarrow> bs_read_u32 s;
       (len, s) \<leftarrow> bs_read_u32 s;
       if len = 0 then Some (True, 0, s)
       else if bs_available s < int (unat len) then Some (False, 0, s)
       else if ty = wanted then Some (True, len, s)
       else Some (True, 0, snd (bs_read (unat len) s))
     })"

subsection \<open>Setting and getting the value\<close>

definition tlv_set_string :: "cstring \<Rightarrow> tlv \<Rightarrow> tlv" where
  "tlv_set_string v t =
    (let t = t\<lparr>value_stream := bs_reset (value_stream t)\<rparr>
     in if v = [] then t else t\<lparr>value_stream := bs_write v (value_stream t)\<rparr>)"

text \<open>A scalar is given by its bytes in memory.\<close>

definition tlv_set_scalar :: "byte list \<Rightarrow> tlv \<Rightarrow> tlv" where
  "tlv_set_scalar v t = t\<lparr>value_stream := bs_write v (bs_reset (value_stream t))\<rparr>"

definition tlv_set_stream :: "binary_stream \<Rightarrow> tlv \<Rightarrow> tlv" where
  "tlv_set_stream v t = t\<lparr>value_stream := bs_copy (value_stream t) v\<rparr>"

definition tlv_get_scalar :: "nat \<Rightarrow> (byte list \<Rightarrow> 'a) \<Rightarrow> 'a \<Rightarrow> tlv \<Rightarrow> 'a \<times> tlv" where
  "tlv_get_scalar n conv zero t =
    (if bs_available (value_stream t) < int n then (zero, t)
     else case bs_read n (value_stream t) of
        (Some d, vs) \<Rightarrow> (conv d, t\<lparr>value_stream := bs_reset_out vs\<rparr>)
      | (None, vs) \<Rightarrow> (zero, t\<lparr>value_stream := bs_reset_out vs\<rparr>))"

text \<open>
  The variant with a default value: the code stores the default in \<open>val\<close>, but returns \<open>T()\<close> when
  the value is too short, so the default is never the result.
\<close>

definition tlv_get_scalar_default ::
  "nat \<Rightarrow> (byte list \<Rightarrow> 'a) \<Rightarrow> 'a \<Rightarrow> 'a \<Rightarrow> tlv \<Rightarrow> 'a \<times> tlv" where
  "tlv_get_scalar_default n conv zero dflt t =
    (let val = dflt
     in if bs_available (value_stream t) < int n then (zero, t)
        else case bs_read n (value_stream t) of
           (Some d, vs) \<Rightarrow> (conv d, t\<lparr>value_stream := bs_reset_out vs\<rparr>)
         | (None, vs) \<Rightarrow> (val, t\<lparr>value_stream := bs_reset_out vs\<rparr>))"

definition tlv_get_string_default :: "cstring \<Rightarrow> tlv \<Rightarrow> cstring \<times> tlv" where
  "tlv_get_string_default dflt t =
    (let size = bs_available (value_stream t)
     in if 0 < size
        then (case bs_read (nat size) (value_stream t) of
                (Some d, vs) \<Rightarrow> (d, t\<lparr>value_stream := bs_reset_out vs\<rparr>)
              | (None, vs) \<Rightarrow> (dflt, t\<lparr>value_stream := bs_reset_out vs\<rparr>))
        else (dflt, t))"

definition tlv_get_string :: "tlv \<Rightarrow> cstring \<times> tlv" where
  "tlv_get_string t = tlv_get_string_default [] t"

definition tlv_get_stream :: "tlv \<Rightarrow> binary_stream" where
  "tlv_get_stream t = value_stream t"

subsection \<open>A pack of tagged values\<close>

definition tlvpack_copy :: "tlvpack \<Rightarrow> tlvpack \<Rightarrow> tlvpack" where
  "tlvpack_copy this other = this\<lparr>tlvlist := tlvlist other, cursor := None\<rparr>"

definition tlvpack_size :: "tlvpack \<Rightarrow> u32" where
  "tlvpack_size p = word_of_nat (length (tlvlist p))"

definition tlvpack_empty :: "tlvpack \<Rightarrow> bool" where
  "tlvpack_empty p = (tlvlist p = [])"

definition tlvpack_push_child :: "tlv \<Rightarrow> tlvpack \<Rightarrow> tlvpack" where
  "tlvpack_push_child t p = p\<lparr>tlvlist := tlvlist p @ [t], cursor := None\<rparr>"

definition tlvpack_get_item :: "u32 \<Rightarrow> tlvpack \<Rightarrow> tlv option" where
  "tlvpack_get_item ty p = List.find (\<lambda>x. tlv_type x = ty) (tlvlist p)"

definition tlvpack_get_first :: "tlvpack \<Rightarrow> tlv option \<times> tlvpack" where
  "tlvpack_get_first p =
    (if tlvlist p = [] then (None, p)
     else (Some (tlvlist p ! 0), p\<lparr>cursor := Some 0\<rparr>))"

definition tlvpack_get_next :: "tlvpack \<Rightarrow> (tlv option \<times> tlvpack) option" where
  "tlvpack_get_next p =
    (if tlvlist p = [] then Some (None, p)
     else case cursor p of
        None \<Rightarrow> None
      | Some i \<Rightarrow>
          (if i = length (tlvlist p) then Some (None, p)
           else if length (tlvlist p) = Suc i then Some (None, p\<lparr>cursor := Some (Suc i)\<rparr>)
           else Some (Some (tlvlist p ! Suc i), p\<lparr>cursor := Some (Suc i)\<rparr>)))"

fun tlv_serialize_all :: "tlv list \<Rightarrow> binary_stream \<Rightarrow> tlv list \<times> binary_stream" where
  "tlv_serialize_all [] s = ([], s)"
| "tlv_serialize_all (x # xs) s =
    (let (x', s1) = tlv_serialize x s; (xs', s2) = tlv_serialize_all xs s1 in (x' # xs', s2))"

definition tlvpack_serialize :: "tlvpack \<Rightarrow> binary_stream \<Rightarrow> tlvpack \<times> binary_stream" where
  "tlvpack_serialize p s =
    (let total = sum_list (map (\<lambda>x. bs_all_size (value_stream x)) (tlvlist p));
         (xs, s') = tlv_serialize_all (tlvlist p) (bs_reserve total s)
     in (p\<lparr>tlvlist := xs\<rparr>, s'))"

partial_function (option) tlvpack_unserialize ::
  "tlvpack \<Rightarrow> binary_stream \<Rightarrow> (bool \<times> tlvpack \<times> binary_stream) option" where
  "tlvpack_unserialize p s =
    (if bs_available s = 0 then Some (True, p, s)
     else Option.bind (tlv_unserialize tlv_new s)
       (\<lambda>(ok, t, s'). if \<not> ok then Some (False, p, s')
          else tlvpack_unserialize (tlvpack_push_child t p) s'))"

definition tlv_set_pack :: "tlvpack \<Rightarrow> tlv \<Rightarrow> tlv" where
  "tlv_set_pack v t = t\<lparr>value_stream := snd (tlvpack_serialize v (value_stream t))\<rparr>"

text \<open>\<open>get_value<tlvpack>\<close> reads from the value stream itself and leaves its cursor at the end.\<close>

definition tlv_get_pack :: "tlv \<Rightarrow> (tlvpack \<times> tlv) option" where
  "tlv_get_pack t =
    Option.bind (tlvpack_unserialize tlvpack_new (value_stream t))
      (\<lambda>(_, p, vs). Some (p, t\<lparr>value_stream := vs\<rparr>))"

definition tlv_of_string :: "u32 \<Rightarrow> cstring \<Rightarrow> tlv" where
  "tlv_of_string ty v = tlv_set_string v (tlv_set_type ty tlv_new)"

definition tlv_of_scalar :: "u32 \<Rightarrow> byte list \<Rightarrow> tlv" where
  "tlv_of_scalar ty v = tlv_set_scalar v (tlv_set_type ty tlv_new)"

definition tlv_of_stream :: "u32 \<Rightarrow> binary_stream \<Rightarrow> tlv" where
  "tlv_of_stream ty v = tlv_set_stream v (tlv_set_type ty tlv_new)"

definition tlv_of_pack :: "u32 \<Rightarrow> tlvpack \<Rightarrow> tlv" where
  "tlv_of_pack ty v = tlv_set_pack v (tlv_set_type ty tlv_new)"

subsection \<open>The wire format\<close>

type_synonym field = "u32 \<times> byte list"

definition tlv_enc :: "field \<Rightarrow> byte list" where
  "tlv_enc f = word_bytes 4 (fst f) @ word_bytes 4 (word_of_nat (length (snd f)) :: u32) @ snd f"

definition field_ok :: "field \<Rightarrow> bool" where
  "field_ok f \<longleftrightarrow> length (snd f) < 2 ^ 32"

definition tlv_dec :: "byte list \<Rightarrow> (field \<times> byte list) option" where
  "tlv_dec bs = do {
     (ty, bs) \<leftarrow> dec_u32 bs;
     (len, bs) \<leftarrow> dec_u32 bs;
     (if length bs < unat len then None else Some ((ty, take (unat len) bs), drop (unat len) bs)) }"

lemma unat_of_length [simp]: "n < 2 ^ 32 \<Longrightarrow> unat (word_of_nat n :: u32) = n"
  by (simp add: unsigned_of_nat take_bit_nat_eq_self)

lemma tlv_dec_enc: "field_ok f \<Longrightarrow> tlv_dec (tlv_enc f @ rest) = Some (f, rest)"
  by (simp add: tlv_dec_def tlv_enc_def field_ok_def u32_field.dec_enc)

interpretation tlv_wire: log_codec tlv_enc tlv_dec field_ok
proof unfold_locales
  show "field_ok x \<Longrightarrow> tlv_dec (tlv_enc x @ rest) = Some (x, rest)" for x rest
    by (rule tlv_dec_enc)
  show "tlv_enc x \<noteq> []" for x
    using length_word_bytes [of 4 "fst x"] by (auto simp: tlv_enc_def simp del: length_word_bytes)
qed

text \<open>The field a \<open>tlv\<close> stands for, and the tlvs the client writes: read from the start.\<close>

definition tlv_field :: "tlv \<Rightarrow> field" where
  "tlv_field t = (tlv_type t, bs_pending (value_stream t))"

definition tlv_wf :: "tlv \<Rightarrow> bool" where
  "tlv_wf t \<longleftrightarrow> bs_wf (value_stream t) \<and> output_cursor (value_stream t) = 0 \<and> field_ok (tlv_field t)"

lemma tlv_wf_dest:
  assumes "tlv_wf t"
  shows "bs_wf (value_stream t)" and "output_cursor (value_stream t) = 0"
    and "length (bs_pending (value_stream t)) < 2 ^ 32"
  using assms by (auto simp: tlv_wf_def field_ok_def tlv_field_def)

lemma bs_reset_out_read:
  "output_cursor s = 0 \<Longrightarrow> bs_reset_out (s\<lparr>output_cursor := n\<rparr>) = s"
  by (simp add: bs_reset_out_def)

lemma tlv_serialize_refines:
  assumes "tlv_wf t" and "bs_wf s"
  shows "fst (tlv_serialize t s) = t" and "bs_wf (snd (tlv_serialize t s))"
    and "bs_pending (snd (tlv_serialize t s)) = bs_pending s @ tlv_enc (tlv_field t)"
proof -
  let ?v = "value_stream t"
  note wf = tlv_wf_dest [OF assms(1)]
  have av: "bs_available ?v = int (length (bs_pending ?v))"
    by (rule bs_available_pending [OF wf(1)])
  have rd: "bs_read (length (bs_pending ?v)) ?v =
      (Some (bs_pending ?v), ?v\<lparr>output_cursor := length (bs_pending ?v)\<rparr>)" if "bs_pending ?v \<noteq> []"
    using bs_read_advance(1) [OF wf(1), of "length (bs_pending ?v)"] that wf(2)
    by (simp add: bs_read_def av)
  show "fst (tlv_serialize t s) = t"
    using rd wf(2) by (cases "bs_pending ?v = []")
      (simp_all add: tlv_serialize_def Let_def av bs_reset_out_read)
  show "bs_wf (snd (tlv_serialize t s))"
    using rd assms(2) by (cases "bs_pending ?v = []") (simp_all add: tlv_serialize_def Let_def av)
  show "bs_pending (snd (tlv_serialize t s)) = bs_pending s @ tlv_enc (tlv_field t)"
    using rd assms(2) by (cases "bs_pending ?v = []")
      (simp_all add: tlv_serialize_def Let_def av tlv_enc_def tlv_field_def)
qed

lemma tlv_serialize_all_refines:
  "list_all tlv_wf xs \<Longrightarrow> bs_wf s \<Longrightarrow>
    fst (tlv_serialize_all xs s) = xs \<and> bs_wf (snd (tlv_serialize_all xs s)) \<and>
    bs_pending (snd (tlv_serialize_all xs s)) = bs_pending s @ concat (map (tlv_enc \<circ> tlv_field) xs)"
proof (induction xs arbitrary: s)
  case (Cons x xs)
  then have x: "tlv_wf x" by simp
  note r = tlv_serialize_refines [OF x \<open>bs_wf s\<close>]
  from Cons.IH [OF _ r(2)] Cons.prems r show ?case
    by (simp add: case_prod_beta Let_def)
qed simp

lemma tlvpack_serialize_refines:
  assumes "list_all tlv_wf (tlvlist p)" and "bs_wf s"
  shows "fst (tlvpack_serialize p s) = p" and "bs_wf (snd (tlvpack_serialize p s))"
    and "bs_pending (snd (tlvpack_serialize p s)) =
      bs_pending s @ concat (map (tlv_enc \<circ> tlv_field) (tlvlist p))"
  using tlv_serialize_all_refines [OF assms(1) bs_reserve_wf [OF assms(2)]] assms(2)
  by (simp_all add: tlvpack_serialize_def Let_def case_prod_beta)

text \<open>Reading one value back: the front of the stream is an encoded field.\<close>

lemma bs_read_u32_ok:
  assumes "bs_wf s" and "bs_pending s = word_bytes 4 w @ rest"
  obtains s' where "bs_read_u32 s = Some (w, s')" and "bs_wf s'" and "bs_pending s' = rest"
  using bs_read_as_ok [OF assms(1) _ assms(2), of 4 "word_of_bytes :: byte list \<Rightarrow> u32"]
  by (auto simp: bs_read_u32_def)

lemma tlv_unserialize_enc:
  assumes "bs_wf s" and "field_ok f" and "bs_pending s = tlv_enc f @ rest"
  obtains t s' where "tlv_unserialize tlv_new s = Some (True, t, s')" and "bs_wf s'"
    and "bs_pending s' = rest" and "tlv_field t = f" and "tlv_wf t"
proof -
  obtain ty v where f: "f = (ty, v)" by (cases f)
  let ?n = "word_of_nat (length v) :: u32"
  have len: "unat ?n = length v" using assms(2) f by (simp add: field_ok_def)
  have p: "bs_pending s = word_bytes 4 ty @ word_bytes 4 ?n @ v @ rest"
    using assms(3) f by (simp add: tlv_enc_def)
  obtain s1 where 1: "bs_read_u32 s = Some (ty, s1)" "bs_wf s1"
    "bs_pending s1 = word_bytes 4 ?n @ v @ rest"
    by (rule bs_read_u32_ok [OF assms(1) p])
  obtain s2 where 2: "bs_read_u32 s1 = Some (?n, s2)" "bs_wf s2" "bs_pending s2 = v @ rest"
    by (rule bs_read_u32_ok [OF 1(2,3)])
  have big: "\<not> bs_available s < 8" using assms(1) p by (simp add: bs_available_pending)
  show thesis
  proof (cases "v = []")
    case True
    with big 1 2 f show thesis
      by (intro that [of "tlv_set_type ty tlv_new" s2])
        (auto simp: tlv_unserialize_def tlv_field_def tlv_wf_def tlv_set_type_def tlv_new_def
          field_ok_def bs_new_def bs_wf_def bs_pending_def)
  next
    case False
    then have nz: "?n \<noteq> 0" using len by auto
    obtain s3 where 3: "bs_read_as (length v) (\<lambda>d. d) s2 = Some (v, s3)" "bs_wf s3"
      "bs_pending s3 = rest"
      using False by (elim bs_read_as_ok [OF 2(2) _ 2(3) refl, of "\<lambda>d. d", rotated]) simp
    have enough: "\<not> bs_available s2 < int (length v)" using 2 by (simp add: bs_available_pending)
    let ?t = "(tlv_set_type ty tlv_new)\<lparr>value_stream := bs_write v bs_new\<rparr>"
    have "tlv_unserialize tlv_new s = Some (True, ?t, s3)"
      using big 1(1) 2(1) 3(1) nz enough len
      by (simp add: tlv_unserialize_def tlv_set_type_def tlv_new_def)
    moreover have "tlv_field ?t = f" and "tlv_wf ?t"
      using assms(2) f by (simp_all add: tlv_field_def tlv_wf_def tlv_set_type_def field_ok_def)
        (simp add: bs_new_def)
    ultimately show thesis using 3 by (intro that)
  qed
qed

lemma tlvpack_unserialize_enc:
  assumes "bs_wf s" and "list_all field_ok fs" and "bs_pending s = concat (map tlv_enc fs)"
  obtains p' s' where "tlvpack_unserialize p s = Some (True, p', s')" and "bs_wf s'"
    and "bs_pending s' = []" and "map tlv_field (tlvlist p') = map tlv_field (tlvlist p) @ fs"
    and "list_all tlv_wf (tlvlist p) \<Longrightarrow> list_all tlv_wf (tlvlist p')"
  using assms
proof (induction fs arbitrary: p s thesis)
  case Nil
  then show ?case
    by (intro Nil.prems(1) [of p s]) (simp_all add: tlvpack_unserialize.simps bs_available_pending)
next
  case (Cons f fs)
  from Cons.prems obtain t s1 where t: "tlv_unserialize tlv_new s = Some (True, t, s1)" "bs_wf s1"
      "bs_pending s1 = concat (map tlv_enc fs)" "tlv_field t = f" "tlv_wf t"
    by (elim tlv_unserialize_enc [of s f]) auto
  obtain p' s' where r: "tlvpack_unserialize (tlvpack_push_child t p) s1 = Some (True, p', s')"
      "bs_wf s'" "bs_pending s' = []"
      "map tlv_field (tlvlist p') = map tlv_field (tlvlist (tlvpack_push_child t p)) @ fs"
      "list_all tlv_wf (tlvlist (tlvpack_push_child t p)) \<Longrightarrow> list_all tlv_wf (tlvlist p')"
    using Cons.prems t by (elim Cons.IH [of "tlvpack_push_child t p" s1, rotated 1]) auto
  have "bs_pending s \<noteq> []"
    using Cons.prems tlv_wire.enc_nonempty [of f] by simp
  then have "tlvpack_unserialize p s = Some (True, p', s')"
    using t(1) r(1) Cons.prems(2)
    by (subst tlvpack_unserialize.simps) (simp add: bs_available_pending)
  with t r show ?case
    by (intro Cons.prems(1) [of p' s']) (auto simp: tlvpack_push_child_def)
qed


subsection \<open>Reading bytes that nobody vouches for\<close>

lemma bs_read_available_wf:
  assumes "bs_wf s" and "0 < length (bs_pending s)"
  obtains s' where "bs_read (length (bs_pending s)) s = (Some (bs_pending s), s')"
    and "bs_wf s'" and "bs_pending s' = []"
  using bs_read_ok [OF assms(1,2) order.refl] by auto

lemma tlv_unserialize_total:
  assumes "bs_wf s" and "bs_pending s \<noteq> []"
  obtains ok t s' where "tlv_unserialize t0 s = Some (ok, t, s')" and "bs_wf s'"
    and "length (bs_pending s') < length (bs_pending s)"
proof (cases "length (bs_pending s) < 8")
  case True
  then have short: "bs_available s < 8" "0 < length (bs_pending s)"
    using assms by (auto simp: bs_available_pending)
  from bs_read_available_wf [OF assms(1) short(2)] obtain s' where
    "bs_read (length (bs_pending s)) s = (Some (bs_pending s), s')" "bs_wf s'" "bs_pending s' = []" .
  with short assms show thesis
    by (intro that [of True t0 s']) (auto simp: tlv_unserialize_def bs_available_pending)
next
  case False
  then have av: "\<not> bs_available s < 8" using assms(1) by (simp add: bs_available_pending)
  from False assms(1) obtain ty s1 where 1: "bs_read_u32 s = Some (ty, s1)" "bs_wf s1"
      "bs_pending s1 = drop 4 (bs_pending s)"
    unfolding bs_read_u32_def by (elim bs_read_as_take [of s 4]) auto
  from False 1 obtain len s2 where 2: "bs_read_u32 s1 = Some (len, s2)" "bs_wf s2"
      "bs_pending s2 = drop 8 (bs_pending s)"
    unfolding bs_read_u32_def by (elim bs_read_as_take [of s1 4]) auto
  have less: "length (bs_pending s2) < length (bs_pending s)" using 2(3) False by simp
  show thesis
  proof (cases "len = 0 \<or> bs_available s2 < int (unat len)")
    case True
    with av 1(1) 2 less show thesis
      by (intro that [of "len = 0" "tlv_set_type ty t0" s2]) (auto simp: tlv_unserialize_def Let_def)
  next
    case enough: False
    then have "0 < unat len" by (simp add: unat_gt_0)
    have "int (unat len) \<le> int (length (bs_pending s2))"
      using enough by (simp add: bs_available_pending [OF 2(2)])
    then have "unat len \<le> length (bs_pending s2)" by (simp only: of_nat_le_iff)
    with \<open>0 < unat len\<close> obtain s3 where 3: "bs_read_as (unat len) (\<lambda>d. d) s2 = Some (take (unat len) (bs_pending s2), s3)"
        "bs_wf s3" "bs_pending s3 = drop (unat len) (bs_pending s2)"
      by (elim bs_read_as_take [OF 2(2)])
    let ?t = "tlv_set_type ty t0"
    let ?t' = "?t\<lparr>value_stream := bs_write (take (unat len) (bs_pending s2)) (value_stream ?t)\<rparr>"
    show thesis
      using av 1(1) 2(1) enough less 3
      by (intro that [of True ?t' s3]) (auto simp: tlv_unserialize_def Let_def)
  qed
qed

lemma tlvpack_unserialize_returns:
  "bs_wf s \<Longrightarrow> \<exists>ok p' s'. tlvpack_unserialize p s = Some (ok, p', s') \<and> bs_wf s'"
proof (induction "length (bs_pending s)" arbitrary: p s rule: less_induct)
  case less
  show ?case
  proof (cases "bs_pending s = []")
    case True
    with less.prems show ?thesis
      by (intro exI [of _ True] exI [of _ p] exI [of _ s])
        (simp add: tlvpack_unserialize.simps bs_available_pending)
  next
    case False
    from less.prems False obtain ok t s1 where 1: "tlv_unserialize tlv_new s = Some (ok, t, s1)"
        "bs_wf s1" "length (bs_pending s1) < length (bs_pending s)"
      by (rule tlv_unserialize_total)
    from less.hyps [OF 1(3,2), of "tlvpack_push_child t p"] 1 False less.prems show ?thesis
      by (subst tlvpack_unserialize.simps) (auto simp: bs_available_pending)
  qed
qed

lemma tlvpack_get_item_field:
  assumes "tlvpack_get_item ty p = Some t"
  shows "map_of (map tlv_field (tlvlist p)) ty = Some (bs_pending (value_stream t))"
proof -
  have "List.find (\<lambda>x. tlv_type x = ty) xs = Some t \<Longrightarrow>
      map_of (map tlv_field xs) ty = Some (bs_pending (value_stream t))" for xs
    by (induction xs) (auto simp: tlv_field_def split: if_splits)
  then show ?thesis using assms by (simp add: tlvpack_get_item_def)
qed

lemma tlvpack_get_item_None:
  "tlvpack_get_item ty p = None \<longleftrightarrow> ty \<notin> fst ` set (map tlv_field (tlvlist p))"
  by (force simp: tlvpack_get_item_def find_None_iff tlv_field_def)

subsection \<open>Properties\<close>

lemma tlvpack_unserialize_fields:
  assumes "bs_wf s" and "list_all field_ok fs" and "bs_pending s = concat (map tlv_enc fs)"
  shows "\<exists>q s'. tlvpack_unserialize tlvpack_new s = Some (True, q, s') \<and> bs_wf s' \<and> bs_pending s' = [] \<and>
    map tlv_field (tlvlist q) = fs \<and> list_all tlv_wf (tlvlist q)"
proof -
  have new: "tlvlist tlvpack_new = []" by (simp add: tlvpack_new_def)
  then show ?thesis
    using tlvpack_unserialize_enc [OF assms, of tlvpack_new] by (metis append_Nil list.map(1) list.pred_inject(1))
qed

lemma tlvs_ok: "list_all tlv_wf ts \<Longrightarrow> list_all field_ok (map tlv_field ts)"
  by (auto simp: list_all_iff tlv_wf_def)

text \<open>
  C34: a pack survives the way through a stream: what \<open>tlvpack::serialize\<close> writes is accepted by
  \<open>tlvpack::unserialize\<close>, which reads all of it and rebuilds the same types and values in the same
  order, and serializing does not use up the pack.
\<close>

theorem tlvpack_roundtrip:
  assumes "list_all tlv_wf (tlvlist p)" and "bs_wf s" and "bs_pending s = []"
  shows "fst (tlvpack_serialize p s) = p \<and>
    (\<exists>q s'. tlvpack_unserialize tlvpack_new (snd (tlvpack_serialize p s)) = Some (True, q, s') \<and>
      map tlv_field (tlvlist q) = map tlv_field (tlvlist p) \<and> list_all tlv_wf (tlvlist q) \<and>
      bs_pending s' = [])"
proof
  note ser = tlvpack_serialize_refines [OF assms(1,2)]
  show "fst (tlvpack_serialize p s) = p" by (rule ser(1))
  show "\<exists>q s'. tlvpack_unserialize tlvpack_new (snd (tlvpack_serialize p s)) = Some (True, q, s') \<and>
      map tlv_field (tlvlist q) = map tlv_field (tlvlist p) \<and> list_all tlv_wf (tlvlist q) \<and> bs_pending s' = []"
    using tlvpack_unserialize_fields [OF ser(2) tlvs_ok [OF assms(1)]] ser(3) assms(3) by auto
qed

definition sample_pack :: tlvpack where
  "sample_pack = tlvpack_push_child (tlv_set_string ''ab'' (tlv_set_type 3 tlv_new))
     (tlvpack_push_child (tlv_set_scalar (i64_bytes (-2)) (tlv_set_type 9 tlv_new)) tlvpack_new)"

lemma sample_pack_wf: "list_all tlv_wf (tlvlist sample_pack)"
  by code_simp

theorem tlvpack_roundtrip_witness:
  "\<exists>q s'. tlvpack_unserialize tlvpack_new (snd (tlvpack_serialize sample_pack bs_new)) = Some (True, q, s') \<and>
    map tlv_field (tlvlist q) = map tlv_field (tlvlist sample_pack)"
  using tlvpack_roundtrip [OF sample_pack_wf bs_new_wf bs_new_pending] by blast

text \<open>
  C35: \<open>tlvpack::unserialize\<close> returns on every stream, whatever the bytes: it neither loops nor
  dereferences the null pointer of a short read.
\<close>

theorem tlvpack_unserialize_safe:
  assumes "bs_wf s"
  shows "\<exists>ok q s'. tlvpack_unserialize p s = Some (ok, q, s') \<and> bs_wf s'"
  using tlvpack_unserialize_returns [OF assms] .

theorem tlvpack_unserialize_safe_witness:
  "\<exists>ok q s'. tlvpack_unserialize tlvpack_new (bs_write ''not a pack'' bs_new) = Some (ok, q, s') \<and> bs_wf s'"
  by (rule tlvpack_unserialize_safe) simp

text \<open>
  reading a scalar back gives the value that was set, as often as it is read; but a value that is
  too short gives zero, also when the caller names a default: the default is never returned.
\<close>

theorem tlv_scalar_default_ignored:
  fixes conv :: "byte list \<Rightarrow> 'a" and v :: "byte list"
  assumes "v \<noteq> []"
  defines "n \<equiv> length v"
  shows "tlv_get_scalar_default n conv zero dflt u = tlv_get_scalar n conv zero u \<and>
    (bs_available (value_stream u) < int n \<longrightarrow> fst (tlv_get_scalar_default n conv zero dflt u) = zero) \<and>
    (\<exists>t'. tlv_get_scalar n conv zero (tlv_set_scalar v t) = (conv v, t') \<and>
      tlv_get_scalar n conv zero t' = (conv v, t'))"
proof (intro conjI)
  have n: "0 < n" using assms by simp
  show "tlv_get_scalar_default n conv zero dflt u = tlv_get_scalar n conv zero u"
    using n by (auto simp: tlv_get_scalar_default_def tlv_get_scalar_def bs_read_def split: option.splits)
  show "bs_available (value_stream u) < int n \<longrightarrow> fst (tlv_get_scalar_default n conv zero dflt u) = zero"
    by (simp add: tlv_get_scalar_default_def)
  let ?t = "tlv_set_scalar v t"
  have s: "bs_wf (value_stream ?t)" "bs_pending (value_stream ?t) = v" "output_cursor (value_stream ?t) = 0"
    by (simp_all add: tlv_set_scalar_def) (simp add: bs_reset_def)
  then have "bs_read n (value_stream ?t) = (Some v, bs_skip n (value_stream ?t))"
    using n by (subst bs_read_eq) (simp_all add: n_def)
  moreover have "bs_reset_out (bs_skip n (value_stream ?t)) = value_stream ?t"
    using s(3) by (simp add: bs_skip_def bs_reset_out_def)
  ultimately have "tlv_get_scalar n conv zero ?t = (conv v, ?t)"
    using s n by (simp add: tlv_get_scalar_def bs_available_pending n_def)
  then show "\<exists>t'. tlv_get_scalar n conv zero ?t = (conv v, t') \<and> tlv_get_scalar n conv zero t' = (conv v, t')"
    by blast
qed

theorem tlv_scalar_default_ignored_witness:
  "fst (tlv_get_scalar_default 4 i32_of_bytes 0 7 tlv_new) = 0 \<and>
   fst (tlv_get_scalar 4 i32_of_bytes 0 (tlv_set_scalar (i32_bytes 5) tlv_new)) = 5"
proof -
  have v: "i32_bytes 5 \<noteq> []" "i32_of_bytes (i32_bytes 5) = 5" by code_simp+
  from tlv_scalar_default_ignored [OF v(1), of i32_of_bytes 0 7 tlv_new tlv_new]
  show ?thesis by (auto simp: v(2) tlv_new_def bs_available_def bs_new_def)
qed

text \<open>
  a pack stored as a value can be taken out once: the first \<open>get_value<tlvpack>\<close> gives its
  entries, and it leaves the cursor at the end of the value, so the second one gives an empty pack.
\<close>

theorem tlv_get_pack_once:
  assumes "list_all tlv_wf (tlvlist p)"
  shows "\<exists>q t'. tlv_get_pack (tlv_of_pack ty p) = Some (q, t') \<and>
    map tlv_field (tlvlist q) = map tlv_field (tlvlist p) \<and>
    (\<exists>q' t''. tlv_get_pack t' = Some (q', t'') \<and> tlvlist q' = [])"
proof -
  let ?v = "value_stream (tlv_of_pack ty p)"
  have v: "bs_wf ?v" "bs_pending ?v = concat (map tlv_enc (map tlv_field (tlvlist p)))"
    using tlvpack_serialize_refines [OF assms bs_new_wf]
    by (simp_all add: tlv_of_pack_def tlv_set_pack_def tlv_set_type_def tlv_new_def)
  from tlvpack_unserialize_fields [OF v(1) tlvs_ok [OF assms] v(2)] obtain q s where
    q: "tlvpack_unserialize tlvpack_new ?v = Some (True, q, s)" "bs_wf s" "bs_pending s = []"
    "map tlv_field (tlvlist q) = map tlv_field (tlvlist p)" by blast
  from tlvpack_unserialize_fields [OF q(2), of "[]"] q(3) obtain q' s' where
    "tlvpack_unserialize tlvpack_new s = Some (True, q', s')" "tlvlist q' = []" by auto
  with q show ?thesis by (simp add: tlv_get_pack_def)
qed

theorem tlv_get_pack_once_witness:
  "\<exists>q t'. tlv_get_pack (tlv_of_pack 1 sample_pack) = Some (q, t') \<and> length (tlvlist q) = 2 \<and>
    (\<exists>q' t''. tlv_get_pack t' = Some (q', t'') \<and> tlvlist q' = [])"
proof -
  have "length (tlvlist sample_pack) = 2" by code_simp
  then show ?thesis using tlv_get_pack_once [OF sample_pack_wf, of 1] by (metis length_map)
qed

end
