(* ===== verification/Message_Header.thy ===== *)
theory Message_Header
  imports Tlv
begin

text \<open>
  The header of an archived message (\<open>core/archive/message_flags.h\<close>,
  \<open>common.shared/patch_version.h\<close>, \<open>class message_header\<close> of \<open>core/archive/history_message.h\<close>
  and \<open>history_message.cpp\<close>): its flags, its patch version, its binary format in the versions 0
  to 6, and the merge of a newer header or a patch into a stored one.

  The scalar members are one record, \<open>header_fields\<close>; a header adds the list of modifications,
  which are headers again. The flags are the 32-bit \<open>value_\<close> of the union, so that writing
  \<open>value_\<close> and reading a bit field is one word. \<open>char\<close> is signed, as it is on the platforms the
  client is built for.
\<close>

subsection \<open>Flags\<close>

type_synonym message_flags = u32

definition flag_unread :: nat where "flag_unread = 1"
definition flag_outgoing :: nat where "flag_outgoing = 2"
definition flag_invisible :: nat where "flag_invisible = 3"
definition flag_patch :: nat where "flag_patch = 4"
definition flag_deleted :: nat where "flag_deleted = 5"
definition flag_modified :: nat where "flag_modified = 6"
definition flag_updated :: nat where "flag_updated = 7"
definition flag_clear :: nat where "flag_clear = 8"
definition flag_restored_patch :: nat where "flag_restored_patch = 9"

lemmas flag_defs = flag_unread_def flag_outgoing_def flag_invisible_def flag_patch_def
  flag_deleted_def flag_modified_def flag_updated_def flag_clear_def flag_restored_patch_def

definition put_flag :: "nat \<Rightarrow> bool \<Rightarrow> message_flags \<Rightarrow> message_flags" where
  "put_flag n b w = (if b then Bit_Operations.set_bit n w else Bit_Operations.unset_bit n w)"

lemma bit_put_flag: "bit (put_flag n b w) m \<longleftrightarrow> (if m = n then b \<and> n < 32 else bit w m)"
  by (auto simp: put_flag_def bit_simps dest: bit_imp_le_length)

subsection \<open>Patch versions\<close>

datatype patch_version = Patch_Version (version_string: cstring) (offline_version: int)

definition pv_new :: patch_version where
  "pv_new = Patch_Version [] 0"

definition char_value :: "byte \<Rightarrow> int" where
  "char_value c = to_signed 8 (of_char c)"

fun lexicographical_compare :: "byte list \<Rightarrow> byte list \<Rightarrow> bool" where
  "lexicographical_compare xs [] = False"
| "lexicographical_compare [] (y # ys) = True"
| "lexicographical_compare (x # xs) (y # ys) =
    (if char_value x < char_value y then True
     else if char_value y < char_value x then False
     else lexicographical_compare xs ys)"

definition less_than :: "cstring \<Rightarrow> cstring \<Rightarrow> bool" where
  "less_than lhs rhs =
    (if length lhs = length rhs then lexicographical_compare lhs rhs else length lhs < length rhs)"

definition pv_eq :: "patch_version \<Rightarrow> patch_version \<Rightarrow> bool" where
  "pv_eq a b = (version_string a = version_string b)"

definition set_offline_version :: "int \<Rightarrow> patch_version \<Rightarrow> patch_version" where
  "set_offline_version v p = Patch_Version (version_string p) v"

definition increment_offline :: "patch_version \<Rightarrow> patch_version" where
  "increment_offline p = Patch_Version (version_string p) (offline_version p + 1)"

lemma char_value_inject [simp]: "char_value a = char_value b \<longleftrightarrow> a = b"
proof
  have eq: "x = y" if "to_signed 8 x = to_signed 8 y" "x < 256" "y < 256" for x y
    using that by (auto simp: to_signed_def split: if_splits)
  assume "char_value a = char_value b"
  then have "(of_char a :: nat) = of_char b"
    unfolding char_value_def by (rule eq) (rule of_char_less_256)+
  then show "a = b" by simp
qed simp

lemma lexicographical_compare_total:
  "length xs = length ys \<Longrightarrow>
    lexicographical_compare xs ys \<or> xs = ys \<or> lexicographical_compare ys xs"
  by (induction xs ys rule: list_induct2) (auto simp: not_less order.order_iff_strict)

lemma lexicographical_compare_asym:
  "lexicographical_compare xs ys \<Longrightarrow> \<not> lexicographical_compare ys xs"
  by (induction xs ys rule: lexicographical_compare.induct) (auto split: if_splits)

lemma lexicographical_compare_trans:
  "lexicographical_compare xs ys \<Longrightarrow> lexicographical_compare ys zs \<Longrightarrow>
    lexicographical_compare xs zs"
proof (induction xs ys arbitrary: zs rule: lexicographical_compare.induct)
  case (2 y ys)
  then show ?case by (cases zs) auto
next
  case (3 x xs y ys)
  then show ?case
    by (cases zs) (auto split: if_splits simp: not_less_iff_gr_or_eq)
qed simp

lemma less_than_total: "less_than a b \<or> a = b \<or> less_than b a"
  using lexicographical_compare_total [of a b] by (auto simp: less_than_def)

lemma less_than_asym: "less_than a b \<Longrightarrow> \<not> less_than b a"
  using lexicographical_compare_asym [of a b] by (auto simp: less_than_def split: if_splits)

lemma less_than_irrefl [simp]: "\<not> less_than a a"
  using less_than_asym by blast

lemma less_than_trans: "less_than a b \<Longrightarrow> less_than b c \<Longrightarrow> less_than a c"
  using lexicographical_compare_trans [of a b c] by (auto simp: less_than_def split: if_splits)

definition pv_less :: "patch_version \<Rightarrow> patch_version \<Rightarrow> bool" where
  "pv_less a b = less_than (version_string a) (version_string b)"

definition pv_ge :: "patch_version \<Rightarrow> patch_version \<Rightarrow> bool" where
  "pv_ge a b = (\<not> pv_less a b)"

text \<open>
  The comparison operators of the class as an instance of the preorders of the library:
  \<open>operator<\<close> is \<open>less_than\<close> on the strings and \<open>operator>=\<close> its negation. Two versions with the same
  string and different offline counters are equivalent, so it is not a linear order.
\<close>

instantiation patch_version :: preorder
begin

definition less_patch_version :: "patch_version \<Rightarrow> patch_version \<Rightarrow> bool" where
  "less_patch_version = pv_less"

definition less_eq_patch_version :: "patch_version \<Rightarrow> patch_version \<Rightarrow> bool" where
  "less_eq_patch_version a b = pv_ge b a"

instance
proof
  fix a b c :: patch_version
  show "a < b \<longleftrightarrow> a \<le> b \<and> \<not> b \<le> a"
    using less_than_asym by (auto simp: less_patch_version_def pv_less_def less_eq_patch_version_def pv_ge_def pv_less_def)
  show "a \<le> a" by (simp add: less_eq_patch_version_def pv_ge_def pv_less_def)
  show "a \<le> b \<Longrightarrow> b \<le> c \<Longrightarrow> a \<le> c"
    using less_than_total less_than_trans unfolding less_eq_patch_version_def pv_ge_def pv_less_def by metis
qed

end

lemma pv_trichotomy: "(a :: patch_version) < b \<or> pv_eq a b \<or> b < a"
  using less_than_total by (auto simp: less_patch_version_def pv_less_def pv_eq_def)

subsection \<open>The header\<close>

record header_fields =
  h_id :: int
  h_version :: u8
  h_flags :: message_flags
  h_time :: u64
  h_prev_id :: int
  h_data_offset :: int
  h_data_size :: u32
  h_patch_version :: patch_version
  h_shared_contact :: bool
  h_poll :: bool
  h_task :: bool
  h_reactions :: bool
  h_thread :: bool

datatype message_header =
  Message_Header (hfields: header_fields) (modifications: "message_header list")

definition header_version :: u8 where
  "header_version = 6"

definition default_fields :: header_fields where
  "default_fields = \<lparr>h_id = -1, h_version = header_version, h_flags = 0, h_time = 0,
     h_prev_id = -1, h_data_offset = -1, h_data_size = 0, h_patch_version = pv_new,
     h_shared_contact = False, h_poll = False, h_task = False, h_reactions = False,
     h_thread = False\<rparr>"

definition header_new :: message_header where
  "header_new = Message_Header default_fields []"

definition make_header :: "message_flags \<Rightarrow> u64 \<Rightarrow> int \<Rightarrow> int \<Rightarrow> int \<Rightarrow> u32 \<Rightarrow> patch_version \<Rightarrow>
    bool \<Rightarrow> bool \<Rightarrow> bool \<Rightarrow> bool \<Rightarrow> bool \<Rightarrow> message_header" where
  "make_header flags time msg_id prev_id data_offset data_size patch contact poll task reactions thread =
    Message_Header \<lparr>h_id = msg_id, h_version = header_version, h_flags = flags, h_time = time,
      h_prev_id = prev_id, h_data_offset = data_offset, h_data_size = data_size,
      h_patch_version = patch, h_shared_contact = contact, h_poll = poll, h_task = task,
      h_reactions = reactions, h_thread = thread\<rparr> []"

definition upd_fields :: "(header_fields \<Rightarrow> header_fields) \<Rightarrow> message_header \<Rightarrow> message_header" where
  "upd_fields g h = Message_Header (g (hfields h)) (modifications h)"

lemma upd_fields_sel [simp]:
  "hfields (upd_fields g h) = g (hfields h)" "modifications (upd_fields g h) = modifications h"
  by (simp_all add: upd_fields_def)

definition get_id :: "message_header \<Rightarrow> int" where
  "get_id h = h_id (hfields h)"

definition has_id :: "message_header \<Rightarrow> bool" where
  "has_id h = (0 < get_id h)"

definition get_time :: "message_header \<Rightarrow> u64" where
  "get_time h = h_time (hfields h)"

definition get_prev_msgid :: "message_header \<Rightarrow> int" where
  "get_prev_msgid h = h_prev_id (hfields h)"

definition set_prev_msgid :: "int \<Rightarrow> message_header \<Rightarrow> message_header" where
  "set_prev_msgid v = upd_fields (h_prev_id_update (\<lambda>_. v))"

definition set_data_offset :: "int \<Rightarrow> message_header \<Rightarrow> message_header" where
  "set_data_offset v = upd_fields (h_data_offset_update (\<lambda>_. v))"

definition invalidate_data_offset :: "message_header \<Rightarrow> message_header" where
  "invalidate_data_offset = set_data_offset int64_max"

definition is_message_data_valid :: "message_header \<Rightarrow> bool" where
  "is_message_data_valid h = (h_data_offset (hfields h) \<noteq> int64_max)"

definition set_data_size :: "u32 \<Rightarrow> message_header \<Rightarrow> message_header" where
  "set_data_size v = upd_fields (h_data_size_update (\<lambda>_. v))"

definition is_deleted :: "message_header \<Rightarrow> bool" where
  "is_deleted h = bit (h_flags (hfields h)) flag_deleted"

definition is_restored_patch :: "message_header \<Rightarrow> bool" where
  "is_restored_patch h = bit (h_flags (hfields h)) flag_restored_patch"

definition is_modified :: "message_header \<Rightarrow> bool" where
  "is_modified h = bit (h_flags (hfields h)) flag_modified"

definition is_updated :: "message_header \<Rightarrow> bool" where
  "is_updated h = bit (h_flags (hfields h)) flag_updated"

definition is_patch :: "message_header \<Rightarrow> bool" where
  "is_patch h = bit (h_flags (hfields h)) flag_patch"

definition is_updated_message :: "message_header \<Rightarrow> bool" where
  "is_updated_message h = (\<not> is_patch h \<and> is_updated h)"

definition is_outgoing :: "message_header \<Rightarrow> bool" where
  "is_outgoing h = bit (h_flags (hfields h)) flag_outgoing"

text \<open>\<open>set_updated\<close> has a parameter, and sets the flag whatever its value.\<close>

definition set_updated :: "bool \<Rightarrow> message_header \<Rightarrow> message_header" where
  "set_updated v = upd_fields (h_flags_update (put_flag flag_updated True))"

definition has_modifications :: "message_header \<Rightarrow> bool" where
  "has_modifications h = ((is_modified h \<or> is_updated h) \<and> modifications h \<noteq> [])"

definition increment_offline_version :: "message_header \<Rightarrow> message_header" where
  "increment_offline_version = upd_fields (h_patch_version_update increment_offline)"

definition min_data_sizeof :: "u8 \<Rightarrow> nat" where
  "min_data_sizeof v =
    (let version0 = 1 + 4 + 8 + 8 + 8 + 8 + 4;
         version1 = version0 + 4;
         version2 = version1 + 1;
         version3 = version2 + 1;
         version4 = version3 + 1;
         version5 = version4 + 1;
         version6 = version5 + 1
     in if v = 0 then version0
        else if v = 1 then version1
        else if v = 2 then version2
        else if v = 3 then version3
        else if v = 4 then version4
        else if v = 5 then version5
        else if v = 6 then version6
        else version0)"

definition header_serialize :: "message_header \<Rightarrow> binary_stream \<Rightarrow> binary_stream" where
  "header_serialize h s =
    (let f = hfields h; v = h_version f;
         s = bs_write (word_bytes 1 v) s;
         s = bs_write (word_bytes 4 (h_flags f)) s;
         s = bs_write (word_bytes 8 (h_time f)) s;
         s = bs_write (i64_bytes (h_id f)) s;
         s = bs_write (i64_bytes (h_prev_id f)) s;
         s = bs_write (i64_bytes (h_data_offset f)) s;
         s = bs_write (word_bytes 4 (h_data_size f)) s;
         s = (if 0 < v
              then (let patch_str = version_string (h_patch_version f);
                        s = bs_write (word_bytes 4 (word_of_nat (length patch_str) :: u32)) s
                    in bs_write patch_str s)
              else s);
         s = (if 1 < v then bs_write (bool_bytes (h_shared_contact f)) s else s);
         s = (if 2 < v then bs_write (bool_bytes (h_poll f)) s else s);
         s = (if 3 < v then bs_write (bool_bytes (h_reactions f)) s else s);
         s = (if 4 < v then bs_write (bool_bytes (h_task f)) s else s)
     in if 5 < v then bs_write (bool_bytes (h_thread f)) s else s)"

definition read_bool_if :: "bool \<Rightarrow> bool \<Rightarrow> binary_stream \<Rightarrow> (bool \<times> binary_stream) option" where
  "read_bool_if c old s = (if c then bs_read_bool s else Some (old, s))"

definition header_read_patch ::
  "message_header \<Rightarrow> binary_stream \<Rightarrow> (bool \<times> message_header \<times> binary_stream) option" where
  "header_read_patch h s =
    (if 0 < h_version (hfields h)
     then do {
       (patch_length, s) \<leftarrow> bs_read_u32 s;
       (if 0 < patch_length
        then (if bs_available s < int (unat patch_length) then Some (False, h, s)
              else do {
                (d, s) \<leftarrow> bs_read_as (unat patch_length) (\<lambda>d. d) s;
                Some (True, upd_fields (h_patch_version_update (\<lambda>_. Patch_Version d 0)) h, s)
              })
        else Some (True, h, s))
     }
     else Some (True, h, s))"

definition header_read_contents ::
  "message_header \<Rightarrow> binary_stream \<Rightarrow> (message_header \<times> binary_stream) option" where
  "header_read_contents h s =
    (let v = h_version (hfields h)
     in do {
       (b1, s) \<leftarrow> read_bool_if (1 < v) (h_shared_contact (hfields h)) s;
       (b2, s) \<leftarrow> read_bool_if (2 < v) (h_poll (hfields h)) s;
       (b3, s) \<leftarrow> read_bool_if (3 < v) (h_reactions (hfields h)) s;
       (b4, s) \<leftarrow> read_bool_if (4 < v) (h_task (hfields h)) s;
       (b5, s) \<leftarrow> read_bool_if (5 < v) (h_thread (hfields h)) s;
       Some (upd_fields (\<lambda>f. f\<lparr>h_shared_contact := b1, h_poll := b2, h_reactions := b3,
         h_task := b4, h_thread := b5\<rparr>) h, s)
     })"

definition header_unserialize ::
  "message_header \<Rightarrow> binary_stream \<Rightarrow> (bool \<times> message_header \<times> binary_stream) option" where
  "header_unserialize h s =
    (if bs_available s < 1 then Some (False, h, s)
     else do {
       (v, s) \<leftarrow> bs_read_u8 s;
       let h = upd_fields (h_version_update (\<lambda>_. v)) h;
       (if header_version < v then Some (False, h, s)
        else if bs_available s < int (min_data_sizeof v) - 1 then Some (False, h, s)
        else do {
          (fl, s) \<leftarrow> bs_read_u32 s;
          (ti, s) \<leftarrow> bs_read_u64 s;
          (i, s) \<leftarrow> bs_read_i64 s;
          let h = upd_fields (\<lambda>f. f\<lparr>h_flags := fl, h_time := ti, h_id := i\<rparr>) h;
          (if i \<le> 0 then Some (False, h, s)
           else do {
             (prev, s) \<leftarrow> bs_read_i64 s;
             (off, s) \<leftarrow> bs_read_i64 s;
             (size, s) \<leftarrow> bs_read_u32 s;
             let h = upd_fields (\<lambda>f. f\<lparr>h_prev_id := prev, h_data_offset := off, h_data_size := size\<rparr>) h;
             (ok, h, s) \<leftarrow> header_read_patch h s;
             (if \<not> ok then Some (False, h, s)
              else do {
                (h, s) \<leftarrow> header_read_contents h s;
                Some (True, h, s)
              })
           })
        })
     })"

subsection \<open>Merging a header into a stored one\<close>

definition merge_with :: "message_header \<Rightarrow> message_header \<Rightarrow> message_header" where
  "merge_with this rhs =
    (let f = hfields this; r = hfields rhs;
         mods = (if (is_modified rhs \<or> is_updated rhs) \<and> is_patch rhs
                 then modifications this @ [rhs] else modifications this);
         f1 = f\<lparr>h_version := h_version r, h_time := h_time r,
                h_shared_contact := h_shared_contact r, h_poll := h_poll r, h_task := h_task r,
                h_reactions := h_reactions r, h_thread := h_thread r\<rparr>;
         update_offset = (h_data_offset r \<noteq> -1 \<and> \<not> is_patch rhs);
         f2 = (if update_offset
               then f1\<lparr>h_data_offset := h_data_offset r, h_data_size := h_data_size r\<rparr> else f1);
         update_prev_id = (h_prev_id r \<noteq> -1);
         f3 = (if update_prev_id \<or> \<not> is_patch rhs then f2\<lparr>h_prev_id := h_prev_id r\<rparr> else f2);
         reset_patch_flag = ((\<not> is_patch this \<or> \<not> is_patch rhs) \<or> (is_deleted this \<and> \<not> is_deleted rhs));
         set_deleted_flag = (is_deleted this \<and> is_deleted rhs);
         set_modified_flag = is_modified this;
         set_updated_flag = is_updated this;
         set_restored_patch_flag = ((is_deleted this \<and> \<not> is_deleted rhs) \<or> is_restored_patch this);
         fl = h_flags r;
         f4 = (if h_patch_version f3 < h_patch_version r
               then f3\<lparr>h_patch_version := h_patch_version r\<rparr> else f3);
         fl = (if reset_patch_flag then put_flag flag_patch False fl else fl);
         fl = (if set_deleted_flag then put_flag flag_deleted True fl else fl);
         fl = (if set_modified_flag then put_flag flag_modified True fl else fl);
         fl = (if set_updated_flag \<and> is_patch rhs then put_flag flag_updated True fl else fl);
         fl = (if set_restored_patch_flag then put_flag flag_restored_patch True fl else fl)
     in Message_Header (f4\<lparr>h_flags := fl\<rparr>) mods)"

subsection \<open>What a merge does to each flag\<close>

lemmas header_flag_defs = is_deleted_def is_restored_patch_def is_modified_def is_updated_def
  is_patch_def is_outgoing_def

lemma flag_distinct:
  "flag_patch < 32" "flag_deleted < 32" "flag_modified < 32" "flag_updated < 32"
  "flag_restored_patch < 32" "flag_outgoing < 32"
  "flag_patch \<noteq> flag_deleted" "flag_patch \<noteq> flag_modified" "flag_patch \<noteq> flag_updated"
  "flag_patch \<noteq> flag_restored_patch" "flag_deleted \<noteq> flag_modified" "flag_deleted \<noteq> flag_updated"
  "flag_deleted \<noteq> flag_restored_patch" "flag_modified \<noteq> flag_updated"
  "flag_modified \<noteq> flag_restored_patch" "flag_updated \<noteq> flag_restored_patch"
  "flag_outgoing \<noteq> flag_patch" "flag_outgoing \<noteq> flag_deleted" "flag_outgoing \<noteq> flag_modified"
  "flag_outgoing \<noteq> flag_updated" "flag_outgoing \<noteq> flag_restored_patch"
  by (simp_all add: flag_defs)

lemma merge_flags:
  "h_flags (hfields (merge_with a b)) =
    (let fl = h_flags (hfields b);
         fl = (if (\<not> is_patch a \<or> \<not> is_patch b) \<or> (is_deleted a \<and> \<not> is_deleted b)
               then put_flag flag_patch False fl else fl);
         fl = (if is_deleted a \<and> is_deleted b then put_flag flag_deleted True fl else fl);
         fl = (if is_modified a then put_flag flag_modified True fl else fl);
         fl = (if is_updated a \<and> is_patch b then put_flag flag_updated True fl else fl)
     in if (is_deleted a \<and> \<not> is_deleted b) \<or> is_restored_patch a
        then put_flag flag_restored_patch True fl else fl)"
  by (simp add: merge_with_def Let_def)

lemma merge_is_deleted [simp]: "is_deleted (merge_with a b) \<longleftrightarrow> is_deleted b"
  using flag_distinct
  by (auto simp: is_deleted_def [of "merge_with a b"] merge_flags Let_def bit_put_flag is_deleted_def [of b])

lemma merge_is_patch [simp]:
  "is_patch (merge_with a b) \<longleftrightarrow> is_patch a \<and> is_patch b \<and> (is_deleted a \<longrightarrow> is_deleted b)"
  using flag_distinct
  by (auto simp: is_patch_def [of "merge_with a b"] merge_flags Let_def bit_put_flag is_patch_def [of b])

lemma merge_is_modified [simp]: "is_modified (merge_with a b) \<longleftrightarrow> is_modified a \<or> is_modified b"
  using flag_distinct
  by (auto simp: is_modified_def [of "merge_with a b"] merge_flags Let_def bit_put_flag is_modified_def [of b])

lemma merge_is_updated [simp]:
  "is_updated (merge_with a b) \<longleftrightarrow> is_updated b \<or> (is_updated a \<and> is_patch b)"
  using flag_distinct
  by (auto simp: is_updated_def [of "merge_with a b"] merge_flags Let_def bit_put_flag is_updated_def [of b])

lemma merge_is_restored_patch [simp]:
  "is_restored_patch (merge_with a b) \<longleftrightarrow>
    is_restored_patch a \<or> is_restored_patch b \<or> (is_deleted a \<and> \<not> is_deleted b)"
  using flag_distinct
  by (auto simp: is_restored_patch_def [of "merge_with a b"] merge_flags Let_def bit_put_flag
      is_restored_patch_def [of b])

lemma merge_is_outgoing [simp]: "is_outgoing (merge_with a b) \<longleftrightarrow> is_outgoing b"
  using flag_distinct
  by (auto simp: is_outgoing_def merge_flags Let_def bit_put_flag)

lemma merge_fields [simp]:
  "get_id (merge_with a b) = get_id a"
  "h_id (hfields (merge_with a b)) = h_id (hfields a)"
  "h_version (hfields (merge_with a b)) = h_version (hfields b)"
  "h_time (hfields (merge_with a b)) = h_time (hfields b)"
  "h_shared_contact (hfields (merge_with a b)) = h_shared_contact (hfields b)"
  "h_poll (hfields (merge_with a b)) = h_poll (hfields b)"
  "h_task (hfields (merge_with a b)) = h_task (hfields b)"
  "h_reactions (hfields (merge_with a b)) = h_reactions (hfields b)"
  "h_thread (hfields (merge_with a b)) = h_thread (hfields b)"
  "h_patch_version (hfields (merge_with a b)) =
    (if h_patch_version (hfields a) < h_patch_version (hfields b)
     then h_patch_version (hfields b) else h_patch_version (hfields a))"
  "h_data_offset (hfields (merge_with a b)) =
    (if h_data_offset (hfields b) \<noteq> -1 \<and> \<not> is_patch b then h_data_offset (hfields b)
     else h_data_offset (hfields a))"
  "h_data_size (hfields (merge_with a b)) =
    (if h_data_offset (hfields b) \<noteq> -1 \<and> \<not> is_patch b then h_data_size (hfields b)
     else h_data_size (hfields a))"
  "h_prev_id (hfields (merge_with a b)) =
    (if h_prev_id (hfields b) \<noteq> -1 \<or> \<not> is_patch b then h_prev_id (hfields b)
     else h_prev_id (hfields a))"
  "modifications (merge_with a b) =
    (if (is_modified b \<or> is_updated b) \<and> is_patch b then modifications a @ [b] else modifications a)"
  by (simp_all add: merge_with_def Let_def get_id_def)

subsection \<open>The binary format\<close>

definition header_enc :: "header_fields \<Rightarrow> byte list" where
  "header_enc f =
    (let v = h_version f; flag = (\<lambda>n b. if n < v then bool_bytes b else [])
     in word_bytes 1 v @ word_bytes 4 (h_flags f) @ word_bytes 8 (h_time f) @
        i64_bytes (h_id f) @ i64_bytes (h_prev_id f) @ i64_bytes (h_data_offset f) @
        word_bytes 4 (h_data_size f) @
        (if 0 < v then word_bytes 4 (word_of_nat (length (version_string (h_patch_version f))) :: u32) @
           version_string (h_patch_version f) else []) @
        flag 1 (h_shared_contact f) @ flag 2 (h_poll f) @ flag 3 (h_reactions f) @
        flag 4 (h_task f) @ flag 5 (h_thread f))"

text \<open>
  What the format keeps: the offline counter is never written, and a header of an old version has no
  patch version and no flags for the contents the later versions added.
\<close>

definition persisted :: "header_fields \<Rightarrow> header_fields" where
  "persisted f =
    (let v = h_version f
     in f\<lparr>h_patch_version := Patch_Version (if 0 < v then version_string (h_patch_version f) else []) 0,
          h_shared_contact := (1 < v \<and> h_shared_contact f), h_poll := (2 < v \<and> h_poll f),
          h_reactions := (3 < v \<and> h_reactions f), h_task := (4 < v \<and> h_task f),
          h_thread := (5 < v \<and> h_thread f)\<rparr>)"

definition storable :: "header_fields \<Rightarrow> bool" where
  "storable f \<longleftrightarrow> h_version f \<le> header_version \<and> 0 < h_id f \<and> int64 (h_id f) \<and>
     int64 (h_prev_id f) \<and> int64 (h_data_offset f) \<and>
     length (version_string (h_patch_version f)) < 2 ^ 32"

lemma header_serialize_pending:
  "bs_wf s \<Longrightarrow> bs_wf (header_serialize h s) \<and>
    bs_pending (header_serialize h s) = bs_pending s @ header_enc (hfields h)"
  by (simp add: header_serialize_def header_enc_def Let_def)

lemma read_bool_if_eq:
  "bs_wf s \<Longrightarrow> read_bool_if c old s =
    (if c then (if 1 \<le> length (bs_pending s)
       then Some (bool_of_bytes (take 1 (bs_pending s)), bs_skip 1 s) else None)
     else Some (old, s))"
  by (simp add: read_bool_if_def bs_typed_reads)

lemma header_version_cases:
  assumes "v \<le> header_version"
  shows "v \<in> {0, 1, 2, 3, 4, 5, 6}"
proof -
  have unat_back: "word_of_nat (unat v) = v" by simp
  have "unat v \<le> 6" using assms by (simp add: header_version_def word_le_nat_alt)
  then have "unat v \<in> {0, 1, 2, 3, 4, 5, 6}" by auto
  then have "word_of_nat (unat v) \<in> (word_of_nat ` {0, 1, 2, 3, 4, 5, 6} :: u8 set)" by (rule imageI)
  then show ?thesis unfolding unat_back by simp
qed

lemma header_unserialize_enc:
  assumes "bs_wf s" and "storable f" and "bs_pending s = header_enc f @ rest"
    and "hfields h = default_fields"
  shows "\<exists>s'. header_unserialize h s = Some (True, Message_Header (persisted f) (modifications h), s') \<and>
    bs_wf s' \<and> bs_pending s' = rest"
proof -
  let ?L = "length (version_string (h_patch_version f))"
  have L: "unat (word_of_nat ?L :: u32) = ?L"
    using assms(2) by (intro unat_of_length) (simp add: storable_def)
  have z: "0 < (word_of_nat ?L :: u32) \<longleftrightarrow> 0 < ?L" using L by (metis unat_gt_0 word_neq_0_conv)
  have st: "\<not> header_version < h_version f" "0 < h_id f" "int64 (h_id f)" "int64 (h_prev_id f)" "int64 (h_data_offset f)" 
    using assms(2) by (auto simp: storable_def)
  have "h_version f \<in> {0, 1, 2, 3, 4, 5, 6}" using assms(2) by (intro header_version_cases) (simp add: storable_def)
  then show ?thesis
    using assms(1,3,4) st L z
    by (elim insertE emptyE) (simp_all add: header_unserialize_def header_read_patch_def header_read_contents_def header_enc_def bs_typed_reads bs_available_pending min_data_sizeof_def Let_def
      read_bool_if_eq bs_read_as_eq upd_fields_def persisted_def default_fields_def pv_new_def)
qed

lemma header_unserialize_truncated:
  assumes "bs_wf s" and "storable f" and "1 < h_version f" and "version_string (h_patch_version f) \<noteq> []"
    and "bs_pending s = butlast (header_enc f)"
  shows "header_unserialize h s = None"
proof -
  let ?L = "length (version_string (h_patch_version f))"
  have L: "unat (word_of_nat ?L :: u32) = ?L"
    using assms(2) by (intro unat_of_length) (simp add: storable_def)
  have z: "0 < (word_of_nat ?L :: u32)" using L assms(4) by (metis length_0_conv unsigned_0 word_gt_0)
  have pos: "0 < ?L" using assms(4) by simp
  then obtain k where k: "?L = Suc k" by (cases ?L) auto
  have st: "\<not> header_version < h_version f" "0 < h_id f" "int64 (h_id f)" "int64 (h_prev_id f)" "int64 (h_data_offset f)" 
    using assms(2) by (auto simp: storable_def)
  have "h_version f \<in> {0, 1, 2, 3, 4, 5, 6}" using assms(2) by (intro header_version_cases) (simp add: storable_def)
  moreover have "h_version f \<noteq> 0" "h_version f \<noteq> 1" using assms(3) by auto
  ultimately show ?thesis
    using assms(1,5) st L z k
    by (elim insertE emptyE) (simp_all add: header_unserialize_def header_read_patch_def header_read_contents_def header_enc_def bs_typed_reads bs_available_pending min_data_sizeof_def Let_def
      read_bool_if_eq bs_read_as_eq upd_fields_def butlast_append bool_bytes_def)
qed

lemma in_signed_to_signed: "0 < w \<Longrightarrow> n < 2 ^ w \<Longrightarrow> in_signed w (to_signed w n)" (is "_ \<Longrightarrow> _ \<Longrightarrow> ?thesis")
proof -
  assume w: "0 < w" and n: "n < 2 ^ w"
  then obtain k where k: "w = Suc k" by (cases w) auto
  have "int n < 2 ^ w" using n by (metis of_nat_less_numeral_power_cancel_iff)
  moreover have "int n < 2 ^ k \<longleftrightarrow> n < 2 ^ k" by (rule of_nat_less_numeral_power_cancel_iff)
  moreover have "(0::int) < 2 ^ k" by simp
  ultimately show ?thesis using k by (auto simp: in_signed_def to_signed_def)
qed

lemma int64_of_bytes [simp]: "length bs = 8 \<Longrightarrow> int64 (i64_of_bytes bs)"
  using le_nat_less [of bs] by (simp add: i64_of_bytes_def in_signed_to_signed)

lemma bs_typed_reads_Some:
  assumes "bs_wf s"
  shows "bs_read_u8 s = Some (u, s') \<Longrightarrow> 1 \<le> length (bs_pending s) \<and> s' = bs_skip 1 s \<and> bs_wf s'"
    and "bs_read_u32 s = Some (w, s') \<Longrightarrow> 4 \<le> length (bs_pending s) \<and> s' = bs_skip 4 s \<and> bs_wf s'"
    and "bs_read_u64 s = Some (x, s') \<Longrightarrow> 8 \<le> length (bs_pending s) \<and> s' = bs_skip 8 s \<and> bs_wf s'"
    and "bs_read_i64 s = Some (i, s') \<Longrightarrow> 8 \<le> length (bs_pending s) \<and> int64 i \<and> s' = bs_skip 8 s \<and> bs_wf s'"
    and "read_bool_if c old s = Some (b, s') \<Longrightarrow> (c \<or> b = old) \<and> bs_wf s' \<and> length (bs_pending s') \<le> length (bs_pending s)"
  using assms by (auto simp: bs_typed_reads read_bool_if_eq min_def split: if_splits)

lemma bs_read_as_len:
  assumes "bs_wf s" "bs_read_as (unat n) (\<lambda>d. d) s = Some (d, s')"
  shows "length d = unat n \<and> bs_wf s' \<and> length (bs_pending s') \<le> length (bs_pending s)"
  using bs_read_as_Some [OF assms] by auto

lemma unat_u32_less: "unat (n :: u32) < 2 ^ 32"
  using unsigned_less [of n] by simp


lemma header_read_patch_sound:
  assumes "bs_wf s" and "header_read_patch h s = Some (True, h', s')"
  shows "\<exists>p. h' = upd_fields (h_patch_version_update (\<lambda>_. p)) h \<and> bs_wf s' \<and>
    length (bs_pending s') \<le> length (bs_pending s) \<and>
    (p = h_patch_version (hfields h) \<or>
     0 < h_version (hfields h) \<and> offline_version p = 0 \<and> length (version_string p) < 2 ^ 32)"
proof (cases "0 < h_version (hfields h)")
  case True
  with assms(2) obtain n s1 where n: "bs_read_u32 s = Some (n, s1)"
    and r: "(if 0 < n then (if bs_available s1 < int (unat n) then Some (False, h, s1)
              else do {
                (d, s) \<leftarrow> bs_read_as (unat n) (\<lambda>d. d) s1;
                Some (True, upd_fields (h_patch_version_update (\<lambda>_. Patch_Version d 0)) h, s)
              })
        else Some (True, h, s1)) = Some (True, h', s')"
    by (auto simp: header_read_patch_def bind_eq_Some_conv)
  note s1 = bs_typed_reads_Some(2) [OF assms(1) n]
  show ?thesis
  proof (cases "0 < n")
    case False
    with r s1 show ?thesis by (intro exI [of _ "h_patch_version (hfields h)"]) (cases h, auto simp: upd_fields_def)
  next
    case pos: True
    with r obtain d where d: "bs_read_as (unat n) (\<lambda>d. d) s1 = Some (d, s')"
      "h' = upd_fields (h_patch_version_update (\<lambda>_. Patch_Version d 0)) h"
      by (auto simp: bind_eq_Some_conv split: if_splits)
    have "bs_wf s1" using s1 by blast
    from bs_read_as_len [OF this d(1)] s1 d(2) True unat_u32_less [of n] show ?thesis
      by (intro exI [of _ "Patch_Version d 0"]) auto
  qed
next
  case False
  with assms show ?thesis
    by (intro exI [of _ "h_patch_version (hfields h)"]) (cases h, auto simp: header_read_patch_def upd_fields_def)
qed

lemma header_read_contents_sound:
  assumes "bs_wf s" and "header_read_contents h s = Some (h', s')"
  shows "\<exists>b1 b2 b3 b4 b5. h' = upd_fields (\<lambda>f. f\<lparr>h_shared_contact := b1, h_poll := b2,
      h_reactions := b3, h_task := b4, h_thread := b5\<rparr>) h \<and> bs_wf s' \<and>
    length (bs_pending s') \<le> length (bs_pending s) \<and>
    (1 < h_version (hfields h) \<or> b1 = h_shared_contact (hfields h)) \<and>
    (2 < h_version (hfields h) \<or> b2 = h_poll (hfields h)) \<and>
    (3 < h_version (hfields h) \<or> b3 = h_reactions (hfields h)) \<and>
    (4 < h_version (hfields h) \<or> b4 = h_task (hfields h)) \<and>
    (5 < h_version (hfields h) \<or> b5 = h_thread (hfields h))"
proof -
  let ?v = "h_version (hfields h)" and ?f = "hfields h"
  from assms(2) obtain b1 s1 b2 s2 b3 s3 b4 s4 b5 where r:
    "read_bool_if (1 < ?v) (h_shared_contact ?f) s = Some (b1, s1)"
    "read_bool_if (2 < ?v) (h_poll ?f) s1 = Some (b2, s2)"
    "read_bool_if (3 < ?v) (h_reactions ?f) s2 = Some (b3, s3)"
    "read_bool_if (4 < ?v) (h_task ?f) s3 = Some (b4, s4)"
    "read_bool_if (5 < ?v) (h_thread ?f) s4 = Some (b5, s')"
    and h': "h' = upd_fields (\<lambda>f. f\<lparr>h_shared_contact := b1, h_poll := b2,
      h_reactions := b3, h_task := b4, h_thread := b5\<rparr>) h"
    by (auto simp: header_read_contents_def bind_eq_Some_conv Let_def)
  note 1 = bs_typed_reads_Some(5) [OF assms(1) r(1)]
  note 2 = bs_typed_reads_Some(5) [OF conjunct1 [OF conjunct2 [OF 1]] r(2)]
  note 3 = bs_typed_reads_Some(5) [OF conjunct1 [OF conjunct2 [OF 2]] r(3)]
  note 4 = bs_typed_reads_Some(5) [OF conjunct1 [OF conjunct2 [OF 3]] r(4)]
  note 5 = bs_typed_reads_Some(5) [OF conjunct1 [OF conjunct2 [OF 4]] r(5)]
  from h' 1 2 3 4 5 show ?thesis
    by (intro exI [of _ b1] exI [of _ b2] exI [of _ b3] exI [of _ b4] exI [of _ b5]) linarith
qed

lemma header_unserialize_sound:
  assumes "bs_wf s" and "header_unserialize h0 s = Some (True, h, s')" and "hfields h0 = default_fields"
  shows "storable (hfields h) \<and> persisted (hfields h) = hfields h \<and> modifications h = modifications h0 \<and>
    bs_wf s' \<and> length (bs_pending s') < length (bs_pending s)"
proof -
  obtain v s1 fl s2 ti s3 i s4 prev s5 off s6 size s7 h1 s8 where r: "bs_read_u8 s = Some (v, s1)"
    "\<not> header_version < v" "bs_read_u32 s1 = Some (fl, s2)" "bs_read_u64 s2 = Some (ti, s3)"
    "bs_read_i64 s3 = Some (i, s4)" "\<not> i \<le> 0" "bs_read_i64 s4 = Some (prev, s5)"
    "bs_read_i64 s5 = Some (off, s6)" "bs_read_u32 s6 = Some (size, s7)"
    and p: "header_read_patch (upd_fields (\<lambda>f. f\<lparr>h_prev_id := prev, h_data_offset := off, h_data_size := size\<rparr>)
       (upd_fields (\<lambda>f. f\<lparr>h_flags := fl, h_time := ti, h_id := i\<rparr>)
         (upd_fields (h_version_update (\<lambda>_. v)) h0))) s7 = Some (True, h1, s8)"
    and c: "header_read_contents h1 s8 = Some (h, s')"
    using assms(2) by (auto simp: header_unserialize_def bind_eq_Some_conv Let_def split: if_splits)
  have w1: "bs_wf s1" "length (bs_pending s1) < length (bs_pending s)"
    using bs_typed_reads_Some(1) [OF assms(1) r(1)] by auto
  have w2: "bs_wf s2" "length (bs_pending s2) < length (bs_pending s)"
    using bs_typed_reads_Some(2) [OF w1(1) r(3)] w1(2) by auto
  have w3: "bs_wf s3" "length (bs_pending s3) < length (bs_pending s)"
    using bs_typed_reads_Some(3) [OF w2(1) r(4)] w2(2) by auto
  have w4: "bs_wf s4" "length (bs_pending s4) < length (bs_pending s)" "int64 i"
    using bs_typed_reads_Some(4) [OF w3(1) r(5)] w3(2) by auto
  have w5: "bs_wf s5" "length (bs_pending s5) < length (bs_pending s)" "int64 prev"
    using bs_typed_reads_Some(4) [OF w4(1) r(7)] w4(2) by auto
  have w6: "bs_wf s6" "length (bs_pending s6) < length (bs_pending s)" "int64 off"
    using bs_typed_reads_Some(4) [OF w5(1) r(8)] w5(2) by auto
  have w7: "bs_wf s7" "length (bs_pending s7) < length (bs_pending s)"
    using bs_typed_reads_Some(2) [OF w6(1) r(9)] w6(2) by auto
  obtain pv where pv: "h1 = upd_fields (h_patch_version_update (\<lambda>_. pv))
      (upd_fields (\<lambda>f. f\<lparr>h_prev_id := prev, h_data_offset := off, h_data_size := size\<rparr>)
       (upd_fields (\<lambda>f. f\<lparr>h_flags := fl, h_time := ti, h_id := i\<rparr>)
         (upd_fields (h_version_update (\<lambda>_. v)) h0)))"
    and w8: "bs_wf s8" "length (bs_pending s8) \<le> length (bs_pending s7)"
    and po: "pv = pv_new \<or> 0 < v \<and> offline_version pv = 0 \<and> length (version_string pv) < 2 ^ 32"
    using header_read_patch_sound [OF w7(1) p] assms(3) by (auto simp: default_fields_def)
  obtain b1 b2 b3 b4 b5 where h: "h = upd_fields (\<lambda>f. f\<lparr>h_shared_contact := b1, h_poll := b2,
      h_reactions := b3, h_task := b4, h_thread := b5\<rparr>) h1" "bs_wf s'"
      "length (bs_pending s') \<le> length (bs_pending s8)"
    and b: "1 < v \<or> \<not> b1" "2 < v \<or> \<not> b2" "3 < v \<or> \<not> b3" "4 < v \<or> \<not> b4" "5 < v \<or> \<not> b5"
    using header_read_contents_sound [OF w8(1) c] assms(3) by (auto simp: pv default_fields_def)
  let ?f = "\<lparr>h_id = i, h_version = v, h_flags = fl, h_time = ti, h_prev_id = prev, h_data_offset = off,
    h_data_size = size, h_patch_version = pv, h_shared_contact = b1, h_poll = b2, h_task = b4,
    h_reactions = b3, h_thread = b5\<rparr>"
  have fh: "hfields h = ?f" "modifications h = modifications h0"
    using assms(3) by (simp_all add: h(1) pv default_fields_def)
  have "length (version_string pv) < 2 ^ 32"
    using po by (auto simp: pv_new_def)
  then have st: "storable ?f"
    using r(2,6) w4(3) w5(3) w6(3) by (simp add: storable_def not_le not_less)
  have "Patch_Version (if 0 < v then version_string pv else []) 0 = pv"
    using po by (cases pv) (auto simp: pv_new_def)
  moreover have "(1 < v \<and> b1) = b1" "(2 < v \<and> b2) = b2" "(3 < v \<and> b3) = b3" "(4 < v \<and> b4) = b4"
    "(5 < v \<and> b5) = b5" using b by blast+
  ultimately have "persisted ?f = ?f" by (simp only: persisted_def Let_def header_fields.simps)
  then show ?thesis using st fh h(2,3) w8 w7(2) by simp
qed

subsection \<open>Properties\<close>

text \<open>
  C8: a header survives the way through its binary format, in every version of the format: reading
  back what \<open>serialize\<close> wrote accepts the header, consumes all of it, and gives the fields the version
  keeps; a header of the current version without an offline counter comes back unchanged.
\<close>

theorem header_roundtrip:
  assumes "storable (hfields h)" and "bs_wf s" and "bs_pending s = []"
  shows "\<exists>s'. header_unserialize header_new (header_serialize h s) =
      Some (True, Message_Header (persisted (hfields h)) [], s') \<and> bs_pending s' = [] \<and>
    (h_version (hfields h) = header_version \<and> offline_version (h_patch_version (hfields h)) = 0 \<longrightarrow>
      persisted (hfields h) = hfields h)"
proof -
  have "bs_pending (header_serialize h s) = header_enc (hfields h) @ []" "bs_wf (header_serialize h s)"
    using header_serialize_pending [OF assms(2), of h] assms(3) by simp_all
  then obtain s' where s': "header_unserialize header_new (header_serialize h s) =
      Some (True, Message_Header (persisted (hfields h)) [], s')" "bs_pending s' = []"
    using header_unserialize_enc [OF _ assms(1), of _ "[]" header_new]
    by (force simp: header_new_def)
  have "h_version (hfields h) = header_version \<and> offline_version (h_patch_version (hfields h)) = 0 \<longrightarrow>
      persisted (hfields h) = hfields h"
    by (cases "h_patch_version (hfields h)") (simp add: persisted_def header_version_def)
  with s' show ?thesis by blast
qed

definition sample_header :: message_header where
  "sample_header = make_header 5 1700000000 77 76 (-1) 12 (Patch_Version ''15'' 0) True False False True False"

lemma sample_header_storable: "storable (hfields sample_header)"
  by code_simp

theorem header_roundtrip_witness:
  "\<exists>s'. header_unserialize header_new (header_serialize sample_header bs_new) = Some (True, sample_header, s')"
proof -
  have "h_version (hfields sample_header) = header_version"
    "offline_version (h_patch_version (hfields sample_header)) = 0"
    "Message_Header (hfields sample_header) [] = sample_header"
    by (simp_all add: sample_header_def make_header_def)
  with header_roundtrip [OF sample_header_storable bs_new_wf bs_new_pending] show ?thesis by force
qed

text \<open>
  whatever bytes a header was read from, an accepted header has a positive id and fields that fit
  the format, and writing and reading it again gives the same header.
\<close>

theorem header_accepted_stable:
  assumes "bs_wf s" and "header_unserialize header_new s = Some (True, h, s')"
  shows "0 < get_id h \<and> length (bs_pending s') < length (bs_pending s) \<and>
    (\<exists>s''. header_unserialize header_new (header_serialize h bs_new) = Some (True, h, s''))"
proof -
  have new: "hfields header_new = default_fields" "modifications header_new = []" by (simp_all add: header_new_def)
  note sound = header_unserialize_sound [OF assms(1,2) new(1)]
  have "bs_pending (header_serialize h bs_new) = header_enc (hfields h) @ []" "bs_wf (header_serialize h bs_new)"
    using header_serialize_pending [OF bs_new_wf, of h] by simp_all
  then obtain s'' where "header_unserialize header_new (header_serialize h bs_new) =
      Some (True, Message_Header (persisted (hfields h)) [], s'')"
    using header_unserialize_enc [of "header_serialize h bs_new" "hfields h" "[]" header_new] sound new by auto
  moreover have "Message_Header (persisted (hfields h)) [] = h"
    using sound new(2) by (cases h) simp
  ultimately show ?thesis using sound by (auto simp: storable_def get_id_def)
qed

theorem header_accepted_stable_witness:
  "\<exists>h s'. header_unserialize header_new (header_serialize sample_header bs_new) = Some (True, h, s') \<and> 0 < get_id h"
proof -
  have wf: "bs_wf (header_serialize sample_header bs_new)" using header_serialize_pending [OF bs_new_wf] by blast
  have "case header_unserialize header_new (header_serialize sample_header bs_new) of
      Some (ok, h, s') \<Rightarrow> ok | None \<Rightarrow> False"
    by code_simp
  then obtain h s' where run: "header_unserialize header_new (header_serialize sample_header bs_new) = Some (True, h, s')"
    by (auto split: option.splits prod.splits)
  with header_accepted_stable [OF wf run] show ?thesis by blast
qed

text \<open>
  the length check of \<open>unserialize\<close> does not count the patch version, so a header with a patch
  version whose last byte is missing is not rejected: the code dereferences the null pointer of the
  read that comes up short.
\<close>

theorem header_truncated_null:
  assumes "storable f" and "1 < h_version f" and "version_string (h_patch_version f) \<noteq> []"
    and "bs_wf s" and "bs_pending s = butlast (header_enc f)"
  shows "header_unserialize header_new s = None"
  by (rule header_unserialize_truncated [OF assms(4,1,2,3,5)])

theorem header_truncated_null_witness:
  "header_unserialize header_new (bs_write (butlast (header_enc (hfields sample_header))) bs_new) = None"
proof -
  have "1 < h_version (hfields sample_header)" "version_string (h_patch_version (hfields sample_header)) \<noteq> []"
    by code_simp+
  then show ?thesis by (intro header_truncated_null [OF sample_header_storable]) simp_all
qed

lemma pv_max:
  fixes a b :: patch_version
  shows "a \<le> (if a < b then b else a)" and "b \<le> (if a < b then b else a)"
  using less_than_asym less_than_irrefl by (auto simp: less_eq_patch_version_def pv_ge_def pv_less_def less_patch_version_def pv_less_def)

lemma pv_le_trans: "(a :: patch_version) \<le> b \<Longrightarrow> b \<le> c \<Longrightarrow> a \<le> c"
  by (rule order_trans)

text \<open>
  What a sequence of patches does to a stored header. The id is kept; the deleted and outgoing
  flags are those of the last header; once modified, always modified; the modifying and updating
  patches are collected in order; and the patch version is one of those merged, and none of them is
  greater.
\<close>

theorem merge_chain:
  "let m = foldl merge_with a bs in get_id m = get_id a \<and> is_deleted m = is_deleted (last (a # bs)) \<and>
    is_outgoing m = is_outgoing (last (a # bs)) \<and>
    is_modified m = list_ex is_modified (a # bs) \<and>
    modifications m = modifications a @ filter (\<lambda>b. (is_modified b \<or> is_updated b) \<and> is_patch b) bs \<and>
    h_patch_version (hfields m) \<in> (h_patch_version \<circ> hfields) ` set (a # bs) \<and>
    list_all (\<lambda>b. h_patch_version (hfields b) \<le> h_patch_version (hfields m)) (a # bs)"
proof (induction bs arbitrary: a)
  case (Cons b bs)
  let ?c = "merge_with a b" and ?m = "foldl merge_with (merge_with a b) bs"
  note IH = Cons.IH [of ?c, unfolded Let_def]
  have pv: "h_patch_version (hfields a) \<le> h_patch_version (hfields ?c)"
    "h_patch_version (hfields b) \<le> h_patch_version (hfields ?c)"
    "h_patch_version (hfields ?c) \<in> {h_patch_version (hfields a), h_patch_version (hfields b)}"
    using pv_max by auto
  have "h_patch_version (hfields ?c) \<le> h_patch_version (hfields ?m)" using IH by simp
  then have "h_patch_version (hfields a) \<le> h_patch_version (hfields ?m)"
    "h_patch_version (hfields b) \<le> h_patch_version (hfields ?m)"
    using pv(1,2) pv_le_trans by blast+
  moreover have "h_patch_version (hfields ?m) \<in> (h_patch_version \<circ> hfields) ` set (a # b # bs)"
    using IH pv(3) by auto
  ultimately show ?case using IH by (auto simp: Let_def)
qed (simp add: Let_def)

text \<open>The decimal value of a version string, the reference for the comparison of the class.\<close>

definition digit_value :: "byte \<Rightarrow> nat" where
  "digit_value c = of_char c - 48"

definition decimal_digit :: "byte \<Rightarrow> bool" where
  "decimal_digit c \<longleftrightarrow> 48 \<le> (of_char c :: nat) \<and> (of_char c :: nat) \<le> 57"

fun decimal :: "byte list \<Rightarrow> nat" where
  "decimal [] = 0"
| "decimal (c # cs) = digit_value c * 10 ^ length cs + decimal cs"

lemma digit_value_less: "decimal_digit c \<Longrightarrow> digit_value c < 10"
  unfolding decimal_digit_def digit_value_def by linarith

lemma char_value_digit: "decimal_digit c \<Longrightarrow> char_value c = int (digit_value c) + 48"
  by (simp add: char_value_def digit_value_def decimal_digit_def to_signed_def)

lemma decimal_less: "list_all decimal_digit cs \<Longrightarrow> decimal cs < 10 ^ length cs"
proof (induction cs)
  case (Cons c cs)
  then have "digit_value c \<le> 9" using digit_value_less [of c] by simp
  then have "digit_value c * 10 ^ length cs \<le> 9 * 10 ^ length cs" by (rule mult_le_mono1)
  moreover have "decimal cs < 10 ^ length cs" using Cons by simp
  ultimately show ?case unfolding decimal.simps length_Cons power_Suc by linarith
qed simp

lemma lexicographical_decimal:
  "length xs = length ys \<Longrightarrow> list_all decimal_digit xs \<Longrightarrow> list_all decimal_digit ys \<Longrightarrow>
    lexicographical_compare xs ys \<longleftrightarrow> decimal xs < decimal ys"
proof (induction xs ys rule: list_induct2)
  case (Cons x xs y ys)
  have IH: "lexicographical_compare xs ys \<longleftrightarrow> decimal xs < decimal ys" using Cons by simp
  have small: "decimal xs < 10 ^ length ys" "decimal ys < 10 ^ length ys"
    using decimal_less [of xs] decimal_less [of ys] Cons by simp_all
  have step: "a * 10 ^ length ys + p < b * 10 ^ length ys + q"
    if "a < b" "p < 10 ^ length ys" for a b p q :: nat
  proof -
    have "Suc a * 10 ^ length ys \<le> b * 10 ^ length ys" using that(1) by (intro mult_le_mono1) simp
    then show ?thesis using that(2) by simp
  qed
  show ?case
    using Cons.prems Cons.hyps IH step [OF _ small(1), of "digit_value x" "digit_value y" "decimal ys"]
      step [OF _ small(2), of "digit_value y" "digit_value x" "decimal xs"]
    by (cases "digit_value x" "digit_value y" rule: linorder_cases) (auto simp: char_value_digit)
qed simp

text \<open>
  C40: patch versions are compared as numbers: on decimal strings without a leading zero, the order of
  the class (shorter strings first, strings of one length by their characters) is the order of the
  numbers, and versions that are equivalent have the same string.
\<close>

theorem patch_version_numeric:
  assumes "list_all decimal_digit (version_string a)" and "list_all decimal_digit (version_string b)"
    and "hd (version_string a @ ''1'') \<noteq> CHR ''0''" and "hd (version_string b @ ''1'') \<noteq> CHR ''0''"
  shows "(a < b \<longleftrightarrow> decimal (version_string a) < decimal (version_string b)) \<and>
    (a \<le> b \<longleftrightarrow> decimal (version_string a) \<le> decimal (version_string b)) \<and>
    (a \<le> b \<and> b \<le> a \<longleftrightarrow> pv_eq a b)"
proof -
  have longer: "decimal xs < decimal ys" if l: "length xs < length ys" "list_all decimal_digit xs"
    "list_all decimal_digit ys" "hd (ys @ ''1'') \<noteq> CHR ''0''" for xs ys
  proof -
    obtain c cs where ys: "ys = c # cs" using l(1) by (cases ys) auto
    have "(of_char c :: nat) \<noteq> of_char CHR ''0''" using l(4) ys by (simp del: of_char_Char)
    then have "1 \<le> digit_value c" using l(3) ys by (auto simp: digit_value_def decimal_digit_def)
    then have "10 ^ length cs \<le> digit_value c * 10 ^ length cs" by simp
    moreover have "decimal xs < 10 ^ length xs" using l(2) by (rule decimal_less)
    moreover have "(10 :: nat) ^ length xs \<le> 10 ^ length cs" using l(1) ys by (intro power_increasing) auto
    ultimately show ?thesis unfolding ys decimal.simps by linarith
  qed
  have num: "less_than xs ys \<longleftrightarrow> decimal xs < decimal ys"
    if "list_all decimal_digit xs" "list_all decimal_digit ys" "hd (xs @ ''1'') \<noteq> CHR ''0''" "hd (ys @ ''1'') \<noteq> CHR ''0''"
    for xs ys
    using that longer [of xs ys] longer [of ys xs] lexicographical_decimal [of xs ys]
    by (cases "length xs" "length ys" rule: linorder_cases) (auto simp: less_than_def)
  have "a \<le> b \<and> b \<le> a \<longleftrightarrow> pv_eq a b"
    using less_than_total [of "version_string a" "version_string b"]
    by (auto simp: less_eq_patch_version_def pv_ge_def pv_less_def pv_eq_def)
  then show ?thesis
    using num [OF assms] num [OF assms(2,1,4,3)] by (auto simp: less_patch_version_def pv_less_def less_eq_patch_version_def pv_ge_def pv_less_def)
qed

theorem patch_version_numeric_witness:
  "Patch_Version ''9'' 3 < Patch_Version ''10'' 0 \<and> decimal ''10'' = 10"
proof -
  have "list_all decimal_digit ''9''" "list_all decimal_digit ''10''" "decimal ''9'' = 9" "decimal ''10'' = 10"
    by code_simp+
  then show ?thesis using patch_version_numeric [of "Patch_Version ''9'' 3" "Patch_Version ''10'' 0"] by simp
qed

end
