(* ===== verification/Archive_Storage.thy ===== *)
theory Archive_Storage
  imports Tlv
begin

text \<open>
  The block log of the local database (\<open>core/archive/storage.h\<close>, \<open>storage.cpp\<close>,
  \<open>core/archive/errors.h\<close>). A file is a sequence of blocks, each framed by its 32-bit size written
  twice before and twice after the data.

  The file is its bytes (\<open>disk_file\<close>, \<open>None\<close> when it does not exist); \<open>std::fstream\<close> is modelled by
  one position, its \<open>eofbit\<close> and \<open>failbit\<close>, and the open mode, with the rules of the standard
  library for \<open>read\<close>, \<open>peek\<close>, \<open>write\<close>, \<open>seekp\<close> and \<open>tellp\<close>: an operation on a stream that is not good
  fails, a short read sets both bits, a seek does not clear \<open>eofbit\<close>. The environment is three
  fields of the state: \<open>folder_ok\<close> (the directory exists or can be made), \<open>open_ok\<close> (the system
  opens the file) and \<open>room\<close>, the number of bytes the disk still takes, so that a write can stop
  in the middle; the failure is reported by the call that meets it. Dereferencing a stream that
  was never opened is the result \<open>None\<close>.
\<close>

datatype archive_error =
  error_ok | end_of_file | file_not_exist | create_directory_error | open_file_error | parse_headers

record storage_mode =
  mode_read :: bool
  mode_write :: bool
  mode_append :: bool
  mode_truncate :: bool
  mode_at_end :: bool

definition no_mode :: storage_mode where
  "no_mode = \<lparr>mode_read = False, mode_write = False, mode_append = False,
     mode_truncate = False, mode_at_end = False\<rparr>"

record file_stream =
  fs_pos :: nat
  fs_eof :: bool
  fs_fail :: bool
  fs_in :: bool
  fs_out :: bool
  fs_app :: bool

record storage =
  disk_file :: "byte list option"
  active_file_stream :: "file_stream option"
  last_error :: archive_error
  folder_ok :: bool
  open_ok :: bool
  room :: nat
  os_errno :: int

subsection \<open>The file stream\<close>

definition contents :: "storage \<Rightarrow> byte list" where
  "contents st = (case disk_file st of None \<Rightarrow> [] | Some c \<Rightarrow> c)"

definition fs_good :: "file_stream \<Rightarrow> bool" where
  "fs_good f \<longleftrightarrow> \<not> fs_eof f \<and> \<not> fs_fail f"

text \<open>
  What opening does to the file, for the combinations of \<open>openmode\<close> the standard defines; \<open>None\<close>
  when the stream does not open.
\<close>

definition fopen :: "storage_mode \<Rightarrow> byte list option \<Rightarrow> byte list option" where
  "fopen m file =
    (if mode_truncate m \<and> (mode_append m \<or> \<not> mode_write m) then None
     else if mode_append m then Some (case file of None \<Rightarrow> [] | Some c \<Rightarrow> c)
     else if mode_truncate m then Some []
     else if mode_read m then file
     else if mode_write m then Some []
     else None)"

definition st_open :: "storage_mode \<Rightarrow> storage \<Rightarrow> bool \<times> storage" where
  "st_open m st =
    (let st = st\<lparr>last_error := error_ok\<rparr>
     in if active_file_stream st \<noteq> None then (False, st)
        else if mode_read m \<and> \<not> mode_write m \<and> disk_file st = None
        then (False, st\<lparr>last_error := file_not_exist\<rparr>)
        else if \<not> folder_ok st then (False, st\<lparr>last_error := create_directory_error\<rparr>)
        else case (if open_ok st then fopen m (disk_file st) else None) of
            None \<Rightarrow> (False, st\<lparr>last_error := open_file_error, active_file_stream := None\<rparr>)
          | Some c \<Rightarrow>
              (True, st\<lparr>disk_file := Some c, active_file_stream := Some
                \<lparr>fs_pos = (if (mode_append m \<or> mode_at_end m) \<and> mode_write m then length c else 0),
                 fs_eof = False, fs_fail = False, fs_in = mode_read m,
                 fs_out = mode_write m \<or> mode_append m, fs_app = mode_append m\<rparr>\<rparr>))"

definition st_close :: "storage \<Rightarrow> storage" where
  "st_close st = st\<lparr>active_file_stream := None\<rparr>"

definition with_stream :: "(file_stream \<Rightarrow> file_stream) \<Rightarrow> storage \<Rightarrow> storage" where
  "with_stream g st = st\<lparr>active_file_stream := map_option g (active_file_stream st)\<rparr>"

definition fs_tellp :: "file_stream \<Rightarrow> int" where
  "fs_tellp f = (if fs_fail f then -1 else int (fs_pos f))"

definition fs_seekp :: "int \<Rightarrow> file_stream \<Rightarrow> file_stream" where
  "fs_seekp off f =
    (if fs_fail f then f else if off < 0 then f\<lparr>fs_fail := True\<rparr> else f\<lparr>fs_pos := nat off\<rparr>)"

definition fs_write :: "byte list \<Rightarrow> file_stream \<Rightarrow> storage \<Rightarrow> file_stream \<times> storage" where
  "fs_write d f st =
    (if \<not> fs_good f \<or> \<not> fs_out f then (f\<lparr>fs_fail := True\<rparr>, st)
     else let n = min (length d) (room st);
              p = (if fs_app f then length (contents st) else fs_pos f);
              c = vresize (max (length (contents st)) (p + n)) (contents st)
          in (f\<lparr>fs_pos := p + n, fs_fail := n < length d\<rparr>,
              st\<lparr>disk_file := Some (overwrite c p (take n d)), room := room st - n\<rparr>))"

definition fs_read :: "nat \<Rightarrow> file_stream \<Rightarrow> storage \<Rightarrow> byte list \<times> file_stream" where
  "fs_read n f st =
    (if \<not> fs_good f \<or> \<not> fs_in f then ([], f\<lparr>fs_fail := True\<rparr>)
     else let d = take n (drop (fs_pos f) (contents st))
          in (d, f\<lparr>fs_pos := fs_pos f + length d,
                   fs_eof := length d < n, fs_fail := length d < n\<rparr>))"

definition fs_peek_eof :: "file_stream \<Rightarrow> storage \<Rightarrow> bool \<times> file_stream" where
  "fs_peek_eof f st =
    (if \<not> fs_good f \<or> \<not> fs_in f then (True, f\<lparr>fs_fail := True\<rparr>)
     else if length (contents st) \<le> fs_pos f then (True, f\<lparr>fs_eof := True\<rparr>)
     else (False, f))"

definition st_write :: "byte list \<Rightarrow> storage \<Rightarrow> bool \<times> storage" where
  "st_write d st =
    (case active_file_stream st of None \<Rightarrow> (False, st)
     | Some f \<Rightarrow> (let (f', st') = fs_write d f st
                  in (\<not> fs_fail f', st'\<lparr>active_file_stream := Some f'\<rparr>)))"

definition st_read :: "nat \<Rightarrow> storage \<Rightarrow> byte list \<times> bool \<times> storage" where
  "st_read n st =
    (case active_file_stream st of None \<Rightarrow> ([], False, st)
     | Some f \<Rightarrow> (let (d, f') = fs_read n f st
                  in (d, fs_good f', st\<lparr>active_file_stream := Some f'\<rparr>)))"

subsection \<open>Blocks\<close>

definition max_data_block_size :: nat where
  "max_data_block_size = 1024 * 1024"

type_synonym result_type = "bool \<times> int"

definition int32_max :: int where
  "int32_max = 2147483647"

definition write_data_block ::
  "binary_stream \<Rightarrow> int \<Rightarrow> storage \<Rightarrow> result_type \<times> int \<times> binary_stream \<times> storage" where
  "write_data_block data offset st =
    (case active_file_stream st of
       None \<Rightarrow> ((False, 0), offset, data, st)
     | Some f \<Rightarrow>
        let offset = fs_tellp f;
            data_size = word_of_int (bs_available data) :: u32;
            sz = word_bytes 4 data_size;
            failed = (False, os_errno st)
        in if data_size = 0 then ((False, int32_max), offset, data, st)
           else let (ok, st) = st_write sz st in
             if \<not> ok then (failed, offset, data, st)
           else let (ok, st) = st_write sz st in
             if \<not> ok then (failed, offset, data, st)
           else let (d, data) = bs_read (unat data_size) data;
                    (ok, st) = st_write (case d of None \<Rightarrow> [] | Some b \<Rightarrow> b) st in
             if \<not> ok then (failed, offset, data, st)
           else let (ok, st) = st_write sz st in
             if \<not> ok then (failed, offset, data, st)
           else let (ok, st) = st_write sz st in
             if \<not> ok then (failed, offset, data, st)
           else ((True, 0), offset, data, st))"

definition write_data_block_at ::
  "binary_stream \<Rightarrow> int \<Rightarrow> storage \<Rightarrow> (result_type \<times> binary_stream \<times> storage) option" where
  "write_data_block_at data offset st =
    (if active_file_stream st = None then None
     else let st = with_stream (fs_seekp offset) st;
              (res, _, data, st) = write_data_block data offset st;
              st = with_stream (fs_seekp (int (length (contents st)))) st
          in Some (res, data, st))"

text \<open>
  \<open>read_data_block\<close> seeks, looks for the end of the file and then reads one framed block:
  \<open>read_block_here\<close> is the part after the look-ahead.
\<close>

definition read_block_here :: "binary_stream \<Rightarrow> storage \<Rightarrow> bool \<times> binary_stream \<times> storage" where
  "read_block_here data st =
    (let (b1, ok, st) = st_read 4 st in
       if \<not> ok then (False, data, st)
     else let (b2, ok, st) = st_read 4 st in
       if \<not> ok then (False, data, st)
     else let sz1 = le_nat b1; sz2 = le_nat b2 in
       if sz1 \<noteq> sz2 \<or> max_data_block_size < sz1 then (False, data, st)
     else let (ok, data, st) =
            (if sz1 \<noteq> 0
             then let (off, data) = bs_alloc_buffer sz1 data;
                      (d, ok, st) = st_read sz1 st
                  in (ok, bs_fill off d data, st)
             else (True, data, st)) in
       if \<not> ok then (False, data, st)
     else let (b3, ok, st) = st_read 4 st in
       if \<not> ok then (False, data, st)
     else let (b4, ok, st) = st_read 4 st in
       if \<not> ok then (False, data, st)
     else let sz3 = le_nat b3; sz4 = le_nat b4 in
       if sz1 \<noteq> sz3 \<or> sz1 \<noteq> sz4 then (False, data, st)
     else (True, data, st))"

definition read_data_block ::
  "int \<Rightarrow> binary_stream \<Rightarrow> storage \<Rightarrow> (bool \<times> binary_stream \<times> storage) option" where
  "read_data_block offset data st =
    (case active_file_stream st of
       None \<Rightarrow> None
     | Some f \<Rightarrow>
        let f = (if offset \<noteq> -1 then fs_seekp offset f else f);
            (eof, f) = fs_peek_eof f st;
            st = st\<lparr>active_file_stream := Some f\<rparr>
        in if eof then Some (False, data, st\<lparr>last_error := end_of_file\<rparr>)
           else Some (read_block_here data st))"

definition st_get_offset :: "storage \<Rightarrow> int" where
  "st_get_offset st = (case active_file_stream st of None \<Rightarrow> 0 | Some f \<Rightarrow> fs_tellp f)"

subsection \<open>Scanning a buffer for blocks\<close>

definition u32_at :: "byte list \<Rightarrow> nat \<Rightarrow> nat" where
  "u32_at buf i = le_nat (take 4 (drop i buf))"

function fast_scan :: "byte list \<Rightarrow> nat \<Rightarrow> nat \<Rightarrow> nat \<times> nat option" where
  "fast_scan buf end_position current_pos =
    (if end_position \<le> current_pos + 16 then (current_pos, None)
     else let sz1 = u32_at buf current_pos; sz2 = u32_at buf (current_pos + 4)
       in if sz1 = 0 \<or> sz1 \<noteq> sz2 \<or> max_data_block_size < sz1
          then fast_scan buf end_position (current_pos + 1)
          else if current_pos + 16 + sz1 \<le> end_position
          then (let sz3 = u32_at buf (current_pos + 8 + sz1);
                    sz4 = u32_at buf (current_pos + 12 + sz1)
                in if sz3 \<noteq> sz1 \<or> sz3 \<noteq> sz4 then fast_scan buf end_position (current_pos + 1)
                   else (current_pos, Some sz1))
          else (current_pos, None))"
  by pat_completeness auto
termination
  by (relation "measure (\<lambda>(buf, e, p). e - p)") auto

declare fast_scan.simps [simp del]

text \<open>The result: found, the stream, \<open>current_pos\<close> and \<open>_begin\<close>.\<close>

definition fast_read_data_block ::
  "binary_stream \<Rightarrow> nat \<Rightarrow> nat \<Rightarrow> nat \<Rightarrow> bool \<times> binary_stream \<times> nat \<times> nat" where
  "fast_read_data_block buf current_pos begin_pos end_position =
    (if bs_all_size buf \<le> current_pos + 16 then (False, buf, current_pos, begin_pos)
     else case fast_scan (buffer buf) end_position current_pos of
        (pos, None) \<Rightarrow> (False, buf, pos, begin_pos)
      | (pos, Some sz1) \<Rightarrow>
          (let pos = pos + 8
           in (True, bs_set_input (pos + sz1) (bs_set_output pos buf), pos + sz1 + 8, pos)))"

end
