(* ===== verification/Archive_Index.thy ===== *)
theory Archive_Index
  imports Ordered_Map Message_Header Archive_Storage
begin

text \<open>
  The index of a contact's archive (\<open>core/archive/archive_index.h\<close>, \<open>archive_index.cpp\<close>): the headers
  of all its messages in a \<open>std::map\<close> by message id, kept in a block log on disk.

  The map is the ordered association list of \<open>Ordered_Map\<close>; an iterator is a split of it, a reverse
  iterator the reversed entries before it. The clock (\<open>std::time\<close>) is the argument \<open>now\<close>, in
  seconds; the counts passed to \<open>g_core->update_outgoing_msg_count\<close> are recorded in \<open>notified\<close>.
  A \<open>None\<close> result is the null dereference of a typed read on a malformed block.
\<close>

record archive_index =
  ai_last_error :: archive_error
  headers_index :: "(int, message_header) omap"
  ai_storage :: storage
  outgoing_count :: int
  loaded_from_local :: bool
  merged_count :: int
  notified :: "int list"

type_synonym headers_map = "(int, message_header) omap"
type_synonym headers_list = "message_header list"

definition archive_index_new :: "storage \<Rightarrow> archive_index" where
  "archive_index_new st = \<lparr>ai_last_error = error_ok, headers_index = [], ai_storage = st,
     outgoing_count = 0, loaded_from_local = False, merged_count = 0, notified = []\<rparr>"

definition history_block_size :: nat where "history_block_size = 1000"
definition max_index_size :: nat where "max_index_size = 25000"
definition index_size_need_optimize :: nat where "index_size_need_optimize = 30000"
definition reactions_header_version :: u8 where "reactions_header_version = 4"
definition drop_headers_count :: nat where "drop_headers_count = 100"

definition outgoing_count_time_span :: int where
  "outgoing_count_time_span = 24 * 21 * 3600"

definition skip_patches_and_deleted_forward :: "headers_map \<Rightarrow> headers_map" where
  "skip_patches_and_deleted_forward es =
     dropWhile (\<lambda>e. \<not> (\<not> is_patch (snd e) \<and> \<not> is_deleted (snd e))) es"

subsection \<open>Inserting headers\<close>

definition get_outgoing_count :: "archive_index \<Rightarrow> int" where
  "get_outgoing_count ai = (if \<not> loaded_from_local ai then -1 else outgoing_count ai)"

definition is_outgoing_header :: "message_header \<Rightarrow> int \<Rightarrow> bool" where
  "is_outgoing_header h now =
     (is_outgoing h \<and> now - sint (get_time h) \<le> outgoing_count_time_span)"

definition notify_core_outgoing_msg_count :: "archive_index \<Rightarrow> archive_index" where
  "notify_core_outgoing_msg_count ai = ai\<lparr>notified := notified ai @ [get_outgoing_count ai]\<rparr>"

text \<open>\<open>relink_next\<close> changes the previous id of the entry after \<open>k\<close> when the condition holds there.\<close>

fun relink_next :: "int \<Rightarrow> (message_header \<Rightarrow> bool) \<Rightarrow> int \<Rightarrow> headers_map \<Rightarrow> headers_map" where
  "relink_next k c p [] = []"
| "relink_next k c p ((k', h) # es) =
    (if k < k' then (k', if c h then set_prev_msgid p h else h) # es
     else (k', h) # relink_next k c p es)"

definition insert_header ::
  "message_header \<Rightarrow> int \<Rightarrow> archive_index \<Rightarrow> message_header \<times> archive_index" where
  "insert_header header now ai =
    (let msg_id = get_id header
     in case map_of (headers_index ai) msg_id of
       None \<Rightarrow>
        (header, ai\<lparr>outgoing_count := outgoing_count ai + (if is_outgoing_header header now then 1 else 0),
                  headers_index := om_put msg_id header (headers_index ai)\<rparr>)
     | Some existing \<Rightarrow>
        (let idx = headers_index ai;
             idx = (if is_deleted header
                    then relink_next msg_id (\<lambda>n. get_prev_msgid n = get_id existing)
                           (get_prev_msgid existing) idx
                    else if is_deleted existing
                    then relink_next msg_id (\<lambda>n. get_prev_msgid n = get_prev_msgid existing)
                           (get_id existing) idx
                    else idx);
             existing = merge_with existing header;
             header = (if \<not> is_deleted existing \<and> \<not> is_modified existing then existing else header)
         in (header, ai\<lparr>headers_index := om_put msg_id existing idx,
               merged_count := merged_count ai + (if \<not> (is_patch header \<and> is_modified header) then 1 else 0)\<rparr>)))"

fun insert_headers :: "headers_list \<Rightarrow> int \<Rightarrow> archive_index \<Rightarrow> headers_list \<times> archive_index" where
  "insert_headers [] now ai = ([], ai)"
| "insert_headers (h # hs) now ai =
    (let (h, ai) = insert_header h now ai; (hs, ai) = insert_headers hs now ai in (h # hs, ai))"

definition insert_block :: "headers_list \<Rightarrow> int \<Rightarrow> archive_index \<Rightarrow> headers_list \<times> archive_index" where
  "insert_block hs now ai =
    (let prev_outgoing_count = get_outgoing_count ai;
         (hs, ai) = insert_headers hs now ai
     in (hs, if get_outgoing_count ai \<noteq> prev_outgoing_count
             then notify_core_outgoing_msg_count ai else ai))"

definition ai_get_header :: "int \<Rightarrow> archive_index \<Rightarrow> message_header option" where
  "ai_get_header msgid ai = map_of (headers_index ai) msgid"

definition ai_has_header :: "int \<Rightarrow> archive_index \<Rightarrow> bool" where
  "ai_has_header msgid ai = (map_of (headers_index ai) msgid \<noteq> None)"

subsection \<open>Reading a range of headers\<close>

fun early_loop :: "int \<Rightarrow> int \<Rightarrow> headers_map \<Rightarrow> headers_list \<Rightarrow> headers_list" where
  "early_loop count_early not_deleted [] l = l"
| "early_loop count_early not_deleted ((k, h) # es) l =
    (if is_patch h then early_loop count_early not_deleted es l
     else if count_early \<le> not_deleted then l
     else early_loop count_early (if \<not> is_deleted h then not_deleted + 1 else not_deleted) es (h # l))"

fun later_loop :: "int \<Rightarrow> int \<Rightarrow> headers_map \<Rightarrow> headers_list \<Rightarrow> headers_list" where
  "later_loop count_later not_deleted [] l = l"
| "later_loop count_later not_deleted ((k, h) # es) l =
    (if is_patch h \<or> is_deleted h then later_loop count_later not_deleted es l
     else (let not_deleted = not_deleted + 1; l = l @ [h]
           in if count_later \<le> not_deleted then l else later_loop count_later not_deleted es l))"

definition serialize_from ::
  "int \<Rightarrow> int \<Rightarrow> int \<Rightarrow> bool \<Rightarrow> headers_list \<Rightarrow> archive_index \<Rightarrow> bool \<times> headers_list" where
  "serialize_from from_id count_early count_later include_from l ai =
    (if headers_index ai = [] then (True, l)
     else let (before, from_iter) = (if from_id \<noteq> -1 then om_lower_bound from_id (headers_index ai)
                                     else (headers_index ai, []))
       in if from_id \<noteq> -1 \<and> from_iter = [] then (False, l)
       else let l = (if 0 < count_early
                     then (let before = (if include_from \<and> count_later \<le> 0 \<and> from_iter \<noteq> []
                                         then before @ [hd from_iter] else before)
                           in early_loop count_early 0 (rev before) l)
                     else l);
                l = (if 0 < count_later then later_loop count_later 0 from_iter l else l)
            in (True, l))"

subsection \<open>The file of the index\<close>

definition type_header :: u32 where "type_header = 1"

fun headers_to_pack :: "headers_list \<Rightarrow> binary_stream \<Rightarrow> tlvpack \<Rightarrow> tlvpack" where
  "headers_to_pack [] header_data p = p"
| "headers_to_pack (h # hs) header_data p =
    (let header_data = header_serialize h (bs_reset header_data)
     in headers_to_pack hs header_data (tlvpack_push_child (tlv_of_stream type_header header_data) p))"

definition serialize_block :: "headers_list \<Rightarrow> binary_stream \<Rightarrow> binary_stream" where
  "serialize_block hs data = snd (tlvpack_serialize (headers_to_pack hs bs_new tlvpack_new) data)"

lemma bs_read_as_available: "bs_read_as n conv s = Some (v, s') \<Longrightarrow> bs_available s' < bs_available s"
  by (auto simp: bs_read_as_def bs_read_def bs_available_def split: if_splits)

lemma bs_typed_read_available:
  "bs_read_u8 s = Some (a, s') \<Longrightarrow> bs_available s' < bs_available s"
  "bs_read_u32 s = Some (b, s') \<Longrightarrow> bs_available s' < bs_available s"
  "bs_read_u64 s = Some (c, s') \<Longrightarrow> bs_available s' < bs_available s"
  "bs_read_i64 s = Some (d, s') \<Longrightarrow> bs_available s' < bs_available s"
  "bs_read_bool s = Some (e, s') \<Longrightarrow> bs_available s' < bs_available s"
  "read_bool_if cond old s = Some (f, s') \<Longrightarrow> bs_available s' \<le> bs_available s"
  by (auto simp: bs_read_u8_def bs_read_u32_def bs_read_u64_def bs_read_i64_def bs_read_bool_def
      read_bool_if_def split: if_splits dest: bs_read_as_available)

lemma header_read_patch_available:
  "header_read_patch h s = Some (ok, h', s') \<Longrightarrow> bs_available s' \<le> bs_available s"
  by (force simp: header_read_patch_def bind_eq_Some_conv split: if_splits
      dest!: bs_typed_read_available(2) bs_read_as_available)

lemma header_read_contents_available:
  "header_read_contents h s = Some (h', s') \<Longrightarrow> bs_available s' \<le> bs_available s"
  by (force simp: header_read_contents_def bind_eq_Some_conv Let_def dest!: bs_typed_read_available(6))

lemma header_unserialize_available:
  "header_unserialize h s = Some (ok, h', s') \<Longrightarrow> bs_available s' \<le> bs_available s"
  by (fastforce simp: header_unserialize_def bind_eq_Some_conv Let_def split: if_splits
      dest!: bs_typed_read_available(1-4) header_read_patch_available header_read_contents_available)

function unserialize_block ::
  "binary_stream \<Rightarrow> int \<Rightarrow> archive_index \<Rightarrow> (bool \<times> binary_stream \<times> archive_index) option" where
  "unserialize_block data now ai =
    (let available = bs_available data
     in if available = 0 then Some (True, data, ai)
        else if available < 8 then Some (False, data, ai)
        else case bs_read_u32 data of
          None \<Rightarrow> None
        | Some (ty, s1) \<Rightarrow>
          (case bs_read_u32 s1 of
             None \<Rightarrow> None
           | Some (len, s2) \<Rightarrow>
             (if available < int (unat len) then Some (False, s2, ai)
              else case header_unserialize header_new s2 of
                None \<Rightarrow> None
              | Some (ok, h, s3) \<Rightarrow>
                (if \<not> ok then Some (False, s3, ai)
                 else unserialize_block s3 now (snd (insert_header h now ai))))))"
  by pat_completeness auto
termination
  by (relation "measure (\<lambda>(s, _, _). nat (bs_available s))")
    (auto dest!: bs_typed_read_available(2) header_unserialize_available)

declare unserialize_block.simps [simp del]

definition with_storage :: "(storage \<Rightarrow> storage) \<Rightarrow> archive_index \<Rightarrow> archive_index" where
  "with_storage g ai = ai\<lparr>ai_storage := g (ai_storage ai)\<rparr>"

definition save_block :: "headers_list \<Rightarrow> archive_index \<Rightarrow> result_type \<times> archive_index" where
  "save_block block ai =
    (let (ok, st) = st_open (no_mode\<lparr>mode_write := True, mode_append := True\<rparr>) (ai_storage ai)
     in if \<not> ok then ((False, 0), ai\<lparr>ai_storage := st\<rparr>)
        else let block_data = serialize_block block bs_new;
                 (res, _, _, st) = write_data_block block_data 0 st
             in (res, ai\<lparr>ai_storage := st_close st\<rparr>))"

definition index_update ::
  "headers_list \<Rightarrow> int \<Rightarrow> archive_index \<Rightarrow> result_type \<times> headers_list \<times> archive_index" where
  "index_update block now ai =
    (let (hs, ai) = insert_block block now ai;
         (res, ai) = save_block hs ai
     in (res, hs, ai))"

fun save_loop :: "headers_map \<Rightarrow> headers_list \<Rightarrow> binary_stream \<Rightarrow> storage \<Rightarrow> bool \<times> storage" where
  "save_loop [] headers block_data st = (True, st)"
| "save_loop ((k, h) # rest) headers block_data st =
    (let headers = headers @ [h] @ (if is_modified h then modifications h else [])
     in if history_block_size \<le> length headers \<or> rest = []
        then (let block_data = serialize_block headers block_data;
                  (res, _, block_data, st) = write_data_block block_data 0 st
              in if \<not> fst res then (False, st)
                 else save_loop rest [] (bs_reset block_data) st)
        else save_loop rest headers block_data st)"

definition save_all :: "archive_index \<Rightarrow> bool \<times> archive_index" where
  "save_all ai =
    (let (ok, st) = st_open (no_mode\<lparr>mode_write := True, mode_truncate := True\<rparr>) (ai_storage ai)
     in if \<not> ok then (False, ai\<lparr>ai_storage := st\<rparr>)
        else if headers_index ai = [] then (True, ai\<lparr>ai_storage := st_close st\<rparr>)
        else let (ok, st) = save_loop (headers_index ai) [] bs_new st
             in (ok, ai\<lparr>ai_storage := st_close st\<rparr>))"

text \<open>Every block read takes bytes of the file, so the loop over the blocks ends.\<close>

definition remaining :: "storage \<Rightarrow> nat" where
  "remaining st =
    (case active_file_stream st of None \<Rightarrow> 0 | Some f \<Rightarrow> length (contents st) - fs_pos f)"

lemma st_read_remaining:
  assumes "st_read n st = (d, ok, st')"
  shows "remaining st' \<le> remaining st" and "ok \<Longrightarrow> remaining st' + n = remaining st"
proof -
  have c: "contents (st\<lparr>active_file_stream := f\<rparr>) = contents st" for f
    by (simp add: contents_def)
  show "remaining st' \<le> remaining st" "ok \<Longrightarrow> remaining st' + n = remaining st"
    using assms
    by (auto simp: st_read_def fs_read_def remaining_def Let_def c fs_good_def
        split: option.splits if_splits)
qed

lemma read_block_here_remaining:
  assumes "read_block_here data st = (True, data', st')"
  shows "remaining st' < remaining st"
proof -
  obtain b1 ok1 st1 where 1: "st_read 4 st = (b1, ok1, st1)" by (cases "st_read 4 st")
  obtain b2 ok2 st2 where 2: "st_read 4 st1 = (b2, ok2, st2)" by (cases "st_read 4 st1")
  obtain b3 ok3 st3 where 3: "st_read (le_nat b2) st2 = (b3, ok3, st3)"
    by (cases "st_read (le_nat b2) st2")
  let ?st3 = "if le_nat b2 \<noteq> 0 then st3 else st2"
  obtain b4 ok4 st4 where 4: "st_read 4 ?st3 = (b4, ok4, st4)" by (cases "st_read 4 ?st3")
  obtain b5 ok5 st5 where 5: "st_read 4 st4 = (b5, ok5, st5)" by (cases "st_read 4 st4")
  note r = st_read_remaining [OF 1] st_read_remaining [OF 2] st_read_remaining [OF 3]
    st_read_remaining [OF 4] st_read_remaining [OF 5]
  from assms have "ok1 \<and> ok2 \<and> ok4 \<and> ok5 \<and> st' = st5"
    using 4 by (cases "le_nat b2 = 0")
      (auto simp: read_block_here_def 1 2 3 4 5 Let_def case_prod_beta split: if_splits)
  then show ?thesis using r by (cases "le_nat b2 = 0") auto
qed

lemma read_data_block_remaining:
  assumes "read_data_block (-1) data st = Some (True, data', st')"
  shows "remaining st' < remaining st"
proof -
  obtain f where f: "active_file_stream st = Some f"
    using assms by (auto simp: read_data_block_def split: option.splits)
  obtain eof f' where p: "fs_peek_eof f st = (eof, f')" by (cases "fs_peek_eof f st")
  have "remaining (st\<lparr>active_file_stream := Some f'\<rparr>) = remaining st"
    using f p by (auto simp: fs_peek_eof_def remaining_def contents_def split: if_splits)
  moreover have "read_block_here data (st\<lparr>active_file_stream := Some f'\<rparr>) = (True, data', st')"
    using assms f p by (auto simp: read_data_block_def Let_def split: if_splits)
  ultimately show ?thesis using read_block_here_remaining by metis
qed

lemma insert_header_storage [simp]: "ai_storage (snd (insert_header h now ai)) = ai_storage ai"
  by (simp add: insert_header_def Let_def split: option.splits)

lemma unserialize_block_storage:
  "unserialize_block data now ai = Some (ok, data', ai') \<Longrightarrow> ai_storage ai' = ai_storage ai"
proof (induction data now ai rule: unserialize_block.induct)
  case (1 data now ai)
  from "1.prems" show ?case
    by (subst (asm) unserialize_block.simps)
      (auto simp: Let_def "1.IH" split: if_splits option.splits prod.splits)
qed

function load_blocks ::
  "binary_stream \<Rightarrow> int \<Rightarrow> archive_index \<Rightarrow> (bool \<times> archive_index) option" where
  "load_blocks data_stream now ai =
    (case read_data_block (-1) data_stream (ai_storage ai) of
       None \<Rightarrow> None
     | Some (found, data, st) \<Rightarrow>
        (if \<not> found then Some (True, ai\<lparr>ai_storage := st\<rparr>)
         else case unserialize_block data now (ai\<lparr>ai_storage := st\<rparr>) of
            None \<Rightarrow> None
          | Some (ok, data, ai') \<Rightarrow>
              (if \<not> ok then Some (False, ai') else load_blocks (bs_reset data) now ai')))"
  by pat_completeness auto
termination
  by (relation "measure (\<lambda>(_, _, ai). remaining (ai_storage ai))")
    (auto dest!: unserialize_block_storage read_data_block_remaining)

declare load_blocks.simps [simp del]

fun insert_all :: "headers_map \<Rightarrow> int \<Rightarrow> archive_index \<Rightarrow> archive_index" where
  "insert_all [] now ai = ai"
| "insert_all (e # es) now ai = insert_all es now (snd (insert_header (snd e) now ai))"

definition drop_outdated_headers :: "int \<Rightarrow> archive_index \<Rightarrow> archive_index" where
  "drop_outdated_headers now ai =
    (if headers_index ai = [] then ai
     else let n = length (headers_index ai) - min drop_headers_count (length (headers_index ai));
              before = take n (headers_index ai);
              from_it = drop n (headers_index ai)
          in if h_version (hfields (snd (hd from_it))) < reactions_header_version
             then ai\<lparr>headers_index := before @ [last from_it],
                     outgoing_count := outgoing_count ai -
                       int (length (filter (\<lambda>e. is_outgoing_header (snd e) now) (butlast from_it)))\<rparr>
             else ai)"

definition load_from_local :: "int \<Rightarrow> archive_index \<Rightarrow> (bool \<times> archive_index) option" where
  "load_from_local now ai =
    (let ai = ai\<lparr>ai_last_error := error_ok\<rparr>;
         (ok, st) = st_open (no_mode\<lparr>mode_read := True\<rparr>) (ai_storage ai);
         ai = ai\<lparr>ai_storage := st\<rparr>
     in if \<not> ok then Some (False, ai\<lparr>ai_last_error := last_error st\<rparr>)
        else let tmp_headers = headers_index ai;
                 ai = ai\<lparr>headers_index := [], outgoing_count := 0, merged_count := 0\<rparr>
          in case load_blocks bs_new now ai of
               None \<Rightarrow> None
             | Some (ok, ai) \<Rightarrow>
                (let ai = insert_all tmp_headers now ai
                 in if \<not> ok
                    then Some (False, with_storage st_close (ai\<lparr>ai_last_error := parse_headers\<rparr>))
                    else if last_error (ai_storage ai) \<noteq> end_of_file
                    then Some (False, with_storage st_close
                           (ai\<lparr>ai_last_error := last_error (ai_storage ai)\<rparr>))
                    else let ai = ai\<lparr>loaded_from_local := True\<rparr>;
                             ai = drop_outdated_headers now ai;
                             ai = notify_core_outgoing_msg_count ai
                         in Some (True, with_storage st_close ai)))"

subsection \<open>Deleting, optimizing, invalidating\<close>

definition drop_header :: "int \<Rightarrow> archive_index \<Rightarrow> archive_index" where
  "drop_header msgid ai = ai\<lparr>headers_index := om_erase msgid (headers_index ai)\<rparr>"

definition delete_up_to :: "int \<Rightarrow> archive_index \<Rightarrow> archive_index" where
  "delete_up_to to_id ai =
    (let (before, from_iter) = om_lower_bound to_id (headers_index ai)
     in case from_iter of
          [] \<Rightarrow> snd (save_all (ai\<lparr>headers_index := []\<rparr>))
        | (k, header) # after \<Rightarrow>
           (if get_id header = to_id
            then (let after = (case after of [] \<Rightarrow> []
                                | (k2, h2) # rest \<Rightarrow>
                                   (k2, if get_prev_msgid h2 = to_id then set_prev_msgid (-1) h2 else h2) # rest)
                  in snd (save_all (ai\<lparr>headers_index := after\<rparr>)))
            else if before \<noteq> []
            then snd (save_all (ai\<lparr>headers_index := from_iter\<rparr>))
            else ai))"

definition get_last_msgid :: "archive_index \<Rightarrow> int" where
  "get_last_msgid ai = (if headers_index ai = [] then -1 else fst (last (headers_index ai)))"

definition get_first_msgid :: "archive_index \<Rightarrow> int" where
  "get_first_msgid ai = (if headers_index ai = [] then -1 else fst (hd (headers_index ai)))"

text \<open>
  The quotient \<open>merged / size >= 0.1\<close> of the code is computed in \<open>double\<close>; on counts below \<open>2 ^ 31\<close> it
  agrees with the comparison of the exact quotients, which is written without the division.
\<close>

definition need_optimize :: "archive_index \<Rightarrow> bool" where
  "need_optimize ai =
    (index_size_need_optimize < length (headers_index ai) \<or>
     (loaded_from_local ai \<and> headers_index ai \<noteq> [] \<and>
      int (length (headers_index ai)) \<le> 10 * merged_count ai))"

definition optimize :: "archive_index \<Rightarrow> archive_index" where
  "optimize ai =
    (if \<not> need_optimize ai then ai
     else let to_remove = int (length (headers_index ai)) - int max_index_size;
              idx = (if 0 < to_remove
                     then (case drop (nat to_remove) (headers_index ai) of
                             [] \<Rightarrow> []
                           | (k, h) # rest \<Rightarrow> (k, set_prev_msgid (-1) h) # rest)
                     else headers_index ai)
          in snd (save_all (ai\<lparr>headers_index := idx, merged_count := 0\<rparr>)))"

definition filter_deleted :: "int list \<Rightarrow> archive_index \<Rightarrow> int list" where
  "filter_deleted ids ai =
    filter (\<lambda>i. \<not> (case map_of (headers_index ai) i of
       Some h \<Rightarrow> is_patch h \<or> is_deleted h \<or> is_modified h
     | None \<Rightarrow> True)) ids"

definition get_messages_for_update :: "archive_index \<Rightarrow> int list" where
  "get_messages_for_update ai = map fst (filter (\<lambda>e. is_updated_message (snd e)) (headers_index ai))"

definition invalidate_one :: "int \<Rightarrow> bool \<Rightarrow> archive_index \<Rightarrow> archive_index" where
  "invalidate_one msgid mark ai =
    (case map_of (headers_index ai) msgid of
       None \<Rightarrow> ai
     | Some header \<Rightarrow>
        (let header = invalidate_data_offset header;
             header = (if mark \<and> \<not> is_patch header then set_updated True header else header)
         in ai\<lparr>headers_index := om_put msgid header (headers_index ai)\<rparr>))"

text \<open>
  The two loops of the range variant walk away from the given position; the first \<open>left\<close>
  headers that are not patches are invalidated.
\<close>

fun invalidate_loop :: "int \<Rightarrow> headers_map \<Rightarrow> headers_map" where
  "invalidate_loop left [] = []"
| "invalidate_loop left ((k, h) # es) =
    (if is_patch h then (k, h) # invalidate_loop left es
     else if left \<le> 0 then (k, h) # es
     else (k, invalidate_data_offset h) # invalidate_loop (left - 1) es)"

definition invalidate_range :: "int \<Rightarrow> int \<Rightarrow> int \<Rightarrow> archive_index \<Rightarrow> archive_index" where
  "invalidate_range from_id before_count after_count ai =
    (let (before, from_iter) = om_lower_bound from_id (headers_index ai)
     in if from_iter = [] then ai
        else let (before, from_iter) =
               (if 0 < before_count
                then (if after_count \<le> 0
                      then (let b = rev (invalidate_loop before_count (rev (before @ [hd from_iter])))
                            in (b, tl from_iter))
                      else (rev (invalidate_loop before_count (rev before)), from_iter))
                else (before, from_iter));
                 from_iter = (if 0 < after_count then invalidate_loop after_count from_iter else from_iter)
             in ai\<lparr>headers_index := before @ from_iter\<rparr>)"

definition index_free :: "archive_index \<Rightarrow> archive_index" where
  "index_free ai = ai\<lparr>headers_index := [], loaded_from_local := False, merged_count := 0\<rparr>"

subsection \<open>Holes in the history\<close>

text \<open>
  A hole is a header whose previous id is not the id of the header before it, patches and deleted
  messages skipped. The loops walk from the newest header to the oldest, so they take the reversed
  entries.
\<close>

record archive_hole =
  hole_from :: int
  hole_to :: int
  hole_depth :: int

definition hole_new :: archive_hole where
  "hole_new = \<lparr>hole_from = -1, hole_to = -1, hole_depth = 0\<rparr>"

datatype archive_hole_error =
  hole_ok | hole_last_reached | hole_depth_reached | hole_index_not_found | hole_no_hole

lemma length_skip: "length (skip_patches_and_deleted_forward es) \<le> length es"
  by (simp add: skip_patches_and_deleted_forward_def length_dropWhile_le)

function hole_loop ::
  "headers_map \<Rightarrow> int \<Rightarrow> int \<Rightarrow> archive_hole \<Rightarrow> archive_hole_error \<times> archive_hole" where
  "hole_loop [] current_depth depth hole = (hole_no_hole, hole)"
| "hole_loop ((k, current) # es) current_depth depth hole =
    (let current_depth = current_depth + 1;
         iter_next = skip_patches_and_deleted_forward es
     in case iter_next of
          [] \<Rightarrow>
           (if get_prev_msgid current \<noteq> -1
            then (hole_ok, hole\<lparr>hole_from := get_id current\<rparr>)
            else (hole_last_reached, hole))
        | (k2, prev) # rest \<Rightarrow>
           (if get_prev_msgid current \<noteq> get_id prev
            then (hole_ok, hole\<lparr>hole_from := get_id current, hole_to := get_id prev,
                              hole_depth := current_depth\<rparr>)
            else if depth \<noteq> -1 \<and> depth \<le> current_depth then (hole_depth_reached, hole)
            else hole_loop iter_next current_depth depth hole))"
  by pat_completeness auto
termination
  by (relation "measure (\<lambda>(es, _). length es)")
    (auto simp: le_imp_less_Suc length_skip)

declare hole_loop.simps [simp del]

definition get_next_hole ::
  "int \<Rightarrow> archive_hole \<Rightarrow> int \<Rightarrow> archive_index \<Rightarrow> archive_hole_error \<times> archive_hole" where
  "get_next_hole from_id hole depth ai =
    (let idx = headers_index ai
     in if idx = [] then (hole_ok, hole)
        else if from_id \<noteq> -1 \<and> fst (last idx) < from_id
        then (hole_ok, hole\<lparr>hole_from := -1, hole_to := fst (last idx)\<rparr>)
        else if from_id \<noteq> -1 \<and> map_of idx from_id = None
        then (hole_index_not_found, hole)
        else let iter_cursor = (if from_id \<noteq> -1 then rev (takeWhile (\<lambda>e. fst e \<le> from_id) idx) else rev idx);
                 iter_cursor = skip_patches_and_deleted_forward iter_cursor
             in if iter_cursor = [] then (hole_ok, hole)
                else hole_loop iter_cursor 0 depth hole)"

function range_loop :: "headers_map \<Rightarrow> int \<Rightarrow> int \<Rightarrow> int \<Rightarrow> bool \<Rightarrow> int \<Rightarrow> int \<Rightarrow> bool" where
  "range_loop [] msgid count_before count_after msg_found after before = False"
| "range_loop ((k, current) # es) msgid count_before count_after msg_found after before =
    (if get_id current = msgid \<and> after < count_after then True
     else let msg_found = (msg_found \<or> get_id current = msgid);
              before = (if msg_found then before + 1 else before)
          in if msg_found \<and> count_before \<le> before then False
             else let after = (if \<not> msg_found \<and> after \<noteq> count_after then after + 1 else after);
                      iter_next = skip_patches_and_deleted_forward es
                  in case iter_next of
                       [] \<Rightarrow> get_prev_msgid current \<noteq> -1 \<and> (\<not> msg_found \<or> before < count_before)
                     | (k2, prev) # rest \<Rightarrow>
                        (if get_prev_msgid current \<noteq> get_id prev \<and> msg_found \<and> before < count_before
                         then True
                         else range_loop iter_next msgid count_before count_after msg_found
                           (if get_prev_msgid current \<noteq> get_id prev \<and> \<not> msg_found then 0 else after)
                           before))"
  by pat_completeness auto
termination
  by (relation "measure (\<lambda>(es, _). length es)")
    (auto simp: le_imp_less_Suc length_skip)

declare range_loop.simps [simp del]

definition has_hole_in_range :: "int \<Rightarrow> int \<Rightarrow> int \<Rightarrow> archive_index \<Rightarrow> bool" where
  "has_hole_in_range msgid count_before count_after ai =
    (let iter_cursor = skip_patches_and_deleted_forward (rev (headers_index ai))
     in if iter_cursor = [] then True
        else range_loop iter_cursor msgid count_before count_after False count_after 0)"

definition validate_hole_request :: "archive_hole \<Rightarrow> int \<Rightarrow> archive_index \<Rightarrow> int" where
  "validate_hole_request hole count ai =
    (let ret_from = hole_from hole
     in if hole_from hole \<le> 0 \<or> hole_to hole \<le> 0 \<or> \<bar>count\<bar> \<le> 1 then ret_from
        else case map_of (headers_index ai) (hole_from hole) of
          None \<Rightarrow> ret_from
        | Some current \<Rightarrow>
            (if is_patch current then ret_from
             else case skip_patches_and_deleted_forward
                    (rev (takeWhile (\<lambda>e. fst e < hole_from hole) (headers_index ai))) of
               [] \<Rightarrow> ret_from
             | (k, prev) # rest \<Rightarrow> if k \<noteq> get_prev_msgid current then k else ret_from))"

end
