(* ===== verification/Storage_Log.thy ===== *)
theory Storage_Log
  imports Archive_Storage
begin

text \<open>
  What the block log promises. \<open>frame\<close> is the layout of a block, \<open>dec_frame\<close> a reference decoder
  on plain byte lists; together they are a log codec. \<open>read_data_block\<close> refines the decoder and
  \<open>write_data_block\<close> appends a frame, or on a full disk a proper prefix of it, which the reader
  never takes for a block.
\<close>

definition size_bytes :: "byte list \<Rightarrow> byte list" where
  "size_bytes d = word_bytes 4 (word_of_nat (length d) :: u32)"

definition frame :: "byte list \<Rightarrow> byte list" where
  "frame d = size_bytes d @ size_bytes d @ d @ size_bytes d @ size_bytes d"

definition block_ok :: "byte list \<Rightarrow> bool" where
  "block_ok d \<longleftrightarrow> d \<noteq> [] \<and> length d \<le> max_data_block_size"

definition dec_frame :: "byte list \<Rightarrow> (byte list \<times> byte list) option" where
  "dec_frame bs =
    (if length bs < 8 then None
     else let n = u32_at bs 0
       in if n \<noteq> u32_at bs 4 \<or> max_data_block_size < n \<or> length bs < 16 + n \<or>
             n \<noteq> u32_at bs (8 + n) \<or> n \<noteq> u32_at bs (12 + n)
          then None
          else Some (take n (drop 8 bs), drop (16 + n) bs))"

lemma length_size_bytes [simp]: "length (size_bytes d) = 4"
  by (simp add: size_bytes_def)

lemma length_frame [simp]: "length (frame d) = 16 + length d"
  by (simp add: frame_def)

lemma le_nat_size_bytes [simp]: "length d < 2 ^ 32 \<Longrightarrow> le_nat (size_bytes d) = length d"
  by (simp add: size_bytes_def word_bytes_def)

lemma block_ok_less: "block_ok d \<Longrightarrow> length d < 2 ^ 32"
  by (simp add: block_ok_def max_data_block_size_def)

lemma dec_frame_frame:
  assumes "length d \<le> max_data_block_size"
  shows "dec_frame (frame d @ rest) = Some (d, rest)"
proof -
  have "length d < 2 ^ 32" using assms by (simp add: max_data_block_size_def)
  then show ?thesis using assms by (simp add: dec_frame_def u32_at_def frame_def)
qed

interpretation block_log: log_codec frame dec_frame block_ok
proof unfold_locales
  show "frame x \<noteq> []" for x
    by (metis length_frame add_is_0 list.size(3) zero_neq_numeral)
qed (simp add: dec_frame_frame block_ok_def)

lemma dec_frame_Some:
  assumes "dec_frame bs = Some (d, rest)"
  shows "bs = frame d @ rest \<and> length d \<le> max_data_block_size"
proof -
  define n where "n = u32_at bs 0"
  from assms have n: "n = u32_at bs 4" "n \<le> max_data_block_size" "16 + n \<le> length bs"
    "n = u32_at bs (8 + n)" "n = u32_at bs (12 + n)" "d = take n (drop 8 bs)" "rest = drop (16 + n) bs"
    by (auto simp: dec_frame_def Let_def n_def split: if_splits)
  then have len: "length d = n" by simp
  have lt: "n < 2 ^ 32" using n(2) by (simp add: max_data_block_size_def)
  have field: "take 4 (drop i bs) = size_bytes d" if "u32_at bs i = n" "i + 4 \<le> length bs" for i
  proof -
    have "le_bytes (length (take 4 (drop i bs))) (le_nat (take 4 (drop i bs))) = take 4 (drop i bs)"
      by (rule le_bytes_le_nat)
    then show ?thesis using that len lt
      by (simp add: u32_at_def size_bytes_def word_bytes_def)
  qed
  have chop: "drop i bs = take k (drop i bs) @ drop (i + k) bs" for i k
    by (metis add.commute append_take_drop_id drop_drop)
  have "take 4 bs = size_bytes d" using field [of 0] n(3) n_def by simp
  then have "bs = size_bytes d @ drop 4 bs" by (metis append_take_drop_id)
  also have "drop 4 bs = size_bytes d @ drop 8 bs"
    using chop [of 4 4] field [of 4] n(1,3) by simp
  also have "drop 8 bs = d @ drop (8 + n) bs"
    using chop [of 8 n] n(6) by simp
  also have "drop (8 + n) bs = size_bytes d @ drop (12 + n) bs"
    using chop [of "8 + n" 4] field [of "8 + n"] n(3,4) by (simp add: add.commute)
  also have "drop (12 + n) bs = size_bytes d @ rest"
    using chop [of "12 + n" 4] field [of "12 + n"] n(3,5,7) by (simp add: add.commute)
  finally have "bs = frame d @ rest" by (simp add: frame_def)
  then show ?thesis using n(2) len by simp
qed

subsection \<open>Reading refines the decoder\<close>

definition reading :: "storage \<Rightarrow> byte list \<Rightarrow> bool" where
  "reading st rest \<longleftrightarrow> (\<exists>f. active_file_stream st = Some f \<and> fs_good f \<and> fs_in f \<and>
     rest = drop (fs_pos f) (contents st))"

text \<open>What an operation that only reads leaves alone.\<close>

definition same_file :: "storage \<Rightarrow> storage \<Rightarrow> bool" where
  "same_file st st' \<longleftrightarrow> disk_file st' = disk_file st \<and> last_error st' = last_error st \<and>
     room st' = room st \<and> folder_ok st' = folder_ok st \<and> open_ok st' = open_ok st \<and> active_file_stream st' \<noteq> None"

lemma contents_active [simp]: "contents (st\<lparr>active_file_stream := f\<rparr>) = contents st"
  by (simp add: contents_def)

lemma contents_last_error [simp]: "contents (st\<lparr>last_error := e\<rparr>) = contents st"
  by (simp add: contents_def)

lemma same_file_trans: "same_file a b \<Longrightarrow> same_file b c \<Longrightarrow> same_file a c"
  by (simp add: same_file_def)

text \<open>The state after a read, by name, so that the results of a chain of reads are equations.\<close>

definition st_adv :: "nat \<Rightarrow> storage \<Rightarrow> storage" where
  "st_adv n st = snd (snd (st_read n st))"

lemma st_read_reading:
  assumes "reading st rest"
  shows "st_read n st = (take n rest, n \<le> length rest, st_adv n st)"
  using assms by (auto simp: st_adv_def reading_def st_read_def fs_read_def Let_def fs_good_def)

lemma reading_adv:
  assumes "reading st rest" and "n \<le> length rest"
  shows "reading (st_adv n st) (drop n rest)"
  using assms
  by (auto simp: st_adv_def reading_def st_read_def fs_read_def Let_def fs_good_def min_def add.commute)

lemma reading_adv_0: "reading st rest \<Longrightarrow> st_adv 0 st = st"
  by (cases "active_file_stream st")
    (auto simp: st_adv_def reading_def st_read_def fs_read_def Let_def fs_good_def)

lemma same_file_adv: "same_file st0 st \<Longrightarrow> same_file st0 (st_adv n st)"
  by (auto simp: same_file_def st_adv_def st_read_def fs_read_def Let_def split: option.splits)

lemma bs_alloc_fill:
  assumes "bs_wf s" and "length d = n"
  shows "bs_wf (bs_fill (fst (bs_alloc_buffer n s)) d (snd (bs_alloc_buffer n s)))"
    and "bs_pending (bs_fill (fst (bs_alloc_buffer n s)) d (snd (bs_alloc_buffer n s))) = bs_pending s @ d"
proof -
  let ?s = "bs_fill (fst (bs_alloc_buffer n s)) d (snd (bs_alloc_buffer n s))"
  define b where "b = (if length (buffer s) < input_cursor s + n
      then vresize ((input_cursor s + n) * 2) (buffer s) else buffer s)"
  have s: "buffer ?s = overwrite b (input_cursor s) d" "input_cursor ?s = input_cursor s + n"
    "output_cursor ?s = output_cursor s"
    by (simp_all add: bs_fill_def bs_alloc_buffer_def Let_def b_def)
  have b: "input_cursor s + n \<le> length b" "take (input_cursor s) b = take (input_cursor s) (buffer s)"
    using assms by (auto simp: b_def bs_wf_def take_vresize)
  show "bs_wf ?s" using s b assms by (auto simp: bs_wf_def)
  show "bs_pending ?s = bs_pending s @ d"
    using s b assms take_overwrite [of "input_cursor s" b d]
    by (simp add: bs_pending_def bs_wf_def)
qed

lemma read_data_block_eof:
  assumes "reading st []"
  shows "\<exists>st'. read_data_block (-1) data st = Some (False, data, st') \<and>
    last_error st' = end_of_file \<and> disk_file st' = disk_file st \<and> active_file_stream st' \<noteq> None"
  using assms by (auto simp: reading_def read_data_block_def fs_peek_eof_def Let_def)

lemma peek_more:
  assumes "reading st rest" and "rest \<noteq> []" and "active_file_stream st = Some f"
  shows "fs_peek_eof f st = (False, f)"
  using assms by (auto simp: reading_def fs_peek_eof_def)

lemma same_file_refl: "reading st rest \<Longrightarrow> same_file st st"
  by (auto simp: same_file_def reading_def)

lemma read_data_block_more:
  assumes "reading st rest" and "rest \<noteq> []"
  shows "read_data_block (-1) data st = Some (read_block_here data st)"
proof -
  obtain f where f: "active_file_stream st = Some f" using assms(1) by (auto simp: reading_def)
  then have same: "st\<lparr>active_file_stream := Some f\<rparr> = st" by (cases st) simp
  show ?thesis
    by (simp add: read_data_block_def f peek_more [OF assms f] same)
qed

text \<open>
  The reads of one block as equations: \<open>s1\<close> to \<open>s5\<close> are the states between them. The data is read
  only when its size is not zero, but reading no bytes changes nothing.
\<close>

lemma block_reads:
  fixes n :: nat
  assumes "reading st rest"
  defines "s1 \<equiv> st_adv 4 st" and "s2 \<equiv> st_adv 4 (st_adv 4 st)"
  defines "s3 \<equiv> st_adv n s2" and "s4 \<equiv> st_adv 4 (st_adv n s2)"
  defines "s5 \<equiv> st_adv 4 s4"
  shows "st_read 4 st = (take 4 rest, 4 \<le> length rest, s1)"
    and "4 \<le> length rest \<Longrightarrow> st_read 4 s1 = (take 4 (drop 4 rest), 8 \<le> length rest, s2)"
    and "8 \<le> length rest \<Longrightarrow> st_read n s2 = (take n (drop 8 rest), 8 + n \<le> length rest, s3)"
    and "8 \<le> length rest \<Longrightarrow> n = 0 \<Longrightarrow> s3 = s2"
    and "8 + n \<le> length rest \<Longrightarrow> st_read 4 s3 = (take 4 (drop (8 + n) rest), 12 + n \<le> length rest, s4)"
    and "12 + n \<le> length rest \<Longrightarrow> st_read 4 s4 = (take 4 (drop (12 + n) rest), 16 + n \<le> length rest, s5)"
    and "16 + n \<le> length rest \<Longrightarrow> reading s5 (drop (16 + n) rest)"
    and "same_file st s1" and "same_file st s2" and "same_file st s3" and "same_file st s4"
    and "same_file st s5"
proof -
  have f: "same_file st st" using assms(1) by (rule same_file_refl)
  show "same_file st s1" "same_file st s2" "same_file st s3" "same_file st s4" "same_file st s5"
    unfolding s1_def s2_def s3_def s4_def s5_def by (intro same_file_adv f)+
  have r1: "4 \<le> length rest \<Longrightarrow> reading s1 (drop 4 rest)"
    unfolding s1_def by (rule reading_adv [OF assms(1)])
  have r2: "8 \<le> length rest \<Longrightarrow> reading s2 (drop 8 rest)"
    using reading_adv [OF r1, of 4] by (simp add: s1_def s2_def)
  have r3: "8 + n \<le> length rest \<Longrightarrow> reading s3 (drop (8 + n) rest)"
    using reading_adv [OF r2, of n] by (simp add: s3_def add.commute)
  have r4: "12 + n \<le> length rest \<Longrightarrow> reading s4 (drop (12 + n) rest)"
    using reading_adv [OF r3, of 4] by (simp add: s3_def s4_def add.commute)
  show "16 + n \<le> length rest \<Longrightarrow> reading s5 (drop (16 + n) rest)"
    using reading_adv [OF r4, of 4] by (simp add: s5_def add.commute)
  show "st_read 4 st = (take 4 rest, 4 \<le> length rest, s1)"
    unfolding s1_def by (rule st_read_reading [OF assms(1)])
  show "4 \<le> length rest \<Longrightarrow> st_read 4 s1 = (take 4 (drop 4 rest), 8 \<le> length rest, s2)"
    using st_read_reading [OF r1, of 4] by (auto simp: s1_def s2_def)
  show "8 \<le> length rest \<Longrightarrow> st_read n s2 = (take n (drop 8 rest), 8 + n \<le> length rest, s3)"
    using st_read_reading [OF r2, of n] by (auto simp: s3_def)
  show "8 \<le> length rest \<Longrightarrow> n = 0 \<Longrightarrow> s3 = s2"
    using reading_adv_0 [OF r2] by (simp add: s3_def)
  show "8 + n \<le> length rest \<Longrightarrow> st_read 4 s3 = (take 4 (drop (8 + n) rest), 12 + n \<le> length rest, s4)"
    using st_read_reading [OF r3, of 4] by (auto simp: s3_def s4_def)
  show "12 + n \<le> length rest \<Longrightarrow> st_read 4 s4 = (take 4 (drop (12 + n) rest), 16 + n \<le> length rest, s5)"
    using st_read_reading [OF r4, of 4] by (auto simp: s5_def)
qed

lemma read_data_block_no_frame:
  assumes "reading st rest" and "rest \<noteq> []" and "dec_frame rest = None"
  shows "\<exists>data' st'. read_data_block (-1) data st = Some (False, data', st') \<and> same_file st st'"
proof -
  define n where "n = u32_at rest 0"
  note r = block_reads [OF assms(1)]
  have len: "le_nat (take 4 rest) = n" by (simp add: n_def u32_at_def)
  consider (short) "length rest < 8" | (sizes) "8 \<le> length rest" "n \<noteq> u32_at rest 4 \<or> max_data_block_size < n"
    | (tail) "8 \<le> length rest" "\<not> (n \<noteq> u32_at rest 4 \<or> max_data_block_size < n)"
    by (meson not_less)
  then show ?thesis
  proof cases
    case tail
    with assms(3) have "length rest < 16 + n \<or> n \<noteq> u32_at rest (8 + n) \<or> n \<noteq> u32_at rest (12 + n)"
      by (auto simp: dec_frame_def Let_def n_def split: if_splits)
    then have bad: "length rest < 16 + n \<or> n \<noteq> le_nat (take 4 (drop (8 + n) rest)) \<or>
        n \<noteq> le_nat (take 4 (drop (12 + n) rest))"
      by (simp only: u32_at_def)
    have h: "le_nat (take 4 (drop 4 rest)) = n" "n \<le> max_data_block_size" "4 \<le> length rest" "8 \<le> length rest"
      using tail by (auto simp: u32_at_def)
    show ?thesis
      using bad
      by (cases "n = 0") (auto simp: read_data_block_more [OF assms(1,2)] read_block_here_def r
          case_prod_beta Let_def h len)
  qed (use len in \<open>auto simp: read_data_block_more [OF assms(1,2)] read_block_here_def r u32_at_def\<close>)
qed

lemma read_data_block_frame:
  assumes "reading st (frame d @ rest)" and "length d \<le> max_data_block_size" and "bs_wf data"
  shows "\<exists>data' st'. read_data_block (-1) data st = Some (True, data', st') \<and>
    bs_wf data' \<and> bs_pending data' = bs_pending data @ d \<and> reading st' rest \<and> same_file st st'"
proof -
  have sz: "le_nat (size_bytes d) = length d"
    using assms(2) by (intro le_nat_size_bytes) (simp add: max_data_block_size_def)
  have ne: "frame d @ rest \<noteq> []"
    using block_log.enc_nonempty length_frame [of d]
    by (metis Nil_is_append_conv add_is_0 list.size(3) zero_neq_numeral)
  note r = block_reads [OF assms(1)]
  define data' where "data' = (if d = [] then data
      else bs_fill (fst (bs_alloc_buffer (length d) data)) d (snd (bs_alloc_buffer (length d) data)))"
  have parts: "take 4 (frame d @ rest) = size_bytes d" "take 4 (drop 4 (frame d @ rest)) = size_bytes d"
    "take (length d) (drop 8 (frame d @ rest)) = d"
    "take 4 (drop (8 + length d) (frame d @ rest)) = size_bytes d"
    "take 4 (drop (12 + length d) (frame d @ rest)) = size_bytes d"
    by (simp_all add: frame_def)
  have last: "reading (st_adv 4 (st_adv 4 (st_adv (length d) (st_adv 4 (st_adv 4 st))))) rest"
    using r(7) [of "length d"] by (simp add: frame_def)
  have "bs_wf data'" "bs_pending data' = bs_pending data @ d"
    using bs_alloc_fill [OF assms(3) refl, of d] assms(3) by (auto simp: data'_def)
  moreover have "\<exists>st'. read_data_block (-1) data st = Some (True, data', st') \<and>
      reading st' rest \<and> same_file st st'"
    using parts sz assms(2) last
    by (auto simp: read_data_block_more [OF assms(1) ne] read_block_here_def r case_prod_beta Let_def data'_def)
  ultimately show ?thesis by blast
qed


subsection \<open>Writing appends a frame, or a prefix of it\<close>

definition appending :: "storage \<Rightarrow> bool" where
  "appending st \<longleftrightarrow> (\<exists>f. active_file_stream st = Some f \<and> fs_good f \<and> fs_out f \<and>
     fs_pos f = length (contents st))"

definition st_wr :: "byte list \<Rightarrow> storage \<Rightarrow> storage" where
  "st_wr d st = snd (st_write d st)"

lemma overwrite_at_end:
  "overwrite (vresize (max (length c) (length c + length d)) c) (length c) d = c @ d"
  by (simp add: overwrite_def vresize_def)

lemma st_write_appending:
  assumes "appending st"
  shows "st_write d st = (length d \<le> room st, st_wr d st)"
    and "contents (st_wr d st) = contents st @ take (room st) d"
    and "room (st_wr d st) = room st - length d"
    and "length d \<le> room st \<Longrightarrow> appending (st_wr d st)"
    and "os_errno (st_wr d st) = os_errno st" and "last_error (st_wr d st) = last_error st"
    and "active_file_stream (st_wr d st) \<noteq> None" and "disk_file (st_wr d st) \<noteq> None"
proof -
  obtain f where f: "active_file_stream st = Some f" "fs_good f" "fs_out f"
    "fs_pos f = length (contents st)" using assms by (auto simp: appending_def)
  let ?n = "min (length d) (room st)"
  have ow: "overwrite (vresize (max (length (contents st)) (length (contents st) + ?n)) (contents st))
      (length (contents st)) (take ?n d) = contents st @ take ?n d"
    using overwrite_at_end [of "contents st" "take ?n d"] by simp
  have t: "take ?n d = take (room st) d" by (simp add: min_def)
  have w: "st_write d st = (\<not> ?n < length d,
      st\<lparr>disk_file := Some (contents st @ take (room st) d), room := room st - ?n,
         active_file_stream := Some (f\<lparr>fs_pos := length (contents st) + ?n, fs_fail := ?n < length d\<rparr>)\<rparr>)"
    using f ow t by (simp add: st_write_def fs_write_def Let_def)
  show "st_write d st = (length d \<le> room st, st_wr d st)"
    by (auto simp: w st_wr_def)
  show "contents (st_wr d st) = contents st @ take (room st) d"
    by (simp add: st_wr_def w contents_def)
  show "room (st_wr d st) = room st - length d" "os_errno (st_wr d st) = os_errno st"
    "last_error (st_wr d st) = last_error st" "active_file_stream (st_wr d st) \<noteq> None"
    "disk_file (st_wr d st) \<noteq> None"
    by (simp_all add: st_wr_def w)
  show "appending (st_wr d st)" if "length d \<le> room st"
    using that f by (simp add: appending_def st_wr_def w contents_def fs_good_def)
qed

lemma appending_tellp: "appending st \<Longrightarrow> \<exists>f. active_file_stream st = Some f \<and>
    fs_tellp f = int (length (contents st))"
  by (auto simp: appending_def fs_tellp_def fs_good_def)

lemma bs_read_all:
  assumes "bs_wf data" and "bs_pending data \<noteq> []"
  shows "bs_read (length (bs_pending data)) data =
    (Some (bs_pending data), data\<lparr>output_cursor := output_cursor data + length (bs_pending data)\<rparr>)"
  using bs_read_advance(1) [OF assms(1) order.refl] assms
  by (simp add: bs_read_def bs_available_pending)

lemma write_data_block_appending:
  assumes "appending st" and "bs_wf data" and "bs_pending data \<noteq> []" and "length (bs_pending data) < 2 ^ 32"
  defines "d \<equiv> bs_pending data"
  shows "16 + length d \<le> room st \<Longrightarrow> \<exists>data' st'. write_data_block data off st =
      ((True, 0), int (length (contents st)), data', st') \<and> contents st' = contents st @ frame d \<and>
      room st' = room st - (16 + length d) \<and> appending st' \<and> last_error st' = last_error st \<and>
      os_errno st' = os_errno st \<and> disk_file st' \<noteq> None"
    and "room st < 16 + length d \<Longrightarrow> \<exists>data' st'. write_data_block data off st =
      ((False, os_errno st), int (length (contents st)), data', st') \<and>
      contents st' = contents st @ take (room st) (frame d) \<and> last_error st' = last_error st"
proof -
  obtain f where f: "active_file_stream st = Some f" "fs_tellp f = int (length (contents st))"
    using appending_tellp [OF assms(1)] by auto
  have sz: "word_of_int (bs_available data) = (word_of_nat (length d) :: u32)"
    using assms(2) by (simp add: bs_available_pending d_def)
  have u: "unat (word_of_nat (length d) :: u32) = length d"
    by (rule unat_of_length) (use assms(4) in \<open>simp add: d_def\<close>)
  then have nz: "word_of_nat (length d) \<noteq> (0 :: u32)"
    using assms(3) by (metis d_def length_0_conv unsigned_0)
  have rd: "bs_read (length d) data =
      (Some d, data\<lparr>output_cursor := output_cursor data + length d\<rparr>)"
    using bs_read_all [OF assms(2,3)] by (simp add: d_def)
  define s where "s = size_bytes d"
  have s4: "length s = 4" by (simp add: s_def)
  define t1 where "t1 = st_wr s st"
  define t2 where "t2 = st_wr s t1"
  define t3 where "t3 = st_wr d t2"
  define t4 where "t4 = st_wr s t3"
  define t5 where "t5 = st_wr s t4"
  note w1 = st_write_appending [OF assms(1), of s, folded t1_def]
  have a1: "4 \<le> room st \<Longrightarrow> appending t1" using w1 s4 by simp
  note w2 = st_write_appending [OF a1, of s, folded t2_def]
  have a2: "8 \<le> room st \<Longrightarrow> appending t2" using w1 w2 s4 by simp
  note w3 = st_write_appending [OF a2, of d, folded t3_def]
  have a3: "8 + length d \<le> room st \<Longrightarrow> appending t3" using w1 w2 w3 s4 by simp
  note w4 = st_write_appending [OF a3, of s, folded t4_def]
  have a4: "12 + length d \<le> room st \<Longrightarrow> appending t4" using w1 w2 w3 w4 s4 by simp
  note w5 = st_write_appending [OF a4, of s, folded t5_def]
  have fr: "frame d = s @ s @ d @ s @ s" by (simp add: frame_def s_def)
  have ok: "st_write s st = (4 \<le> room st, t1)"
    "4 \<le> room st \<Longrightarrow> st_write s t1 = (8 \<le> room st, t2)"
    "8 \<le> room st \<Longrightarrow> st_write d t2 = (8 + length d \<le> room st, t3)"
    "8 + length d \<le> room st \<Longrightarrow> st_write s t3 = (12 + length d \<le> room st, t4)"
    "12 + length d \<le> room st \<Longrightarrow> st_write s t4 = (16 + length d \<le> room st, t5)"
    using w1 w2 w3 w4 w5 s4 by auto
  have cs: "contents t1 = contents st @ take (room st) s"
    "4 \<le> room st \<Longrightarrow> contents t2 = contents st @ take (room st) (s @ s)"
    "8 \<le> room st \<Longrightarrow> contents t3 = contents st @ take (room st) (s @ s @ d)"
    "8 + length d \<le> room st \<Longrightarrow> contents t4 = contents st @ take (room st) (s @ s @ d @ s)"
    "12 + length d \<le> room st \<Longrightarrow> contents t5 = contents st @ take (room st) (s @ s @ d @ s @ s)"
    using w1 w2 w3 w4 w5 s4 by simp_all
  have le: "last_error t1 = last_error st" "4 \<le> room st \<Longrightarrow> last_error t2 = last_error st"
    "8 \<le> room st \<Longrightarrow> last_error t3 = last_error st"
    "8 + length d \<le> room st \<Longrightarrow> last_error t4 = last_error st"
    "12 + length d \<le> room st \<Longrightarrow> last_error t5 = last_error st"
    using w1 w2 w3 w4 w5 s4 by simp_all
  have body: "write_data_block data off st = ((16 + length d \<le> room st,
        if 16 + length d \<le> room st then 0 else os_errno st), int (length (contents st)),
      if 8 \<le> room st then data\<lparr>output_cursor := output_cursor data + length d\<rparr> else data,
      if room st < 4 then t1 else if room st < 8 then t2 else if room st < 8 + length d then t3
      else if room st < 12 + length d then t4 else t5)"
    using ok by (auto simp: write_data_block_def f sz u nz rd Let_def simp flip: size_bytes_def s_def)
  show "\<exists>data' st'. write_data_block data off st =
      ((True, 0), int (length (contents st)), data', st') \<and> contents st' = contents st @ frame d \<and>
      room st' = room st - (16 + length d) \<and> appending st' \<and> last_error st' = last_error st \<and>
      os_errno st' = os_errno st \<and> disk_file st' \<noteq> None"
    if "16 + length d \<le> room st"
    using that w1 w2 w3 w4 w5 s4 by (simp add: body fr)
  show "\<exists>data' st'. write_data_block data off st =
      ((False, os_errno st), int (length (contents st)), data', st') \<and>
      contents st' = contents st @ take (room st) (frame d) \<and> last_error st' = last_error st"
    if "room st < 16 + length d"
    using that cs le s4 by (auto simp: body fr)
qed


subsection \<open>A torn block is no block\<close>

lemma dec_frame_torn:
  assumes "block_ok d" and "frame d = p @ q" and "q \<noteq> []"
  shows "dec_frame p = None"
proof (cases "dec_frame p")
  case (Some r)
  obtain d' rest where r: "r = (d', rest)" by (cases r)
  with Some have p: "p = frame d' @ rest" "length d' \<le> max_data_block_size"
    using dec_frame_Some [of p d' rest] by auto
  have "dec_frame (frame d @ []) = Some (d, [])" using assms(1) by (rule block_log.dec_enc)
  moreover have "dec_frame (frame d @ []) = Some (d', rest @ q)"
    using dec_frame_frame [OF p(2), of "rest @ q"] assms(2) p(1) by simp
  ultimately show ?thesis using assms(3) by simp
qed simp

lemma take_frame_torn:
  assumes "block_ok d" and "n < 16 + length d"
  shows "dec_frame (take n (frame d)) = None"
  by (rule dec_frame_torn [OF assms(1), of _ "drop n (frame d)"]) (use assms(2) in auto)

subsection \<open>Scanning finds frames, and nothing else\<close>

lemma fast_scan_pos: "current_pos \<le> fst (fast_scan buf e current_pos)"
proof (induction buf e current_pos rule: fast_scan.induct)
  case (1 buf e p)
  then show ?case
    by (subst fast_scan.simps) (fastforce simp: Let_def)
qed

lemma fast_scan_found:
  "fast_scan buf e current_pos = (q, Some sz) \<Longrightarrow>
    current_pos \<le> q \<and> q + 16 + sz \<le> e \<and> 0 < sz \<and> sz \<le> max_data_block_size \<and>
    u32_at buf q = sz \<and> u32_at buf (q + 4) = sz \<and> u32_at buf (q + 8 + sz) = sz \<and>
    u32_at buf (q + 12 + sz) = sz"
proof (induction buf e current_pos rule: fast_scan.induct)
  case (1 buf e p)
  from "1.prems" show ?case
    by (subst (asm) fast_scan.simps) (use "1.IH" in \<open>force simp: Let_def split: if_splits\<close>)
qed

lemma u32_at_drop: "u32_at buf (q + i) = u32_at (drop q buf) i"
  by (simp add: u32_at_def add.commute)

lemma u32_at_take: "i + 4 \<le> n \<Longrightarrow> u32_at (take n xs) i = u32_at xs i"
  by (simp add: u32_at_def drop_take min_def)

lemma fast_scan_sound:
  assumes "fast_scan buf e current_pos = (q, Some sz)" and "e \<le> length buf"
  shows "take (16 + sz) (drop q buf) = frame (take sz (drop (q + 8) buf))"
proof -
  let ?b = "take (16 + sz) (drop q buf)"
  note f = fast_scan_found [OF assms(1)]
  have "16 + sz \<le> length buf - q" using f assms(2) by linarith
  then have len: "length ?b = 16 + sz" by simp
  have "u32_at ?b 0 = sz" "u32_at ?b 4 = sz" "u32_at ?b (8 + sz) = sz" "u32_at ?b (12 + sz) = sz"
    using f u32_at_drop [of buf q 0] u32_at_drop [of buf q 4] u32_at_drop [of buf q "8 + sz"]
      u32_at_drop [of buf q "12 + sz"]
    by (simp_all add: u32_at_take add.assoc)
  then have "dec_frame ?b = Some (take sz (drop 8 ?b), [])"
    using len f by (simp add: dec_frame_def Let_def)
  then have "?b = frame (take sz (drop 8 ?b))" using dec_frame_Some by fastforce
  also have "take sz (drop 8 ?b) = take sz (drop (q + 8) buf)"
    by (simp add: drop_take add.commute min_def)
  finally show ?thesis .
qed

lemma u32_at_frame:
  assumes "length d < 2 ^ 32"
  shows "u32_at (pre @ frame d @ post) (length pre) = length d"
    and "u32_at (pre @ frame d @ post) (length pre + 4) = length d"
    and "u32_at (pre @ frame d @ post) (length pre + 8 + length d) = length d"
    and "u32_at (pre @ frame d @ post) (length pre + 12 + length d) = length d"
  using assms by (simp_all add: u32_at_def frame_def)

lemma fast_scan_frame:
  assumes "block_ok d" and "length pre + 16 + length d \<le> e"
  shows "fast_scan (pre @ frame d @ post) e (length pre) = (length pre, Some (length d))"
proof -
  have lt: "length d < 2 ^ 32" "0 < length d" and le: "length d \<le> max_data_block_size"
    using assms(1) by (auto simp: block_ok_def max_data_block_size_def)
  have "\<not> e \<le> length pre + 16" using assms(2) lt(2) by linarith
  then have big: "(e \<le> length pre + 16) = False" by blast
  from le assms(2) lt(2) show ?thesis
    by (subst fast_scan.simps) (simp add: u32_at_frame [OF lt(1)] big Let_def)
qed

lemma fast_read_data_block_frame:
  assumes "buffer b = pre @ frame d @ post" and "block_ok d" and "length pre + 16 + length d \<le> e"
  shows "fast_read_data_block b (length pre) begin_pos e =
      (True, bs_set_input (length pre + 8 + length d) (bs_set_output (length pre + 8) b),
       length pre + 16 + length d, length pre + 8)"
    and "bs_pending (bs_set_input (length pre + 8 + length d) (bs_set_output (length pre + 8) b)) = d"
proof -
  have "d \<noteq> []" using assms(2) by (simp add: block_ok_def)
  then have "\<not> bs_all_size b \<le> length pre + 16" by (simp add: bs_all_size_def assms(1))
  then show "fast_read_data_block b (length pre) begin_pos e =
      (True, bs_set_input (length pre + 8 + length d) (bs_set_output (length pre + 8) b),
       length pre + 16 + length d, length pre + 8)"
    by (simp add: fast_read_data_block_def assms(1) fast_scan_frame [OF assms(2,3)] Let_def)
  show "bs_pending (bs_set_input (length pre + 8 + length d) (bs_set_output (length pre + 8) b)) = d"
    by (simp add: bs_pending_def bs_set_input_def bs_set_output_def assms(1) frame_def)
qed

subsection \<open>Opening and reopening\<close>

definition disk_ready :: "storage \<Rightarrow> bool" where
  "disk_ready st \<longleftrightarrow> active_file_stream st = None \<and> folder_ok st \<and> open_ok st"

lemma contents_Some: "disk_file st = Some c \<Longrightarrow> contents st = c"
  by (simp add: contents_def)

lemma st_open_write:
  assumes "disk_ready st"
  shows "\<exists>st'. st_open (no_mode\<lparr>mode_write := True, mode_truncate := True\<rparr>) st = (True, st') \<and>
    appending st' \<and> contents st' = [] \<and> room st' = room st \<and> folder_ok st' \<and> open_ok st' \<and>
    disk_file st' = Some []"
  using assms
  by (auto simp: disk_ready_def st_open_def no_mode_def fopen_def appending_def contents_def fs_good_def)

lemma st_open_read:
  assumes "disk_ready st" and "disk_file st = Some c"
  shows "\<exists>st'. st_open (no_mode\<lparr>mode_read := True\<rparr>) st = (True, st') \<and> reading st' c \<and>
    disk_file st' = Some c \<and> last_error st' = error_ok"
  using assms
  by (auto simp: disk_ready_def st_open_def no_mode_def fopen_def reading_def contents_def fs_good_def)

lemma st_write_env [simp]:
  "folder_ok (snd (st_write d st)) = folder_ok st" "open_ok (snd (st_write d st)) = open_ok st"
  by (simp_all add: st_write_def fs_write_def Let_def split: option.splits)

lemma write_data_block_env [simp]:
  "folder_ok (snd (snd (snd (write_data_block data off st)))) = folder_ok st"
  "open_ok (snd (snd (snd (write_data_block data off st)))) = open_ok st"
  by (simp_all add: write_data_block_def Let_def case_prod_beta split: option.splits)

subsection \<open>Properties\<close>

lemma read_data_block_seek:
  assumes "reading st c" and "contents st = c" and "n \<le> length c"
  shows "\<exists>st'. read_data_block (int n) data st = read_data_block (-1) data st' \<and>
    reading st' (drop n c) \<and> disk_file st' = disk_file st \<and> last_error st' = last_error st"
proof -
  obtain f where f: "active_file_stream st = Some f" "fs_good f" "fs_in f"
    using assms(1) by (auto simp: reading_def)
  let ?f = "f\<lparr>fs_pos := n\<rparr>" and ?st = "st\<lparr>active_file_stream := Some (f\<lparr>fs_pos := n\<rparr>)\<rparr>"
  have seek: "fs_seekp (int n) f = ?f" using f by (simp add: fs_seekp_def fs_good_def)
  have "fs_peek_eof ?f ?st = fs_peek_eof ?f st" by (simp add: fs_peek_eof_def fs_good_def contents_def)
  then have "read_data_block (int n) data st = read_data_block (-1) data ?st"
    using f(1) by (simp add: read_data_block_def seek case_prod_beta)
  moreover have "reading ?st (drop n c)"
    using f assms(2) by (auto simp: reading_def fs_good_def)
  ultimately show ?thesis by (intro exI [of _ ?st]) simp
qed

lemma reopen_read_data_block:
  assumes "disk_ready st" and "disk_file st = Some c" and "n \<le> length c"
  shows "\<exists>st1 st2. st_open (no_mode\<lparr>mode_read := True\<rparr>) st = (True, st1) \<and>
    read_data_block (int n) data st1 = read_data_block (-1) data st2 \<and> reading st2 (drop n c) \<and>
    last_error st2 = error_ok"
proof -
  obtain st1 where st1: "st_open (no_mode\<lparr>mode_read := True\<rparr>) st = (True, st1)" "reading st1 c"
    "disk_file st1 = Some c" "last_error st1 = error_ok"
    using st_open_read [OF assms(1,2)] by blast
  from read_data_block_seek [OF st1(2) contents_Some [OF st1(3)] assms(3)] st1(1,4) show ?thesis by metis
qed

lemma write_data_block_file: "disk_file st \<noteq> None \<Longrightarrow> disk_file (snd (snd (snd (write_data_block data off st)))) \<noteq> None"
proof -
  have w: "disk_file st \<noteq> None \<Longrightarrow> disk_file (snd (st_write d st)) \<noteq> None" for d st
    by (simp add: st_write_def fs_write_def Let_def del: not_None_eq split: option.splits)
  show "disk_file st \<noteq> None \<Longrightarrow> disk_file (snd (snd (snd (write_data_block data off st)))) \<noteq> None"
    by (simp add: write_data_block_def Let_def case_prod_beta w del: not_None_eq split: option.splits)
qed

text \<open>
  C6: a block written at the end of an open log can be read back. The write reports success and the
  offset of the block, appends exactly one frame to the file, and after closing the file and opening
  it for reading, \<open>read_data_block\<close> at that offset gives back the data.
\<close>

theorem block_roundtrip:
  assumes "appending st" and "folder_ok st" and "open_ok st" and "bs_wf data" and "block_ok (bs_pending data)"
    and "16 + length (bs_pending data) \<le> room st"
  shows "\<exists>off data' st1 st2 out st3.
    write_data_block data 0 st = ((True, 0), off, data', st1) \<and> off = int (length (contents st)) \<and>
    contents st1 = contents st @ frame (bs_pending data) \<and>
    st_open (no_mode\<lparr>mode_read := True\<rparr>) (st_close st1) = (True, st2) \<and>
    read_data_block off bs_new st2 = Some (True, out, st3) \<and> bs_pending out = bs_pending data"
proof -
  have ne: "bs_pending data \<noteq> []" "length (bs_pending data) < 2 ^ 32"
    and small: "length (bs_pending data) \<le> max_data_block_size"
    using assms(5) block_ok_less by (auto simp: block_ok_def)
  obtain data' st1 where w: "write_data_block data 0 st = ((True, 0), int (length (contents st)), data', st1)"
    "contents st1 = contents st @ frame (bs_pending data)" "disk_file st1 \<noteq> None"
    using write_data_block_appending(1) [OF assms(1,4) ne, of 0] assms(6) by blast
  have "folder_ok st1 \<and> open_ok st1"
    using write_data_block_env [where data = data and off = 0 and st = st] assms(2,3) w(1) by simp
  then have ready: "disk_ready (st_close st1)" by (simp add: disk_ready_def st_close_def)
  have disk: "disk_file (st_close st1) = Some (contents st @ frame (bs_pending data))"
    using w(2,3) by (auto simp: contents_def st_close_def)
  obtain st2 st2' where st2: "st_open (no_mode\<lparr>mode_read := True\<rparr>) (st_close st1) = (True, st2)"
    "read_data_block (int (length (contents st))) bs_new st2 = read_data_block (-1) bs_new st2'"
    "reading st2' (frame (bs_pending data) @ [])"
    using reopen_read_data_block [OF ready disk, of "length (contents st)" bs_new] by auto
  obtain out st3 where "read_data_block (-1) bs_new st2' = Some (True, out, st3)" "bs_pending out = bs_pending data"
    using read_data_block_frame [OF st2(3) small bs_new_wf] by auto
  with w st2 show ?thesis by metis
qed

definition open_log :: "byte list \<Rightarrow> nat \<Rightarrow> storage" where
  "open_log c n = \<lparr>disk_file = Some c, active_file_stream = Some \<lparr>fs_pos = length c, fs_eof = False,
     fs_fail = False, fs_in = False, fs_out = True, fs_app = True\<rparr>, last_error = error_ok,
     folder_ok = True, open_ok = True, room = n, os_errno = 28\<rparr>"

lemma open_log_appending: "appending (open_log c n)" "contents (open_log c n) = c" "room (open_log c n) = n"
    "folder_ok (open_log c n)" "open_ok (open_log c n)"
  by (auto simp: open_log_def appending_def fs_good_def contents_def)

theorem block_roundtrip_witness:
  "\<exists>off data' st1 st2 out st3.
    write_data_block (bs_write ''abc'' bs_new) 0 (open_log ''rest'' 100) = ((True, 0), off, data', st1) \<and> off = 4 \<and>
    st_open (no_mode\<lparr>mode_read := True\<rparr>) (st_close st1) = (True, st2) \<and>
    read_data_block off bs_new st2 = Some (True, out, st3) \<and> bs_pending out = ''abc''"
proof -
  have "bs_wf (bs_write ''abc'' bs_new)" "bs_pending (bs_write ''abc'' bs_new) = ''abc''" by simp_all
  with block_roundtrip [of "open_log ''rest'' 100" "bs_write ''abc'' bs_new"]
  show ?thesis by (auto simp: open_log_appending block_ok_def max_data_block_size_def)
qed



text \<open>
  the writer has no limit that corresponds to the reader's: a block of more than one megabyte is
  written in full and reported as success, and the reader refuses it.
\<close>

theorem oversized_block_lost:
  assumes "appending st" and "folder_ok st" and "open_ok st" and "bs_wf data"
    and "max_data_block_size < length (bs_pending data)" and "length (bs_pending data) < 2 ^ 32"
    and "16 + length (bs_pending data) \<le> room st"
  shows "\<exists>off data' st1 st2 out st3.
    write_data_block data 0 st = ((True, 0), off, data', st1) \<and>
    contents st1 = contents st @ frame (bs_pending data) \<and>
    st_open (no_mode\<lparr>mode_read := True\<rparr>) (st_close st1) = (True, st2) \<and>
    read_data_block off bs_new st2 = Some (False, out, st3)"
proof -
  let ?d = "bs_pending data"
  have ne: "?d \<noteq> []" using assms(5) by auto
  obtain data' st1 where w: "write_data_block data 0 st = ((True, 0), int (length (contents st)), data', st1)"
    "contents st1 = contents st @ frame ?d" "disk_file st1 \<noteq> None"
    using write_data_block_appending(1) [OF assms(1,4) ne assms(6), of 0] assms(7) by blast
  have "folder_ok st1 \<and> open_ok st1"
    using write_data_block_env [where data = data and off = 0 and st = st] assms(2,3) w(1) by simp
  then have ready: "disk_ready (st_close st1)" by (simp add: disk_ready_def st_close_def)
  have disk: "disk_file (st_close st1) = Some (contents st @ frame ?d)"
    using w(2,3) by (auto simp: contents_def st_close_def)
  obtain st2 st2' where st2: "st_open (no_mode\<lparr>mode_read := True\<rparr>) (st_close st1) = (True, st2)"
    "read_data_block (int (length (contents st))) bs_new st2 = read_data_block (-1) bs_new st2'"
    "reading st2' (frame ?d)"
    using reopen_read_data_block [OF ready disk, of "length (contents st)" bs_new] by auto
  have "u32_at (frame ?d) 0 = length ?d" using u32_at_frame(1) [OF assms(6), of "[]" "[]"] by simp
  then have "dec_frame (frame ?d) = None" using assms(5) by (simp add: dec_frame_def Let_def)
  moreover have "frame ?d \<noteq> []" by (metis length_frame add_is_0 list.size(3) zero_neq_numeral)
  ultimately obtain out st3 where "read_data_block (-1) bs_new st2' = Some (False, out, st3)"
    using read_data_block_no_frame [OF st2(3), of bs_new] by auto
  with w st2 show ?thesis by metis
qed

theorem oversized_block_lost_witness:
  "\<exists>off data' st1 st2 out st3.
    write_data_block (bs_write (replicate 1048577 CHR ''x'') bs_new) 0 (open_log [] 2000000) = ((True, 0), off, data', st1) \<and>
    st_open (no_mode\<lparr>mode_read := True\<rparr>) (st_close st1) = (True, st2) \<and>
    read_data_block off bs_new st2 = Some (False, out, st3)"
proof -
  let ?d = "bs_write (replicate 1048577 CHR ''x'') bs_new"
  have d: "bs_wf ?d" "length (bs_pending ?d) = 1048577" by simp_all
  have "max_data_block_size < length (bs_pending ?d)" "length (bs_pending ?d) < 2 ^ 32"
    "16 + length (bs_pending ?d) \<le> room (open_log [] 2000000)"
    unfolding d(2) by (simp_all add: max_data_block_size_def open_log_appending)
  from oversized_block_lost [OF open_log_appending(1,4,5) d(1) this] show ?thesis by blast
qed

text \<open>
  C36: the scan of a buffer only reports blocks that are there: a hit is a frame at or after the
  start position, inside the limit, the stream is left at its data, and the position behind it.
\<close>

theorem fast_read_sound:
  assumes "fast_read_data_block b pos begin_pos e = (True, b', pos', begin')" and "e \<le> length (buffer b)"
  shows "\<exists>pre d post. buffer b = pre @ frame d @ post \<and> pos \<le> length pre \<and> block_ok d \<and>
    pos' = length pre + length (frame d) \<and> begin' = length pre + 8 \<and> pos' \<le> e \<and> bs_pending b' = d"
proof -
  obtain q r where qr: "fast_scan (buffer b) e pos = (q, r)" by (cases "fast_scan (buffer b) e pos")
  obtain sz where r: "r = Some sz"
    using assms(1) by (cases r) (simp_all add: fast_read_data_block_def qr split: if_splits)
  have b': "b' = bs_set_input (q + 8 + sz) (bs_set_output (q + 8) b)" "pos' = q + 16 + sz" "begin' = q + 8"
    using assms(1) by (auto simp: fast_read_data_block_def qr r Let_def split: if_splits)
  note scan = qr [unfolded r]
  note found = fast_scan_found [OF scan] and sound = fast_scan_sound [OF scan assms(2)]
  let ?d = "take sz (drop (q + 8) (buffer b))"
  have len: "length ?d = sz" "length (take q (buffer b)) = q" using found assms(2) by auto
  have split: "buffer b = take q (buffer b) @ take (16 + sz) (drop q (buffer b)) @ drop (q + (16 + sz)) (buffer b)"
    by (metis append_take_drop_id drop_drop add.commute)
  have "buffer b = take q (buffer b) @ frame ?d @ drop (q + (16 + sz)) (buffer b)"
    using split unfolding sound .
  moreover have "bs_pending b' = ?d" by (simp add: b' bs_pending_def bs_set_input_def bs_set_output_def take_drop add.commute)
  moreover have "block_ok ?d" using found len by (auto simp: block_ok_def)
  moreover have "pos \<le> length (take q (buffer b))" "pos' = length (take q (buffer b)) + length (frame ?d)"
    "begin' = length (take q (buffer b)) + 8" "pos' \<le> e"
    using found len b' by simp_all
  ultimately show ?thesis by blast
qed

theorem fast_read_sound_witness:
  "\<exists>b' d. fast_read_data_block (bs_write (''zz'' @ frame ''abc'' @ ''z'') bs_new) 0 0 22 = (True, b', 21, 10) \<and>
    bs_pending b' = ''abc''"
proof -
  let ?b = "bs_write (''zz'' @ frame ''abc'' @ ''z'') bs_new"
  have run: "fst (fast_read_data_block ?b 0 0 22) \<and> snd (snd (fast_read_data_block ?b 0 0 22)) = (21, 10) \<and>
      22 \<le> length (buffer ?b) \<and> drop 10 (take 13 (buffer ?b)) = ''abc''"
    by code_simp
  then obtain b' where b': "fast_read_data_block ?b 0 0 22 = (True, b', 21, 10)"
    by (metis prod.collapse)
  obtain pre d post where p: "buffer ?b = pre @ frame d @ post" "21 = length pre + length (frame d)" "10 = length pre + 8"
    "bs_pending b' = d"
    using fast_read_sound [OF b'] run by blast
  have "d = drop 10 (take 13 (buffer ?b))" using p unfolding p(1) by (simp add: frame_def)
  with b' p run show ?thesis by auto
qed

end
