(* ===== verification/Index_Facts.thy ===== *)
theory Index_Facts
  imports Archive_Index Storage_Log
begin

text \<open>
  Properties of the archive index: the invariant of the header map and that every operation and every
  file keeps it, what a read of a range returns, the search for holes against its specification on
  the visible messages, and the way through the file and back.
\<close>

subsection \<open>The invariant\<close>

definition entry_ok :: "int \<times> message_header \<Rightarrow> bool" where
  "entry_ok e \<longleftrightarrow> get_id (snd e) = fst e \<and> 0 < fst e"

definition index_wf :: "headers_map \<Rightarrow> bool" where
  "index_wf es \<longleftrightarrow> om_wf es \<and> list_all entry_ok es"

lemma index_wf_Nil [simp, index_simps]: "index_wf []"
  by (simp add: index_wf_def)

lemma index_wf_append:
  "index_wf (xs @ ys) \<Longrightarrow> index_wf xs \<and> index_wf ys"
  by (auto simp: index_wf_def om_wf_append)

lemma index_wf_filter [intro]: "index_wf es \<Longrightarrow> index_wf (filter P es)"
  by (auto simp: index_wf_def om_wf_filter list_all_iff)

lemma index_wf_take_drop: "index_wf es \<Longrightarrow> index_wf (take n es) \<and> index_wf (drop n es)"
  using index_wf_append [of "take n es" "drop n es"] by simp

lemma index_wf_om_put [intro]:
  "index_wf es \<Longrightarrow> get_id h = k \<Longrightarrow> 0 < k \<Longrightarrow> index_wf (om_put k h es)"
proof -
  have "list_all entry_ok es \<Longrightarrow> get_id h = k \<Longrightarrow> 0 < k \<Longrightarrow> list_all entry_ok (om_put k h es)"
    by (induction k h es rule: om_put.induct) (auto simp: entry_ok_def)
  then show "index_wf es \<Longrightarrow> get_id h = k \<Longrightarrow> 0 < k \<Longrightarrow> index_wf (om_put k h es)"
    by (simp add: index_wf_def)
qed

lemma entries_ok_iff:
  "list_all entry_ok es \<longleftrightarrow> map (get_id \<circ> snd) es = map fst es \<and> list_all (\<lambda>k. 0 < k) (map fst es)"
  by (induction es) (auto simp: entry_ok_def)

lemma index_wf_map_snd:
  "index_wf es \<Longrightarrow> map fst es' = map fst es \<Longrightarrow> map (get_id \<circ> snd) es' = map (get_id \<circ> snd) es \<Longrightarrow>
    index_wf es'"
  unfolding index_wf_def om_wf_def entries_ok_iff by simp

lemma get_id_upds [simp]:
  "get_id (set_prev_msgid p h) = get_id h" "get_id (invalidate_data_offset h) = get_id h"
  "get_id (set_updated b h) = get_id h"
  by (simp_all add: get_id_def set_prev_msgid_def invalidate_data_offset_def set_data_offset_def
      set_updated_def)

lemma relink_next_keys [simp]:
  "map fst (relink_next k c p es) = map fst es"
  "map (get_id \<circ> snd) (relink_next k c p es) = map (get_id \<circ> snd) es"
  by (induction k c p es rule: relink_next.induct) auto

lemma index_wf_relink_next [intro]: "index_wf es \<Longrightarrow> index_wf (relink_next k c p es)"
  by (rule index_wf_map_snd) simp_all

lemma index_wf_lookup: "index_wf es \<Longrightarrow> map_of es k = Some h \<Longrightarrow> get_id h = k \<and> 0 < k"
  by (drule map_of_SomeD) (auto simp: index_wf_def list_all_iff entry_ok_def)

lemma insert_header_wf:
  assumes "index_wf (headers_index ai)" and "0 < get_id h"
  shows "index_wf (headers_index (snd (insert_header h now ai)))"
proof (cases "map_of (headers_index ai) (get_id h)")
  case None
  with assms show ?thesis by (simp add: insert_header_def index_wf_om_put)
next
  case (Some e)
  with assms index_wf_lookup [OF assms(1) Some] show ?thesis
    by (auto simp: insert_header_def Let_def intro!: index_wf_om_put)
qed

lemma insert_headers_wf:
  "index_wf (headers_index ai) \<Longrightarrow> list_all (\<lambda>h. 0 < get_id h) hs \<Longrightarrow>
    index_wf (headers_index (snd (insert_headers hs now ai)))"
  by (induction hs arbitrary: ai) (auto simp: Let_def case_prod_beta insert_header_wf)

lemma insert_block_wf:
  "index_wf (headers_index ai) \<Longrightarrow> list_all (\<lambda>h. 0 < get_id h) hs \<Longrightarrow>
    index_wf (headers_index (snd (insert_block hs now ai)))"
  by (simp add: insert_block_def Let_def case_prod_beta notify_core_outgoing_msg_count_def insert_headers_wf)

lemma insert_all_wf:
  "index_wf (headers_index ai) \<Longrightarrow> list_all entry_ok es \<Longrightarrow> index_wf (headers_index (insert_all es now ai))"
  by (induction es arbitrary: ai) (auto simp: insert_header_wf entry_ok_def)

lemma save_all_index [simp, index_simps]:
  "headers_index (snd (save_all ai)) = headers_index ai"
  "outgoing_count (snd (save_all ai)) = outgoing_count ai"
  "merged_count (snd (save_all ai)) = merged_count ai"
  by (simp_all add: save_all_def Let_def case_prod_beta)

lemma save_block_index [simp, index_simps]: "headers_index (snd (save_block hs ai)) = headers_index ai"
  by (simp add: save_block_def Let_def case_prod_beta)

lemma header_read_patch_id: "header_read_patch h s = Some (ok, h', s') \<Longrightarrow> get_id h' = get_id h"
  by (auto simp: header_read_patch_def bind_eq_Some_conv get_id_def split: if_splits)

lemma header_read_contents_id: "header_read_contents h s = Some (h', s') \<Longrightarrow> get_id h' = get_id h"
  by (auto simp: header_read_contents_def bind_eq_Some_conv get_id_def Let_def)

lemma header_unserialize_id: "header_unserialize h0 s = Some (True, h, s') \<Longrightarrow> 0 < get_id h"
  by (auto simp: header_unserialize_def bind_eq_Some_conv Let_def split: if_splits
      dest!: header_read_patch_id header_read_contents_id) (simp add: get_id_def)

lemma insert_read_header_wf:
  "header_unserialize h0 s = Some (True, h, s') \<Longrightarrow> index_wf (headers_index ai) \<Longrightarrow>
    index_wf (headers_index (snd (insert_header h now ai)))"
  by (rule insert_header_wf) (auto dest: header_unserialize_id)

lemma unserialize_block_wf:
  "unserialize_block data now ai = Some (ok, data', ai') \<Longrightarrow> index_wf (headers_index ai) \<Longrightarrow>
    index_wf (headers_index ai')"
proof (induction data now ai rule: unserialize_block.induct)
  case (1 data now ai)
  from "1.prems" show ?case
    by (subst (asm) unserialize_block.simps)
      (auto simp: Let_def "1.IH" insert_read_header_wf
        split: if_splits option.splits prod.splits)
qed

lemma load_blocks_wf:
  "load_blocks data now ai = Some (ok, ai') \<Longrightarrow> index_wf (headers_index ai) \<Longrightarrow>
    index_wf (headers_index ai')"
proof (induction data now ai rule: load_blocks.induct)
  case (1 data now ai)
  from "1.prems" show ?case
    by (subst (asm) load_blocks.simps)
      (auto simp: "1.IH" unserialize_block_wf split: if_splits option.splits prod.splits)
qed

lemma index_wf_last: "index_wf (xs @ ys) \<Longrightarrow> ys \<noteq> [] \<Longrightarrow> index_wf (xs @ [last ys])"
  by (cases ys rule: rev_cases) (auto simp: index_wf_def om_wf_append)

lemma drop_outdated_headers_wf:
  assumes "index_wf (headers_index ai)"
  shows "index_wf (headers_index (drop_outdated_headers now ai))"
proof (cases "headers_index ai = []")
  case False
  let ?n = "length (headers_index ai) - min drop_headers_count (length (headers_index ai))"
  have "index_wf (take ?n (headers_index ai) @ drop ?n (headers_index ai))" using assms by simp
  then have "index_wf (take ?n (headers_index ai) @ [last (drop ?n (headers_index ai))])"
    by (rule index_wf_last) (use False in \<open>simp add: drop_headers_count_def min_def not_le\<close>)
  then show ?thesis using assms by (simp add: drop_outdated_headers_def Let_def)
qed (simp add: drop_outdated_headers_def)

lemma load_from_local_wf:
  assumes "index_wf (headers_index ai)" and "load_from_local now ai = Some (ok, ai')"
  shows "index_wf (headers_index ai')"
  using assms
  by (auto simp: load_from_local_def Let_def case_prod_beta with_storage_def
      notify_core_outgoing_msg_count_def index_wf_def [of "headers_index ai"]
      intro!: drop_outdated_headers_wf insert_all_wf
      dest!: load_blocks_wf split: if_splits option.splits)

lemma invalidate_loop_keys [simp]:
  "map fst (invalidate_loop n es) = map fst es"
  "map (get_id \<circ> snd) (invalidate_loop n es) = map (get_id \<circ> snd) es"
  by (induction n es rule: invalidate_loop.induct) auto

lemma delete_up_to_wf:
  assumes "index_wf (headers_index ai)"
  shows "index_wf (headers_index (delete_up_to to_id ai))"
proof -
  let ?p = "om_lower_bound to_id (headers_index ai)"
  have "index_wf (fst ?p @ snd ?p)" using assms by (simp add: om_lower_bound_append)
  then have after: "index_wf (snd ?p)" using index_wf_append by blast
  have tl: "index_wf ((k2, set_prev_msgid x h2) # rest)" "index_wf ((k2, h2) # rest)"
    if "index_wf ((k, h) # (k2, h2) # rest)" for k h k2 h2 rest x
    using that by (auto simp: index_wf_def om_wf_def entry_ok_def)
  show ?thesis
    using after assms tl
    by (cases ?p) (auto simp: delete_up_to_def split: list.splits)
qed

lemma optimize_wf:
  assumes "index_wf (headers_index ai)"
  shows "index_wf (headers_index (optimize ai))"
proof -
  let ?n = "nat (int (length (headers_index ai)) - int max_index_size)"
  have d: "index_wf (drop ?n (headers_index ai))" using assms index_wf_take_drop by blast
  have "index_wf ((k, set_prev_msgid x h) # rest)" if "index_wf ((k, h) # rest)" for k h rest x
    using that by (auto simp: index_wf_def om_wf_def entry_ok_def)
  with d assms show ?thesis
    by (auto simp: optimize_def Let_def split: list.splits)
qed

lemma index_wf_invalidate_parts:
  assumes "index_wf (xs @ ys)"
  shows "index_wf (rev (invalidate_loop n (rev xs)) @ ys)" and "index_wf (xs @ invalidate_loop n ys)"
  by (rule index_wf_map_snd [OF assms]; simp add: rev_map [symmetric])+

lemma invalidate_range_wf:
  assumes "index_wf (headers_index ai)"
  shows "index_wf (headers_index (invalidate_range from_id b a ai))"
proof -
  obtain xs ys where p: "om_lower_bound from_id (headers_index ai) = (xs, ys)"
    by (cases "om_lower_bound from_id (headers_index ai)")
  then have wf: "index_wf (xs @ ys)" using om_lower_bound_append [of from_id "headers_index ai"] assms by simp
  then have wf': "index_wf ((xs @ [hd ys]) @ tl ys)" if "ys \<noteq> []" using that by simp
  show ?thesis
    using p wf assms index_wf_invalidate_parts [OF wf] index_wf_invalidate_parts(1) [OF wf']
      index_wf_invalidate_parts(2) [OF index_wf_invalidate_parts(1) [OF wf]]
    by (cases "ys = []") (auto simp: invalidate_range_def Let_def)
qed

lemma invalidate_one_wf:
  assumes "index_wf (headers_index ai)"
  shows "index_wf (headers_index (invalidate_one i m ai))"
proof (cases "map_of (headers_index ai) i")
  case (Some h)
  with assms index_wf_lookup [OF assms Some] show ?thesis
    by (auto simp: invalidate_one_def Let_def)
qed (use assms in \<open>simp add: invalidate_one_def\<close>)

lemma drop_header_wf: "index_wf (headers_index ai) \<Longrightarrow> index_wf (headers_index (drop_header i ai))"
  by (simp add: drop_header_def om_erase_def index_wf_filter)

subsection \<open>Reading a range\<close>

definition visible :: "headers_map \<Rightarrow> headers_map" where
  "visible es = filter (\<lambda>e. \<not> is_patch (snd e) \<and> \<not> is_deleted (snd e)) es"

lemma visible_simps [simp]:
  "visible [] = []"
  "visible (e # es) = (if \<not> is_patch (snd e) \<and> \<not> is_deleted (snd e) then e # visible es else visible es)"
  by (simp_all add: visible_def)

lemma later_loop_eq:
  "nd < c \<Longrightarrow> later_loop c nd es l = l @ map snd (take (nat (c - nd)) (visible es))"
proof (induction c nd es l rule: later_loop.induct)
  case (2 c nd k h es l)
  consider "is_patch h \<or> is_deleted h" | "\<not> (is_patch h \<or> is_deleted h)" "c = nd + 1"
    | "\<not> (is_patch h \<or> is_deleted h)" "nd + 1 < c" "nat (c - nd) = Suc (nat (c - (nd + 1)))"
    using "2.prems" by fastforce
  then show ?case
    by cases (use 2 in \<open>auto simp: Let_def\<close>)
qed simp

lemma early_loop_spec:
  "nd \<le> c \<Longrightarrow> \<exists>p q. filter (\<lambda>e. \<not> is_patch (snd e)) es = p @ q \<and>
    early_loop c nd es l = rev (map snd p) @ l \<and>
    length (visible p) = min (nat (c - nd)) (length (visible es)) \<and>
    (q \<noteq> [] \<longrightarrow> int (length (visible p)) = c - nd)"
proof (induction c nd es l rule: early_loop.induct)
  case (1 c nd l)
  then show ?case by (intro exI [of _ "[]"]) simp
next
  case (2 c nd k h es l)
  consider "is_patch h" | "\<not> is_patch h" "c \<le> nd" | "\<not> is_patch h" "\<not> c \<le> nd"
    by blast
  then show ?case
  proof cases
    case 1
    with 2 show ?thesis by simp
  next
    case stop: 2
    with "2.prems" have "nd = c" by simp
    with stop show ?thesis
      by (intro exI [of _ "[]"] exI [of _ "(k, h) # filter (\<lambda>e. \<not> is_patch (snd e)) es"]) simp
  next
    case 3
    let ?nd = "if \<not> is_deleted h then nd + 1 else nd"
    from 3 have "?nd \<le> c" by simp
    with 2 3 obtain p q where pq: "filter (\<lambda>e. \<not> is_patch (snd e)) es = p @ q"
      "early_loop c ?nd es (h # l) = rev (map snd p) @ h # l"
      "length (visible p) = min (nat (c - ?nd)) (length (visible es))"
      "q \<noteq> [] \<longrightarrow> int (length (visible p)) = c - ?nd" by blast
    show ?thesis
    proof (intro exI conjI)
      show "filter (\<lambda>e. \<not> is_patch (snd e)) ((k, h) # es) = ((k, h) # p) @ q" using 3 pq(1) by simp
      show "early_loop c nd ((k, h) # es) l = rev (map snd ((k, h) # p)) @ l" using 3 pq(2) by simp
      show "length (visible ((k, h) # p)) = min (nat (c - nd)) (length (visible ((k, h) # es)))"
        using 3 pq(3) by (auto simp: min_def split: if_splits)
      show "q \<noteq> [] \<longrightarrow> int (length (visible ((k, h) # p))) = c - nd"
        using 3 pq(4) by (auto split: if_splits)
    qed
  qed
qed

subsection \<open>Holes\<close>

definition links_to :: "int \<times> message_header \<Rightarrow> int \<times> message_header \<Rightarrow> bool" where
  "links_to a b \<longleftrightarrow> get_prev_msgid (snd a) = get_id (snd b)"

fun linked :: "headers_map \<Rightarrow> bool" where
  "linked (a # b # es) \<longleftrightarrow> links_to a b \<and> linked (b # es)"
| "linked _ \<longleftrightarrow> True"

lemma visible_skip [simp]: "visible (skip_patches_and_deleted_forward es) = visible es"
  by (induction es) (auto simp: skip_patches_and_deleted_forward_def)

lemma skip_Nil_iff: "skip_patches_and_deleted_forward es = [] \<longleftrightarrow> visible es = []"
  by (induction es) (auto simp: skip_patches_and_deleted_forward_def)

lemma skip_Cons:
  "skip_patches_and_deleted_forward es = e # rest \<Longrightarrow>
    visible es = e # visible rest \<and> \<not> is_patch (snd e) \<and> \<not> is_deleted (snd e)"
  by (induction es) (auto simp: skip_patches_and_deleted_forward_def split: if_splits)

text \<open>
  The search without a depth limit, from a visible header: it returns the newest gap of the chain of
  visible messages, or says that the chain reaches the beginning of the history.
\<close>

lemma hole_loop_spec:
  assumes "es = e # es'" and "\<not> is_patch (snd e)" and "\<not> is_deleted (snd e)"
    and "hole_loop es d (-1) hole = (r, hole')"
  shows "(r = hole_last_reached \<and> hole' = hole \<and> linked (visible es) \<and>
      get_prev_msgid (snd (last (visible es))) = -1) \<or>
    (r = hole_ok \<and> linked (visible es) \<and> get_prev_msgid (snd (last (visible es))) \<noteq> -1 \<and>
      hole' = hole\<lparr>hole_from := get_id (snd (last (visible es)))\<rparr>) \<or>
    (r = hole_ok \<and> (\<exists>p a b q. visible es = p @ a # b # q \<and> linked (p @ [a]) \<and> \<not> links_to a b \<and>
      hole' = hole\<lparr>hole_from := get_id (snd a), hole_to := get_id (snd b),
        hole_depth := d + int (length p) + 1\<rparr>))"
  using assms
proof (induction "length es" arbitrary: es e es' d rule: less_induct)
  case less
  obtain k h where e: "e = (k, h)" by (cases e)
  have vis: "visible es = e # visible es'" using less.prems(1-3) by simp
  show ?case
  proof (cases "skip_patches_and_deleted_forward es'")
    case Nil
    then have "visible es' = []" by (simp add: skip_Nil_iff)
    with Nil less.prems(2-4) show ?thesis
      by (auto simp: e less.prems(1) hole_loop.simps Let_def split: if_splits)
  next
    case (Cons b rest)
    obtain k2 h2 where b: "b = (k2, h2)" by (cases b)
    note sb = skip_Cons [OF Cons]
    show ?thesis
    proof (cases "links_to e b")
      case False
      with less.prems(4) Cons have "r = hole_ok"
        "hole' = hole\<lparr>hole_from := get_id h, hole_to := get_id h2, hole_depth := d + 1\<rparr>"
        by (auto simp: e b less.prems(1) hole_loop.simps Let_def links_to_def split: if_splits)
      with False show ?thesis
        using vis sb by (intro disjI2 conjI exI [of _ "[]"] exI [of _ e] exI [of _ b] exI [of _ "visible rest"])
          (simp_all add: e b)
    next
      case True
      have "length (skip_patches_and_deleted_forward es') < length es"
        using length_skip [of es'] less.prems(1) by simp
      moreover have "hole_loop (skip_patches_and_deleted_forward es') (d + 1) (-1) hole = (r, hole')"
        using less.prems(4) True
        by (simp add: e less.prems(1) hole_loop.simps(2) [of k h] Cons b Let_def links_to_def)
      ultimately have IH: "(r = hole_last_reached \<and> hole' = hole \<and> linked (visible es') \<and>
            get_prev_msgid (snd (last (visible es'))) = -1) \<or>
          (r = hole_ok \<and> linked (visible es') \<and> get_prev_msgid (snd (last (visible es'))) \<noteq> -1 \<and>
            hole' = hole\<lparr>hole_from := get_id (snd (last (visible es')))\<rparr>) \<or>
          (r = hole_ok \<and> (\<exists>p a b q. visible es' = p @ a # b # q \<and> linked (p @ [a]) \<and> \<not> links_to a b \<and>
            hole' = hole\<lparr>hole_from := get_id (snd a), hole_to := get_id (snd b),
              hole_depth := d + 1 + int (length p) + 1\<rparr>))"
        using less.hyps [OF _ Cons, of "d + 1"] sb by auto
      have V: "visible es = e # b # visible rest" using vis sb by simp
      from IH show ?thesis
      proof (elim disjE conjE exE)
        fix p a b' q
        assume *: "r = hole_ok" "visible es' = p @ a # b' # q" "linked (p @ [a])" "\<not> links_to a b'"
          "hole' = hole\<lparr>hole_from := get_id (snd a), hole_to := get_id (snd b'),
              hole_depth := d + 1 + int (length p) + 1\<rparr>"
        have "linked ((e # p) @ [a])"
          using *(2,3) sb True by (cases p) auto
        with * vis show ?thesis
          by (intro disjI2 conjI exI [of _ "e # p"] exI [of _ a] exI [of _ b'] exI [of _ q]) simp_all
      qed (use V sb True in auto)
    qed
  qed
qed

subsection \<open>Deleting up to an id and bounding the index\<close>

lemma delete_up_to_ids:
  assumes "index_wf (headers_index ai)"
  shows "map fst (headers_index (delete_up_to to_id ai)) =
    filter (\<lambda>k. to_id < k) (map fst (headers_index ai))"
proof -
  let ?idx = "headers_index ai"
  have wf: "om_wf ?idx" "list_all entry_ok ?idx" using assms by (auto simp: index_wf_def)
  note lb = om_lower_bound_parts [OF wf(1), of to_id]
  have split: "om_lower_bound to_id ?idx = (filter (\<lambda>e. fst e < to_id) ?idx, filter (\<lambda>e. to_id \<le> fst e) ?idx)"
    using lb by (simp add: prod_eq_iff)
  have keys: "filter (\<lambda>k. to_id < k) (map fst ?idx) = map fst (filter (\<lambda>e. to_id < fst e) ?idx)"
    by (simp add: filter_map comp_def)
  show ?thesis
  proof (cases "filter (\<lambda>e. to_id \<le> fst e) ?idx")
    case Nil
    then have "filter (\<lambda>e. to_id < fst e) ?idx = []"
      by (auto simp: filter_empty_conv)
    with Nil show ?thesis unfolding keys by (simp add: delete_up_to_def split)
  next
    case (Cons e rest)
    obtain k h where e: "e = (k, h)" by (cases e)
    have sub: "set (e # rest) \<subseteq> set ?idx" "om_wf (e # rest)"
      using Cons om_wf_filter [OF wf(1)] by (metis filter_is_subset, metis)
    have "entry_ok e" using sub(1) wf(2) by (auto simp: list_all_iff)
    then have id: "get_id h = k" by (simp add: entry_ok_def e)
    have gt: "filter (\<lambda>e. to_id < fst e) ?idx = filter (\<lambda>e. to_id < fst e) (e # rest)"
      unfolding Cons [symmetric] by (auto intro: filter_cong)
    have "\<forall>x \<in> set rest. k < fst x" using sub(2) e by (auto simp: om_wf_Cons)
    moreover have "e \<in> set (filter (\<lambda>e. to_id \<le> fst e) ?idx)" unfolding Cons by simp
    then have "to_id \<le> k" by (simp add: e)
    ultimately have rest: "filter (\<lambda>e. to_id < fst e) rest = rest"
      by (auto simp: filter_id_conv)
    show ?thesis
    proof (cases "k = to_id")
      case True
      then show ?thesis
        unfolding keys gt
        by (cases rest) (use rest in \<open>auto simp: delete_up_to_def split Cons e id\<close>)
    next
      case False
      with \<open>to_id \<le> k\<close> have "filter (\<lambda>e. to_id < fst e) (e # rest) = e # rest"
        using rest e by simp
      moreover have "filter (\<lambda>e. fst e < to_id) ?idx = [] \<Longrightarrow> ?idx = e # rest"
        unfolding Cons [symmetric] by (auto simp: filter_empty_conv filter_id_conv not_less)
      moreover have "headers_index (delete_up_to to_id ai) =
          (if filter (\<lambda>e. fst e < to_id) ?idx \<noteq> [] then e # rest else ?idx)"
        unfolding delete_up_to_def split Cons by (simp add: False e id)
      ultimately show ?thesis
        unfolding keys gt by (auto split: if_splits)
    qed
  qed
qed

lemma optimize_bound: "length (headers_index (optimize ai)) \<le> index_size_need_optimize"
proof (cases "need_optimize ai")
  case True
  have len: "length (case xs of [] \<Rightarrow> [] | (k, h) # rest \<Rightarrow> (k, set_prev_msgid (-1) h) # rest) = length xs"
    for xs :: headers_map
    by (auto split: list.split)
  have sub: "nat (int n - 25000) = n - 25000" for n by arith
  show ?thesis
    using True
    by (simp add: optimize_def Let_def len sub max_index_size_def index_size_need_optimize_def)
next
  case False
  then show ?thesis by (auto simp: optimize_def need_optimize_def)
qed

lemma linked_tl: "linked (a # es) \<Longrightarrow> linked es"
  by (cases es) auto

text \<open>A chain that reaches the beginning of the history has no hole in any range.\<close>

lemma range_loop_linked:
  "es = e # es' \<Longrightarrow> \<not> is_patch (snd e) \<Longrightarrow> \<not> is_deleted (snd e) \<Longrightarrow> linked (visible es) \<Longrightarrow>
    get_prev_msgid (snd (last (visible es))) = -1 \<Longrightarrow>
    \<not> range_loop es msgid cb ca found ca before"
proof (induction "length es" arbitrary: es e es' found before rule: less_induct)
  case less
  obtain k h where e: "e = (k, h)" by (cases e)
  have vis: "visible es = e # visible es'" using less.prems(1-3) by simp
  show ?case
  proof (cases "skip_patches_and_deleted_forward es'")
    case Nil
    then have "visible es' = []" by (simp add: skip_Nil_iff)
    with Nil less.prems show ?thesis
      by (simp add: e range_loop.simps Let_def)
  next
    case (Cons b rest)
    note sb = skip_Cons [OF Cons]
    have V: "visible es = e # b # visible rest" using vis sb by simp
    have lk: "get_prev_msgid h = get_id (snd b)" using less.prems(4) V e by (simp add: links_to_def)
    have "length (b # rest) < length es" using length_skip [of es'] less.prems(1) Cons by simp
    note IH = less.hyps [OF this refl]
    have "\<not> range_loop (b # rest) msgid cb ca f ca n" for f n
      by (rule IH) (use sb less.prems(4,5) V in auto)
    with lk show ?thesis
      by (cases b) (auto simp: less.prems(1) e range_loop.simps(2) [of k h] Cons Let_def)
  qed
qed

subsection \<open>Inserting without deletions is a keyed fold of merges\<close>

lemma insert_header_upsert:
  assumes "\<not> is_deleted h" and "list_all (\<lambda>e. \<not> is_deleted (snd e)) (headers_index ai)"
  shows "headers_index (snd (insert_header h now ai)) = omap.upsert merge_with (get_id h, h) (headers_index ai) \<and>
    list_all (\<lambda>e. \<not> is_deleted (snd e)) (headers_index (snd (insert_header h now ai)))"
proof -
  have old: "\<not> is_deleted e" if "map_of (headers_index ai) k = Some e" for k e
    using assms(2) map_of_SomeD [OF that] by (auto simp: list_all_iff)
  have put: "list_all P (om_put k v es)" if "list_all P es" "P (k, v)" for P k v and es :: headers_map
    using that by (induction k v es rule: om_put.induct) auto
  show ?thesis
    using assms old by (auto simp: insert_header_def omap_upsert Let_def intro!: put split: option.splits)
qed

lemma insert_headers_fold:
  "list_all (\<lambda>h. \<not> is_deleted h) hs \<Longrightarrow> list_all (\<lambda>e. \<not> is_deleted (snd e)) (headers_index ai) \<Longrightarrow>
    headers_index (snd (insert_headers hs now ai)) =
      fold (omap.upsert merge_with) (map (\<lambda>h. (get_id h, h)) hs) (headers_index ai)"
proof (induction hs arbitrary: ai)
  case (Cons h hs)
  obtain h' ai' where i: "insert_header h now ai = (h', ai')" by (cases "insert_header h now ai")
  from insert_header_upsert [of h ai now] Cons.prems i
  have up: "headers_index ai' = omap.upsert merge_with (get_id h, h) (headers_index ai)"
    "list_all (\<lambda>e. \<not> is_deleted (snd e)) (headers_index ai')"
    by (metis list.pred_inject(2) snd_conv)+
  have "headers_index (snd (insert_headers hs now ai')) =
      fold (omap.upsert merge_with) (map (\<lambda>h. (get_id h, h)) hs) (headers_index ai')"
    using Cons.IH [OF _ up(2)] Cons.prems(1) by simp
  then show ?case by (simp add: i up(1) case_prod_beta)
qed simp

subsection \<open>Deleting and the chain of messages\<close>

lemma visible_append [simp]: "visible (xs @ ys) = visible xs @ visible ys"
  by (simp add: visible_def)

lemma linked_append:
  "linked (xs @ a # b # ys) \<longleftrightarrow> linked (xs @ [a]) \<and> links_to a b \<and> linked (b # ys)"
  by (induction xs rule: linked.induct) auto

lemma linked_last_cong:
  assumes "get_id (snd a) = get_id (snd a')"
  shows "linked (xs @ [a]) \<longleftrightarrow> linked (xs @ [a'])"
  using assms by (induction xs rule: linked.induct) (auto simp: links_to_def)

lemma om_put_middle:
  "om_wf (pre @ (k, old) # post) \<Longrightarrow> om_put k v (pre @ (k, old) # post) = pre @ (k, v) # post"
  by (induction pre) (auto simp: om_wf_Cons split: prod.splits)

lemma relink_next_middle:
  "om_wf (pre @ (k, x) # (k2, h2) # post) \<Longrightarrow>
    relink_next k c p (pre @ (k, x) # (k2, h2) # post) =
      pre @ (k, x) # (k2, if c h2 then set_prev_msgid p h2 else h2) # post"
  by (induction pre) (auto simp: om_wf_Cons split: prod.splits)

subsection \<open>A small history\<close>

definition plain_message :: "int \<Rightarrow> int \<Rightarrow> message_header" where
  "plain_message i prev = make_header 0 100 i prev (8 * i) 5 pv_new False False False False False"

definition patch_message :: "int \<Rightarrow> nat list \<Rightarrow> message_header" where
  "patch_message i fl = make_header (foldr (\<lambda>n. put_flag n True) fl 0) 200 i (-1) (-1) 0 (Patch_Version ''7'' 0)
     False False False False False"

definition closed_storage :: storage where
  "closed_storage = \<lparr>disk_file = None, active_file_stream = None, last_error = error_ok,
     folder_ok = True, open_ok = True, room = 1000000, os_errno = 0\<rparr>"

definition sample_index :: archive_index where
  "sample_index = (archive_index_new closed_storage)\<lparr>headers_index :=
     [(1, plain_message 1 (-1)), (2, plain_message 2 1), (3, plain_message 3 2), (4, plain_message 4 3)]\<rparr>"

lemma sample_index_wf: "index_wf (headers_index sample_index)"
  by code_simp

subsection \<open>Properties\<close>

text \<open>
  C3: no operation of the index breaks its invariant: the keys stay strictly ascending, every header
  is stored under its own id, and all ids are positive.
\<close>

theorem index_operations_wf:
  assumes "index_wf (headers_index ai)"
  shows "(list_all (\<lambda>h. 0 < get_id h) hs \<longrightarrow> index_wf (headers_index (snd (insert_block hs now ai)))) \<and>
    (list_all (\<lambda>h. 0 < get_id h) hs \<longrightarrow> index_wf (headers_index (snd (snd (index_update hs now ai))))) \<and>
    index_wf (headers_index (snd (save_all ai))) \<and>
    index_wf (headers_index (delete_up_to to_id ai)) \<and>
    index_wf (headers_index (optimize ai)) \<and>
    index_wf (headers_index (drop_header to_id ai)) \<and>
    index_wf (headers_index (drop_outdated_headers now ai)) \<and>
    index_wf (headers_index (invalidate_one to_id mark ai)) \<and>
    index_wf (headers_index (invalidate_range to_id before after ai)) \<and>
    index_wf (headers_index (index_free ai))"
  using assms insert_block_wf [OF assms, of hs now]
  by (simp add: delete_up_to_wf optimize_wf drop_header_wf drop_outdated_headers_wf invalidate_one_wf
      invalidate_range_wf index_free_def index_update_def case_prod_beta)

text \<open>
  C2: loading never gives a malformed index, whatever bytes the file holds and whatever headers were
  inserted before the load.
\<close>

theorem load_any_file_wf:
  assumes "index_wf (headers_index ai)" and "load_from_local now ai = Some (ok, ai')"
  shows "index_wf (headers_index ai') \<and> (ok \<longrightarrow> loaded_from_local ai')"
proof
  show "index_wf (headers_index ai')" by (rule load_from_local_wf [OF assms])
  show "ok \<longrightarrow> loaded_from_local ai'"
    using assms(2)
    by (auto simp: load_from_local_def Let_def drop_outdated_headers_def notify_core_outgoing_msg_count_def
        with_storage_def split: if_splits option.splits prod.splits)
qed

text \<open>
  C21: without deletions, a block of headers is merged key by key: what the index holds for an id
  afterwards is what it held before, merged in order with the headers of that id and no others.
\<close>

theorem insert_block_merges:
  assumes "index_wf (headers_index ai)" and "list_all (\<lambda>h. \<not> is_deleted h) hs"
    and "list_all (\<lambda>e. \<not> is_deleted (snd e)) (headers_index ai)"
  shows "ai_get_header k (snd (insert_block hs now ai)) =
    fold (\<lambda>h acc. Some (case acc of None \<Rightarrow> h | Some old \<Rightarrow> merge_with old h))
      (filter (\<lambda>h. get_id h = k) hs) (ai_get_header k ai)"
proof -
  have keyed: "fold (\<lambda>e acc. Some (case acc of None \<Rightarrow> snd e | Some old \<Rightarrow> merge_with old (snd e)))
      (filter (\<lambda>e. fst e = k) (map (\<lambda>h. (get_id h, h)) hs)) m =
    fold (\<lambda>h acc. Some (case acc of None \<Rightarrow> h | Some old \<Rightarrow> merge_with old h)) (filter (\<lambda>h. get_id h = k) hs) m" for m
    by (simp add: filter_map fold_map comp_def cong: option.case_cong)
  have "om_wf (headers_index ai)" using assms(1) by (simp add: index_wf_def)
  then show ?thesis
    using insert_headers_fold [OF assms(2,3), of now]
    by (simp add: ai_get_header_def insert_block_def case_prod_beta notify_core_outgoing_msg_count_def
        omap.lookup_fold_upsert keyed)
qed



theorem index_operations_wf_witness:
  "index_wf (headers_index (delete_up_to 2 sample_index)) \<and>
   index_wf (headers_index (snd (insert_block [patch_message 3 [flag_patch]] 0 sample_index)))"
  using index_operations_wf [OF sample_index_wf, of "[patch_message 3 [flag_patch]]" 0 2]
  by (simp add: patch_message_def make_header_def get_id_def)

theorem load_any_file_wf_witness:
  "\<exists>ai'. load_from_local 0 (archive_index_new (closed_storage\<lparr>disk_file := Some ''garbage''\<rparr>)) = Some (False, ai') \<and>
    index_wf (headers_index ai')"
proof -
  let ?ai = "archive_index_new (closed_storage\<lparr>disk_file := Some ''garbage''\<rparr>)"
  have wf: "index_wf (headers_index ?ai)" by (simp add: archive_index_new_def)
  have "case load_from_local 0 ?ai of Some (ok, ai') \<Rightarrow> \<not> ok | None \<Rightarrow> False" by code_simp
  then obtain ai' where run: "load_from_local 0 ?ai = Some (False, ai')"
    by (auto split: option.splits)
  with load_any_file_wf [OF wf run] show ?thesis by blast
qed

theorem insert_block_merges_witness:
  "ai_get_header 3 (snd (insert_block [patch_message 3 [flag_patch, flag_modified], plain_message 9 4] 0 sample_index)) =
    Some (merge_with (plain_message 3 2) (patch_message 3 [flag_patch, flag_modified]))"
proof -
  let ?hs = "[patch_message 3 [flag_patch, flag_modified], plain_message 9 4]"
  have ok: "list_all (\<lambda>h. \<not> is_deleted h) ?hs" "list_all (\<lambda>e. \<not> is_deleted (snd e)) (headers_index sample_index)"
    by code_simp+
  have "get_id (patch_message 3 [flag_patch, flag_modified]) = 3" "get_id (plain_message 9 4) = 9"
    "ai_get_header 3 sample_index = Some (plain_message 3 2)"
    by (simp_all add: patch_message_def plain_message_def make_header_def get_id_def ai_get_header_def sample_index_def)
  with insert_block_merges [OF sample_index_wf ok, of 3 0] show ?thesis by simp
qed

text \<open>
  The repair looks only at the entry that follows in the index, and that one may itself be deleted.
  Deleting two adjacent messages of a connected history, the newer one first, leaves the next visible
  message linked to the older of the two: the search reports a hole where the history has none.
\<close>

theorem adjacent_deletes_open_hole:
  "let d = (\<lambda>i. patch_message i [flag_patch, flag_deleted]);
       one = snd (insert_header (d 3) 0 sample_index);
       two = snd (insert_header (d 2) 0 one)
   in linked (visible (rev (headers_index sample_index))) \<and>
      get_next_hole (-1) hole_new (-1) one = (hole_last_reached, hole_new) \<and>
      map fst (visible (headers_index two)) = [1, 4] \<and>
      get_next_hole (-1) hole_new (-1) two =
        (hole_ok, \<lparr>hole_from = 4, hole_to = 1, hole_depth = 1\<rparr>)"
  by code_simp

text \<open>
  a range towards newer messages is the first of the visible headers, in ascending order, from the
  given id on, as many as were asked for.
\<close>

theorem serialize_from_later:
  assumes "index_wf (headers_index ai)" and "ai_has_header from_id ai" and "0 < later"
  shows "serialize_from from_id 0 later incl [] ai =
    (True, map snd (take (nat later) (visible (filter (\<lambda>e. from_id \<le> fst e) (headers_index ai)))))"
proof -
  let ?idx = "headers_index ai"
  have wf: "om_wf ?idx" using assms(1) by (simp add: index_wf_def)
  obtain h where h: "(from_id, h) \<in> set ?idx"
    using assms(2) by (auto simp: ai_has_header_def dest: map_of_SomeD)
  have pos: "0 < from_id" using assms(1) h by (auto simp: index_wf_def list_all_iff entry_ok_def)
  have ne: "filter (\<lambda>e. from_id \<le> fst e) ?idx \<noteq> []" using h by (force simp: filter_empty_conv)
  have "snd (om_lower_bound from_id ?idx) = filter (\<lambda>e. from_id \<le> fst e) ?idx"
    by (rule om_lower_bound_parts(2) [OF wf])
  moreover from this obtain b where "om_lower_bound from_id ?idx = (b, filter (\<lambda>e. from_id \<le> fst e) ?idx)"
    by (cases "om_lower_bound from_id ?idx") auto
  moreover have "?idx \<noteq> []" using h by auto
  ultimately show ?thesis using ne pos assms(3) by (simp add: serialize_from_def later_loop_eq)
qed

theorem serialize_from_later_witness:
  "map get_id (snd (serialize_from 2 0 2 False [] sample_index)) = [2, 3]"
proof -
  have ok: "ai_has_header 2 sample_index" "(0 :: int) < 2"
    "map (get_id \<circ> snd) (take 2 (visible (filter (\<lambda>e. 2 \<le> fst e) (headers_index sample_index)))) = [2, 3]"
    by code_simp+
  with serialize_from_later [OF sample_index_wf ok(1,2), of False] show ?thesis by simp
qed

text \<open>
  a range towards older messages takes the newest entries before the given id that are not
  patches, deleted ones included, and stops when it has as many undeleted ones as were asked for, or
  at the beginning of the index.
\<close>

theorem serialize_from_early:
  assumes "index_wf (headers_index ai)" and "ai_has_header from_id ai" and "0 < early" and "later \<le> 0"
  shows "\<exists>p q. filter (\<lambda>e. \<not> is_patch (snd e)) (rev (filter (\<lambda>e. fst e < from_id) (headers_index ai))) = p @ q \<and>
    serialize_from from_id early later False [] ai = (True, rev (map snd p)) \<and>
    length (visible p) = min (nat early) (length (visible (filter (\<lambda>e. fst e < from_id) (headers_index ai)))) \<and>
    (q \<noteq> [] \<longrightarrow> length (visible p) = nat early)"
proof -
  let ?idx = "headers_index ai" and ?es = "filter (\<lambda>e. fst e < from_id) (headers_index ai)"
  have wf: "om_wf ?idx" using assms(1) by (simp add: index_wf_def)
  obtain h where h: "(from_id, h) \<in> set ?idx"
    using assms(2) by (auto simp: ai_has_header_def dest: map_of_SomeD)
  have pos: "0 < from_id" using assms(1) h by (auto simp: index_wf_def list_all_iff entry_ok_def)
  have ne: "filter (\<lambda>e. from_id \<le> fst e) ?idx \<noteq> []" using h by (force simp: filter_empty_conv)
  have lb: "om_lower_bound from_id ?idx = (?es, filter (\<lambda>e. from_id \<le> fst e) ?idx)"
    using om_lower_bound_parts [OF wf, of from_id] by (simp add: prod_eq_iff)
  have ser: "serialize_from from_id early later False [] ai = (True, early_loop early 0 (rev ?es) [])"
    using h ne pos assms(3,4) by (auto simp: serialize_from_def lb)
  have "length (visible (rev ?es)) = length (visible ?es)" by (simp add: visible_def rev_filter [symmetric])
  moreover obtain p q where "filter (\<lambda>e. \<not> is_patch (snd e)) (rev ?es) = p @ q"
    "early_loop early 0 (rev ?es) [] = rev (map snd p) @ []"
    "length (visible p) = min (nat (early - 0)) (length (visible (rev ?es)))"
    "q \<noteq> [] \<longrightarrow> int (length (visible p)) = early - 0"
    using early_loop_spec [of 0 early "rev ?es" "[]"] assms(3) by auto
  ultimately show ?thesis using ser assms(3) by (intro exI [of _ p] exI [of _ q]) auto
qed

theorem serialize_from_early_witness:
  "\<exists>p. serialize_from 4 2 0 False [] sample_index = (True, rev (map snd p)) \<and> length (visible p) = 2"
proof -
  have ok: "ai_has_header 4 sample_index" "(0 :: int) < 2" "(0 :: int) \<le> 0"
    "length (visible (filter (\<lambda>e. fst e < 4) (headers_index sample_index))) = 3"
    by code_simp+
  from serialize_from_early [OF sample_index_wf ok(1-3)] ok(4) show ?thesis by auto
qed

text \<open>
  C4: the search for a hole from the newest message, without a depth limit. Either the chain of visible
  messages is connected down to the first message of the history and nothing is reported; or it is
  connected and its oldest message has a predecessor that is missing, which is reported; or the newest
  place where two neighbours are not linked is reported, with both ids and its depth.
\<close>

theorem next_hole_spec:
  assumes "visible (headers_index ai) \<noteq> []"
  shows "let vs = visible (rev (headers_index ai)); res = get_next_hole (-1) hole_new (-1) ai;
      oldest = snd (last vs)
    in (linked vs \<and> get_prev_msgid oldest = -1 \<and> res = (hole_last_reached, hole_new)) \<or>
       (linked vs \<and> get_prev_msgid oldest \<noteq> -1 \<and> res = (hole_ok, hole_new\<lparr>hole_from := get_id oldest\<rparr>)) \<or>
       (\<exists>p a b q. vs = p @ a # b # q \<and> linked (p @ [a]) \<and> \<not> links_to a b \<and>
          res = (hole_ok, \<lparr>hole_from = get_id (snd a), hole_to = get_id (snd b), hole_depth = int (length p) + 1\<rparr>))"
proof -
  let ?es = "skip_patches_and_deleted_forward (rev (headers_index ai))"
  have "visible (rev (headers_index ai)) \<noteq> []" using assms by (simp add: visible_def rev_filter [symmetric])
  then have "?es \<noteq> []" by (simp add: skip_Nil_iff)
  then obtain e es' where es: "?es = e # es'" by (cases ?es) auto
  have e: "\<not> is_patch (snd e)" "\<not> is_deleted (snd e)" using skip_Cons [OF es] by blast+
  have "headers_index ai \<noteq> []" using assms by auto
  then have res: "get_next_hole (-1) hole_new (-1) ai = hole_loop ?es 0 (-1) hole_new"
    using es by (simp add: get_next_hole_def Let_def)
  obtain r hole' where run: "hole_loop ?es 0 (-1) hole_new = (r, hole')" by fastforce
  have depth: "hole_new\<lparr>hole_from := x, hole_to := y, hole_depth := 0 + z + 1\<rparr> =
      \<lparr>hole_from = x, hole_to = y, hole_depth = z + 1\<rparr>" for x y z by (simp add: hole_new_def)
  show ?thesis
    using hole_loop_spec [OF es e run] unfolding Let_def res run visible_skip depth prod.inject by blast
qed

theorem next_hole_spec_witness:
  "get_next_hole (-1) hole_new (-1) sample_index = (hole_last_reached, hole_new)"
proof -
  have ok: "visible (headers_index sample_index) \<noteq> []" "linked (visible (rev (headers_index sample_index)))"
    "get_prev_msgid (snd (last (visible (rev (headers_index sample_index))))) = -1"
    by code_simp+
  have split: "linked (p @ a # b # q) \<Longrightarrow> links_to a b" for p a b q by (simp add: linked_append)
  from next_hole_spec [OF ok(1)] ok(2,3) split show ?thesis by (auto simp: Let_def)
qed

text \<open>
  a connected history that reaches its beginning has no hole around any message, whatever ranges
  are asked for.
\<close>

theorem connected_no_hole:
  assumes "visible (headers_index ai) \<noteq> []" and "linked (visible (rev (headers_index ai)))"
    and "get_prev_msgid (snd (hd (visible (headers_index ai)))) = -1"
  shows "\<not> has_hole_in_range msgid before after ai"
proof -
  let ?es = "skip_patches_and_deleted_forward (rev (headers_index ai))"
  have rev: "visible (rev (headers_index ai)) = rev (visible (headers_index ai))"
    by (simp add: visible_def rev_filter)
  then have "?es \<noteq> []" using assms(1) by (simp add: skip_Nil_iff)
  then obtain e es' where es: "?es = e # es'" by (cases ?es) auto
  have e: "\<not> is_patch (snd e)" "\<not> is_deleted (snd e)" using skip_Cons [OF es] by blast+
  have "linked (visible ?es)" "get_prev_msgid (snd (last (visible ?es))) = -1"
    using assms(2,3) by (simp_all add: rev last_rev assms(1))
  from range_loop_linked [OF es e this] es show ?thesis by (simp add: has_hole_in_range_def Let_def)
qed

theorem connected_no_hole_witness:
  "\<not> has_hole_in_range 3 2 1 sample_index"
proof -
  have "visible (headers_index sample_index) \<noteq> []" "linked (visible (rev (headers_index sample_index)))"
    "get_prev_msgid (snd (hd (visible (headers_index sample_index)))) = -1"
    by code_simp+
  then show ?thesis by (rule connected_no_hole)
qed



text \<open>
  C39: optimizing keeps the newest 25000 headers and drops the older ones, never leaves more than the
  size that asks for it, resets the count of merges, and cuts the chain cleanly: the oldest header left
  of a shortened index is the first of the history.
\<close>

theorem optimize_keeps_newest:
  shows "map fst (headers_index (optimize ai)) =
      (if need_optimize ai then drop (length (headers_index ai) - max_index_size) (map fst (headers_index ai))
       else map fst (headers_index ai)) \<and>
    length (headers_index (optimize ai)) \<le> index_size_need_optimize \<and>
    (need_optimize ai \<longrightarrow> merged_count (optimize ai) = 0) \<and>
    (need_optimize ai \<and> max_index_size < length (headers_index ai) \<longrightarrow>
      get_prev_msgid (snd (hd (headers_index (optimize ai)))) = -1)"
proof (intro conjI)
  let ?idx = "headers_index ai"
  have cut: "map fst (case es of [] \<Rightarrow> [] | (k, h) # rest \<Rightarrow> (k, set_prev_msgid (-1) h) # rest) = map fst es"
    for es :: headers_map by (cases es) auto
  have n: "0 < int (length ?idx) - int max_index_size \<longleftrightarrow> max_index_size < length ?idx"
    "nat (int (length ?idx) - int max_index_size) = length ?idx - max_index_size" by auto
  show "map fst (headers_index (optimize ai)) =
      (if need_optimize ai then drop (length ?idx - max_index_size) (map fst ?idx) else map fst ?idx)"
    by (simp add: optimize_def Let_def cut drop_map n)
  show "length (headers_index (optimize ai)) \<le> index_size_need_optimize" by (rule optimize_bound)
  show "need_optimize ai \<longrightarrow> merged_count (optimize ai) = 0" by (simp add: optimize_def Let_def)
  show "need_optimize ai \<and> max_index_size < length ?idx \<longrightarrow>
      get_prev_msgid (snd (hd (headers_index (optimize ai)))) = -1"
  proof (intro impI)
    assume "need_optimize ai \<and> max_index_size < length ?idx"
    moreover from this obtain k h rest where "drop (length ?idx - max_index_size) ?idx = (k, h) # rest"
      by (cases "drop (length ?idx - max_index_size) ?idx") (auto simp: max_index_size_def)
    ultimately show "get_prev_msgid (snd (hd (headers_index (optimize ai)))) = -1"
      by (simp add: optimize_def Let_def n set_prev_msgid_def get_prev_msgid_def)
  qed
qed

theorem optimize_keeps_newest_witness:
  "map fst (headers_index (optimize (sample_index\<lparr>merged_count := 1, loaded_from_local := True\<rparr>))) = [1, 2, 3, 4]"
  using optimize_keeps_newest [of "sample_index\<lparr>merged_count := 1, loaded_from_local := True\<rparr>"]
  by (simp add: sample_index_def max_index_size_def)

end
