(* ===== verification/Index_File.thy ===== *)
theory Index_File
  imports Index_Facts
begin

text \<open>
  The index through its file: what \<open>save_all\<close> writes, block by block, is what \<open>load_from_local\<close>
  inserts again.
\<close>

definition header_field :: "message_header \<Rightarrow> field" where
  "header_field h = (type_header, header_enc (hfields h))"

definition payload :: "headers_list \<Rightarrow> byte list" where
  "payload hs = concat (map (\<lambda>h. tlv_enc (header_field h)) hs)"

definition encodable :: "message_header \<Rightarrow> bool" where
  "encodable h \<longleftrightarrow> storable (hfields h) \<and> length (version_string (h_patch_version (hfields h))) \<le> 900"

lemma length_header_enc_le:
  "length (header_enc f) \<le> 50 + length (version_string (h_patch_version f))"
  by (simp add: header_enc_def Let_def)

lemma length_header_enc_ge: "41 \<le> length (header_enc f)"
  by (simp add: header_enc_def Let_def)

lemma encodable_field: "encodable h \<Longrightarrow> field_ok (header_field h)"
  using length_header_enc_le [of "hfields h"]
  by (simp add: encodable_def field_ok_def header_field_def)

subsection \<open>Writing\<close>

lemma header_serialize_output [simp]: "output_cursor (header_serialize h s) = output_cursor s"
  by (simp add: header_serialize_def Let_def)

lemma headers_to_pack_fields:
  "list_all encodable hs \<Longrightarrow> list_all tlv_wf (tlvlist p) \<Longrightarrow>
    list_all tlv_wf (tlvlist (headers_to_pack hs s0 p)) \<and>
    map tlv_field (tlvlist (headers_to_pack hs s0 p)) = map tlv_field (tlvlist p) @ map header_field hs"
proof (induction hs arbitrary: s0 p)
  case (Cons h hs)
  let ?s = "header_serialize h (bs_reset s0)"
  let ?t = "tlv_of_stream type_header ?s"
  have s: "bs_wf ?s" "bs_pending ?s = header_enc (hfields h)"
    using header_serialize_pending [of "bs_reset s0" h] by simp_all
  have "tlv_field ?t = header_field h"
    by (simp add: tlv_field_def tlv_of_stream_def tlv_set_stream_def tlv_set_type_def tlv_new_def
        header_field_def s(2))
  moreover from this have "tlv_wf ?t"
    using s(1) encodable_field [of h] Cons.prems(1)
    by (simp add: tlv_wf_def tlv_of_stream_def tlv_set_stream_def bs_reset_def)
  ultimately show ?case
    using Cons.IH [of "tlvpack_push_child ?t p" ?s] Cons.prems
    by (simp add: Let_def tlvpack_push_child_def)
qed simp

lemma serialize_block_pending:
  assumes "list_all encodable hs" and "bs_wf data"
  shows "bs_wf (serialize_block hs data)"
    and "bs_pending (serialize_block hs data) = bs_pending data @ payload hs"
proof -
  let ?p = "headers_to_pack hs bs_new tlvpack_new"
  have p: "list_all tlv_wf (tlvlist ?p)" "map tlv_field (tlvlist ?p) = map header_field hs"
    using headers_to_pack_fields [OF assms(1), of tlvpack_new bs_new] by (simp_all add: tlvpack_new_def)
  have "concat (map (tlv_enc \<circ> tlv_field) (tlvlist ?p)) = payload hs"
    unfolding payload_def map_map [symmetric] p(2) by (simp add: comp_def)
  then show "bs_wf (serialize_block hs data)"
    and "bs_pending (serialize_block hs data) = bs_pending data @ payload hs"
    using tlvpack_serialize_refines(2,3) [OF p(1) assms(2)] by (simp_all add: serialize_block_def)
qed

subsection \<open>Reading\<close>

lemma header_unserialize_new:
  assumes "bs_wf s" and "storable f" and "bs_pending s = header_enc f @ rest"
  shows "\<exists>s'. header_unserialize header_new s = Some (True, Message_Header (persisted f) [], s') \<and>
    bs_wf s' \<and> bs_pending s' = rest"
  using header_unserialize_enc [OF assms, of header_new] by (simp add: header_new_def)

definition reread :: "message_header \<Rightarrow> message_header" where
  "reread h = Message_Header (persisted (hfields h)) []"

fun replay :: "headers_list \<Rightarrow> int \<Rightarrow> archive_index \<Rightarrow> archive_index" where
  "replay [] now ai = ai"
| "replay (h # hs) now ai = replay hs now (snd (insert_header (reread h) now ai))"

lemma replay_append: "replay (xs @ ys) now ai = replay ys now (replay xs now ai)"
  by (induction xs arbitrary: ai) auto

lemma insert_header_with_storage:
  "snd (insert_header h now (ai\<lparr>ai_storage := st\<rparr>)) = (snd (insert_header h now ai))\<lparr>ai_storage := st\<rparr>"
  by (simp add: insert_header_def Let_def split: option.splits)

lemma replay_with_storage: "replay hs now (ai\<lparr>ai_storage := st\<rparr>) = (replay hs now ai)\<lparr>ai_storage := st\<rparr>"
  by (induction hs arbitrary: ai) (simp_all add: insert_header_with_storage)

lemma unserialize_block_payload:
  "list_all encodable hs \<Longrightarrow> bs_wf s \<Longrightarrow> bs_pending s = payload hs \<Longrightarrow>
    \<exists>s'. unserialize_block s now ai = Some (True, s', replay hs now ai) \<and> bs_wf s'"
proof (induction hs arbitrary: s ai)
  case Nil
  then show ?case
    by (subst unserialize_block.simps) (simp add: payload_def bs_available_pending)
next
  case (Cons h hs)
  let ?e = "header_enc (hfields h)"
  let ?n = "word_of_nat (length ?e) :: u32"
  have len: "unat ?n = length ?e"
    using encodable_field [of h] Cons.prems(1) by (simp add: field_ok_def header_field_def)
  have p: "bs_pending s = word_bytes 4 type_header @ word_bytes 4 ?n @ ?e @ payload hs"
    using Cons.prems(3) by (simp add: payload_def header_field_def tlv_enc_def)
  obtain s1 where 1: "bs_read_u32 s = Some (type_header, s1)" "bs_wf s1"
    "bs_pending s1 = word_bytes 4 ?n @ ?e @ payload hs"
    by (rule bs_read_u32_ok [OF Cons.prems(2) p])
  obtain s2 where 2: "bs_read_u32 s1 = Some (?n, s2)" "bs_wf s2" "bs_pending s2 = ?e @ payload hs"
    by (rule bs_read_u32_ok [OF 1(2,3)])
  obtain s3 where 3: "header_unserialize header_new s2 = Some (True, reread h, s3)" "bs_wf s3"
    "bs_pending s3 = payload hs"
    using header_unserialize_new [OF 2(2) _ 2(3)] Cons.prems(1) by (auto simp: encodable_def reread_def)
  have av: "bs_available s = int (8 + length ?e + length (payload hs))"
    using Cons.prems(2) p by (simp add: bs_available_pending)
  then have "\<not> bs_available s < 8" "\<not> bs_available s < int (length ?e)" by linarith+
  then have no: "(bs_available s = 0) = False" "(bs_available s < 8) = False"
    "(bs_available s < int (unat ?n)) = False"
    unfolding len by auto
  have "unserialize_block s now ai = unserialize_block s3 now (snd (insert_header (reread h) now ai))"
    by (subst unserialize_block.simps)
      (simp only: Let_def no if_False 1(1) 2(1) 3(1) option.case prod.case simp_thms)
  with Cons.IH [OF _ 3(2,3), of "snd (insert_header (reread h) now ai)"] Cons.prems(1) show ?case
    by simp
qed

lemma load_blocks_log:
  "list_all (list_all encodable) bs \<Longrightarrow> list_all (\<lambda>b. block_ok (payload b)) bs \<Longrightarrow>
    reading (ai_storage ai) (concat (map (\<lambda>b. frame (payload b)) bs)) \<Longrightarrow> bs_wf data \<Longrightarrow> bs_pending data = [] \<Longrightarrow>
    \<exists>st'. load_blocks data now ai = Some (True, (replay (concat bs) now ai)\<lparr>ai_storage := st'\<rparr>) \<and>
      last_error st' = end_of_file \<and> disk_file st' = disk_file (ai_storage ai)"
proof (induction bs arbitrary: ai data)
  case Nil
  with read_data_block_eof [of "ai_storage ai" data] show ?case
    by (subst load_blocks.simps) auto
next
  case (Cons b bs)
  let ?rest = "concat (map (\<lambda>b. frame (payload b)) bs)"
  have ok: "block_ok (payload b)" "list_all encodable b" using Cons.prems by auto
  then have le: "length (payload b) \<le> max_data_block_size" by (simp add: block_ok_def)
  obtain data' st where r: "read_data_block (-1) data (ai_storage ai) = Some (True, data', st)"
    "bs_wf data'" "bs_pending data' = payload b" "reading st ?rest" "same_file (ai_storage ai) st"
    using read_data_block_frame [OF _ le Cons.prems(4), of "ai_storage ai" ?rest] Cons.prems(3,5) by auto
  obtain s' where u: "unserialize_block data' now (ai\<lparr>ai_storage := st\<rparr>) =
      Some (True, s', replay b now (ai\<lparr>ai_storage := st\<rparr>))"
    using unserialize_block_payload [OF ok(2) r(2,3)] by blast
  let ?ai = "(replay b now ai)\<lparr>ai_storage := st\<rparr>"
  have "load_blocks data now ai = load_blocks (bs_reset s') now ?ai"
    by (subst load_blocks.simps) (simp add: r(1) u replay_with_storage)
  moreover have "\<exists>st'. load_blocks (bs_reset s') now ?ai =
      Some (True, (replay (concat bs) now ?ai)\<lparr>ai_storage := st'\<rparr>) \<and>
      last_error st' = end_of_file \<and> disk_file st' = disk_file st"
    using Cons.IH [of ?ai "bs_reset s'"] Cons.prems(1,2) r(4) by simp
  ultimately show ?case
    using r(5) by (simp add: replay_with_storage replay_append same_file_def)
qed

subsection \<open>The blocks that \<open>save_all\<close> writes\<close>

definition flat :: "message_header \<Rightarrow> headers_list" where
  "flat h = h # (if is_modified h then modifications h else [])"

fun save_chunks :: "headers_map \<Rightarrow> headers_list \<Rightarrow> headers_list list" where
  "save_chunks [] hs = []"
| "save_chunks ((k, h) # rest) hs =
    (let hs = hs @ flat h
     in if history_block_size \<le> length hs \<or> rest = [] then hs # save_chunks rest []
        else save_chunks rest hs)"

lemma concat_save_chunks:
  "es \<noteq> [] \<Longrightarrow> concat (save_chunks es hs) = hs @ concat (map (flat \<circ> snd) es)"
proof (induction es hs rule: save_chunks.induct)
  case (2 k h rest hs)
  then show ?case by (cases "rest = []") (auto simp: Let_def)
qed simp

lemma save_loop_Cons:
  "save_loop ((k, h) # rest) hs bd st =
    (if history_block_size \<le> length (hs @ flat h) \<or> rest = []
     then (let w = write_data_block (serialize_block (hs @ flat h) bd) 0 st
           in if \<not> fst (fst w) then (False, snd (snd (snd w)))
              else save_loop rest [] (bs_reset (fst (snd (snd w)))) (snd (snd (snd w))))
     else save_loop rest (hs @ flat h) bd st)"
  by (simp add: flat_def Let_def case_prod_beta)

declare save_loop.simps(2) [simp del]

lemma save_loop_env:
  "folder_ok (snd (save_loop es hs bd st)) = folder_ok st \<and> open_ok (snd (save_loop es hs bd st)) = open_ok st"
proof (induction es arbitrary: hs bd st)
  case (Cons e es)
  then show ?case by (cases e) (simp add: save_loop_Cons Let_def)
qed simp

definition log_size :: "headers_list list \<Rightarrow> nat" where
  "log_size bs = sum_list (map (\<lambda>b. 16 + length (payload b)) bs)"

lemma save_loop_writes:
  "appending st \<Longrightarrow> bs_wf bd \<Longrightarrow> bs_pending bd = [] \<Longrightarrow>
    list_all (list_all encodable) (save_chunks es hs) \<Longrightarrow>
    list_all (\<lambda>b. block_ok (payload b)) (save_chunks es hs) \<Longrightarrow>
    log_size (save_chunks es hs) \<le> room st \<Longrightarrow>
    \<exists>st'. save_loop es hs bd st = (True, st') \<and>
      contents st' = contents st @ concat (map (\<lambda>b. frame (payload b)) (save_chunks es hs)) \<and>
      (disk_file st' = None \<longrightarrow> es = [] \<and> disk_file st = None)"
proof (induction es arbitrary: hs bd st)
  case (Cons e rest)
  obtain k h where e: "e = (k, h)" by (cases e)
  note prems = Cons.prems [unfolded e]
  let ?hs = "hs @ flat h"
  show ?case
  proof (cases "history_block_size \<le> length ?hs \<or> rest = []")
    case True
    let ?bd = "serialize_block ?hs bd"
    have chunks: "save_chunks ((k, h) # rest) hs = ?hs # save_chunks rest []"
      using True by (simp add: Let_def)
    have enc: "list_all encodable ?hs" and ok: "block_ok (payload ?hs)"
      and small: "16 + length (payload ?hs) + log_size (save_chunks rest []) \<le> room st"
      using prems(4-6) unfolding chunks by (auto simp: log_size_def)
    have bd: "bs_wf ?bd" "bs_pending ?bd = payload ?hs"
      using serialize_block_pending [OF enc prems(2)] prems(3) by simp_all
    obtain data' st1 where w: "write_data_block ?bd 0 st = ((True, 0), int (length (contents st)), data', st1)"
      "contents st1 = contents st @ frame (payload ?hs)" "room st1 = room st - (16 + length (payload ?hs))"
      "appending st1" "disk_file st1 \<noteq> None"
      using write_data_block_appending(1) [OF prems(1) bd(1), of 0] ok block_ok_less [OF ok] small
      by (auto simp: bd(2) block_ok_def)
    have step: "save_loop ((k, h) # rest) hs bd st = save_loop rest [] (bs_reset data') st1"
      using True w(1) by (simp add: save_loop_Cons Let_def)
    have "\<exists>st'. save_loop rest [] (bs_reset data') st1 = (True, st') \<and>
        contents st' = contents st1 @ concat (map (\<lambda>b. frame (payload b)) (save_chunks rest [])) \<and>
        (disk_file st' = None \<longrightarrow> rest = [] \<and> disk_file st1 = None)"
    proof (rule Cons.IH)
      show "log_size (save_chunks rest []) \<le> room st1" using small w(3) by linarith
    qed (use w prems(4,5) chunks in auto)
    with step w show ?thesis unfolding e chunks by auto
  next
    case False
    have chunks: "save_chunks ((k, h) # rest) hs = save_chunks rest ?hs"
      using False by (simp add: Let_def)
    have step: "save_loop ((k, h) # rest) hs bd st = save_loop rest ?hs bd st"
      using False by (simp add: save_loop_Cons)
    from False have "rest \<noteq> []" by simp
    with Cons.IH [OF prems(1-3), of ?hs] prems(4-6) show ?thesis
      unfolding e step chunks by simp
  qed
qed (auto simp: log_size_def)

subsection \<open>The whole way\<close>

lemma save_all_writes:
  assumes "disk_ready (ai_storage ai)"
    and "list_all (list_all encodable) (save_chunks (headers_index ai) [])"
    and "list_all (\<lambda>b. block_ok (payload b)) (save_chunks (headers_index ai) [])"
    and "log_size (save_chunks (headers_index ai) []) \<le> room (ai_storage ai)"
  shows "\<exists>ai'. save_all ai = (True, ai') \<and> disk_ready (ai_storage ai') \<and>
    disk_file (ai_storage ai') =
      Some (concat (map (\<lambda>b. frame (payload b)) (save_chunks (headers_index ai) [])))"
proof -
  obtain st where st: "st_open (no_mode\<lparr>mode_write := True, mode_truncate := True\<rparr>) (ai_storage ai) = (True, st)"
    "appending st" "contents st = []" "room st = room (ai_storage ai)" "folder_ok st" "open_ok st"
    "disk_file st = Some []"
    using st_open_write [OF assms(1)] by blast
  obtain st' where st': "save_loop (headers_index ai) [] bs_new st = (True, st')"
    "contents st' = concat (map (\<lambda>b. frame (payload b)) (save_chunks (headers_index ai) []))"
    "disk_file st' \<noteq> None"
    using save_loop_writes [OF st(2) bs_new_wf bs_new_pending assms(2,3)] assms(4) st(3,4,7) by auto
  have env: "folder_ok st'" "open_ok st'"
    using save_loop_env [of "headers_index ai" "[]" bs_new st] st(5,6) st'(1) by auto
  have df: "disk_file st' = Some (contents st')" using st'(3) by (auto simp: contents_def)
  show ?thesis
  proof (cases "headers_index ai = []")
    case True
    then show ?thesis
      using st by (auto simp: save_all_def disk_ready_def st_close_def)
  next
    case False
    then show ?thesis
      using st(1) st' env df by (auto simp: save_all_def disk_ready_def st_close_def)
  qed
qed

lemma after_load_with_storage:
  "drop_outdated_headers now (ai\<lparr>ai_storage := st, loaded_from_local := b\<rparr>) =
    (drop_outdated_headers now (ai\<lparr>loaded_from_local := b\<rparr>))\<lparr>ai_storage := st\<rparr>"
  "notify_core_outgoing_msg_count (ai\<lparr>ai_storage := st\<rparr>) = (notify_core_outgoing_msg_count ai)\<lparr>ai_storage := st\<rparr>"
  by (simp_all add: drop_outdated_headers_def notify_core_outgoing_msg_count_def get_outgoing_count_def Let_def)

lemma load_from_local_log:
  assumes "disk_ready st" and "disk_file st = Some (concat (map (\<lambda>b. frame (payload b)) bs))"
    and "list_all (list_all encodable) bs" and "list_all (\<lambda>b. block_ok (payload b)) bs"
  shows "\<exists>st'. load_from_local now (archive_index_new st) = Some (True,
    with_storage (\<lambda>_. st') (notify_core_outgoing_msg_count (drop_outdated_headers now
      ((replay (concat bs) now (archive_index_new st))\<lparr>loaded_from_local := True\<rparr>))))"
proof -
  let ?log = "concat (map (\<lambda>b. frame (payload b)) bs)"
  obtain st1 where st1: "st_open (no_mode\<lparr>mode_read := True\<rparr>) st = (True, st1)" "reading st1 ?log"
    using st_open_read [OF assms(1,2)] by blast
  let ?ai = "(archive_index_new st)\<lparr>ai_storage := st1\<rparr>"
  have ai: "(archive_index_new st)\<lparr>ai_last_error := error_ok, ai_storage := st1,
      headers_index := [], outgoing_count := 0, merged_count := 0\<rparr> = ?ai"
    by (simp add: archive_index_new_def)
  let ?R = "replay (concat bs) now (archive_index_new st)"
  obtain st2 where st2: "load_blocks bs_new now ?ai = Some (True, ?R\<lparr>ai_storage := st2\<rparr>)"
    "last_error st2 = end_of_file"
    using load_blocks_log [OF assms(3,4), of ?ai bs_new now] st1(2) by (auto simp: replay_with_storage)
  have "load_from_local now (archive_index_new st) = Some (True,
      with_storage (\<lambda>_. st_close st2) (notify_core_outgoing_msg_count (drop_outdated_headers now
        (?R\<lparr>loaded_from_local := True\<rparr>))))"
    using st2 unfolding load_from_local_def
    by (simp add: st1(1) ai [symmetric] Let_def with_storage_def archive_index_new_def after_load_with_storage)
  then show ?thesis by blast
qed

subsection \<open>An index without merged patches comes back unchanged\<close>

definition plain :: "message_header \<Rightarrow> bool" where
  "plain h \<longleftrightarrow> encodable h \<and> modifications h = [] \<and> h_version (hfields h) = header_version \<and>
     offline_version (h_patch_version (hfields h)) = 0"

lemma plain_dest:
  assumes "plain h"
  shows "reread h = h" and "flat h = [h]" and "encodable h"
  using assms
  by (cases h; cases "h_patch_version (hfields h)";
      simp add: plain_def reread_def persisted_def header_version_def flat_def)+

lemma payload_bounds:
  assumes "list_all encodable hs"
  shows "length (payload hs) \<le> 958 * length hs" and "hs \<noteq> [] \<Longrightarrow> 0 < length (payload hs)"
proof -
  have one: "encodable h \<Longrightarrow> length (tlv_enc (header_field h)) \<le> 958" for h
    using length_header_enc_le [of "hfields h"] by (simp add: encodable_def tlv_enc_def header_field_def)
  show "length (payload hs) \<le> 958 * length hs"
    using assms
  proof (induction hs)
    case (Cons h hs)
    with one [of h] show ?case by (simp add: payload_def)
  qed (simp add: payload_def)
  show "hs \<noteq> [] \<Longrightarrow> 0 < length (payload hs)"
    by (cases hs) (simp_all add: payload_def tlv_enc_def)
qed

lemma save_chunks_plain:
  "list_all (\<lambda>e. plain (snd e)) es \<Longrightarrow> list_all plain hs \<Longrightarrow> length hs < history_block_size \<Longrightarrow>
    list_all (\<lambda>b. list_all plain b \<and> b \<noteq> [] \<and> length b \<le> history_block_size) (save_chunks es hs)"
proof (induction es hs rule: save_chunks.induct)
  case (2 k h rest hs)
  then have "flat h = [h]" using plain_dest(2) [of h] by simp
  with 2 show ?case by (auto simp: Let_def history_block_size_def)
qed simp

lemma plain_block_ok:
  assumes "list_all plain b" and "b \<noteq> []" and "length b \<le> history_block_size"
  shows "block_ok (payload b)"
proof -
  have enc: "list_all encodable b" using assms(1) by (auto simp: list_all_iff plain_def)
  from payload_bounds [OF enc] assms(2,3) show ?thesis
    by (auto simp: block_ok_def max_data_block_size_def history_block_size_def)
qed

lemma log_size_plain:
  "list_all (\<lambda>b. list_all plain b \<and> b \<noteq> []) bs \<Longrightarrow> log_size bs \<le> 974 * length (concat bs)"
proof (induction bs)
  case (Cons b bs)
  then have enc: "list_all encodable b" by (auto simp: list_all_iff plain_def)
  have "1 \<le> length b" using Cons.prems by (cases b) auto
  with payload_bounds(1) [OF enc] Cons show ?case by (auto simp: log_size_def)
qed (simp add: log_size_def)

lemma replay_ascending:
  "om_wf (headers_index ai @ es) \<Longrightarrow> list_all entry_ok es \<Longrightarrow> list_all (\<lambda>e. plain (snd e)) es \<Longrightarrow>
    headers_index (replay (map snd es) now ai) = headers_index ai @ es"
proof (induction es arbitrary: ai)
  case (Cons e es)
  obtain k h where e: "e = (k, h)" by (cases e)
  have h: "reread h = h" "get_id h = k" using Cons.prems(2,3) e plain_dest(1) by (auto simp: entry_ok_def)
  have below: "\<forall>k' \<in> fst ` set (headers_index ai). k' < k" using Cons.prems(1) e by (auto simp: om_wf_append)
  then have "map_of (headers_index ai) k = None" by (force simp: map_of_eq_None_iff)
  then have ins: "headers_index (snd (insert_header h now ai)) = headers_index ai @ [e]"
    using below e by (simp add: insert_header_def h(2) om_put_last)
  with Cons.IH [of "snd (insert_header h now ai)"] Cons.prems e show ?case by (simp add: h(1))
qed simp

lemma drop_outdated_headers_current:
  assumes "list_all (\<lambda>e. h_version (hfields (snd e)) = header_version) (headers_index ai)"
  shows "drop_outdated_headers now ai = ai"
proof (cases "headers_index ai = []")
  case False
  let ?n = "length (headers_index ai) - min drop_headers_count (length (headers_index ai))"
  have "hd (drop ?n (headers_index ai)) \<in> set (headers_index ai)"
    using False by (simp add: hd_drop_conv_nth drop_headers_count_def min_def)
  then have "h_version (hfields (snd (hd (drop ?n (headers_index ai))))) = header_version"
    using assms by (auto simp: list_all_iff)
  then show ?thesis by (simp add: drop_outdated_headers_def Let_def header_version_def reactions_header_version_def)
qed (simp add: drop_outdated_headers_def)

lemma save_load_plain:
  assumes "disk_ready (ai_storage ai)" and "index_wf (headers_index ai)"
    and "list_all (\<lambda>e. plain (snd e)) (headers_index ai)"
    and "974 * length (headers_index ai) \<le> room (ai_storage ai)"
  shows "\<exists>ai' ai''. save_all ai = (True, ai') \<and>
    load_from_local now (archive_index_new (ai_storage ai')) = Some (True, ai'') \<and>
    headers_index ai'' = headers_index ai \<and> loaded_from_local ai''"
proof -
  let ?bs = "save_chunks (headers_index ai) []"
  have bs: "list_all (\<lambda>b. list_all plain b \<and> b \<noteq> [] \<and> length b \<le> history_block_size) ?bs"
    using save_chunks_plain [OF assms(3), of "[]"] by (simp add: history_block_size_def)
  have enc: "list_all (list_all encodable) ?bs" using bs by (auto simp: list_all_iff plain_def)
  have ok: "list_all (\<lambda>b. block_ok (payload b)) ?bs" using bs plain_block_ok by (auto simp: list_all_iff)
  have flat: "concat (map (flat \<circ> snd) es) = map snd es" if "list_all (\<lambda>e. plain (snd e)) es" for es
    using that by (induction es) (auto simp: plain_dest(2))
  have all: "concat ?bs = map snd (headers_index ai)"
    using concat_save_chunks [of "headers_index ai" "[]"] flat [OF assms(3)]
    by (cases "headers_index ai = []") auto
  have ne: "list_all (\<lambda>b. list_all plain b \<and> b \<noteq> []) ?bs" using bs by (auto simp: list_all_iff)
  have "log_size ?bs \<le> 974 * length (concat ?bs)" by (rule log_size_plain [OF ne])
  then have room: "log_size ?bs \<le> room (ai_storage ai)" using assms(4) unfolding all by simp
  obtain ai' where ai': "save_all ai = (True, ai')" "disk_ready (ai_storage ai')"
    "disk_file (ai_storage ai') = Some (concat (map (\<lambda>b. frame (payload b)) ?bs))"
    using save_all_writes [OF assms(1) enc ok room] by blast
  let ?R = "replay (map snd (headers_index ai)) now (archive_index_new (ai_storage ai'))"
  have R: "headers_index ?R = headers_index ai"
    using replay_ascending [of "archive_index_new (ai_storage ai')" "headers_index ai"] assms(2,3)
    by (simp add: archive_index_new_def index_wf_def)
  have "list_all (\<lambda>e. h_version (hfields (snd e)) = header_version) (headers_index (?R\<lparr>loaded_from_local := True\<rparr>))"
    using assms(3) by (auto simp: R list_all_iff plain_def)
  note drop = drop_outdated_headers_current [OF this]
  from load_from_local_log [OF ai'(2,3) enc ok, of now] show ?thesis
    using ai'(1) by (auto simp: all drop with_storage_def notify_core_outgoing_msg_count_def R)
qed

subsection \<open>Properties\<close>

text \<open>
  C1: saving and loading again gives the same index: when the headers have the current version, no
  merged patches and no offline counters, and the disk has room, \<open>save_all\<close> succeeds, a new index
  loaded from the file it wrote succeeds, and holds exactly the same headers.
\<close>

theorem save_load_roundtrip:
  assumes "disk_ready (ai_storage ai)" and "index_wf (headers_index ai)"
    and "list_all (\<lambda>e. plain (snd e)) (headers_index ai)"
    and "974 * length (headers_index ai) \<le> room (ai_storage ai)"
  shows "\<exists>ai' ai''. save_all ai = (True, ai') \<and>
    load_from_local now (archive_index_new (ai_storage ai')) = Some (True, ai'') \<and>
    headers_index ai'' = headers_index ai \<and> loaded_from_local ai''"
  by (rule save_load_plain [OF assms])

theorem save_load_roundtrip_witness:
  "\<exists>ai' ai''. save_all sample_index = (True, ai') \<and>
    load_from_local 0 (archive_index_new (ai_storage ai')) = Some (True, ai'') \<and>
    headers_index ai'' = headers_index sample_index"
proof -
  have "disk_ready (ai_storage sample_index)" "list_all (\<lambda>e. plain (snd e)) (headers_index sample_index)"
    "974 * length (headers_index sample_index) \<le> room (ai_storage sample_index)"
    by code_simp+
  with save_load_roundtrip [OF _ sample_index_wf] show ?thesis by blast
qed

text \<open>
  C33: loading the log of any blocks of headers inserts them in order into the empty index, then drops
  what is outdated and reports the number of outgoing messages; nothing else of the file matters.
\<close>

theorem load_replays_log:
  assumes "disk_ready st" and "disk_file st = Some (concat (map (\<lambda>b. frame (payload b)) bs))"
    and "list_all (list_all encodable) bs" and "list_all (\<lambda>b. block_ok (payload b)) bs"
  shows "\<exists>ai. load_from_local now (archive_index_new st) = Some (True, ai) \<and>
    headers_index ai = headers_index (drop_outdated_headers now (replay (concat bs) now (archive_index_new st))) \<and>
    notified ai = notified (replay (concat bs) now (archive_index_new st)) @ [outgoing_count ai]"
proof -
  let ?r = "replay (concat bs) now (archive_index_new st)"
  obtain st' where load: "load_from_local now (archive_index_new st) = Some (True,
    with_storage (\<lambda>_. st') (notify_core_outgoing_msg_count (drop_outdated_headers now (?r\<lparr>loaded_from_local := True\<rparr>))))"
    using load_from_local_log [OF assms] by blast
  have drop: "headers_index (drop_outdated_headers now (ai\<lparr>loaded_from_local := b\<rparr>)) =
      headers_index (drop_outdated_headers now ai)"
    "notified (drop_outdated_headers now ai) = notified ai"
    "loaded_from_local (drop_outdated_headers now ai) = loaded_from_local ai" for ai b
    by (simp_all add: drop_outdated_headers_def Let_def)
  show ?thesis
    unfolding load
    by (simp add: with_storage_def notify_core_outgoing_msg_count_def get_outgoing_count_def drop)
qed

theorem load_replays_log_witness:
  "\<exists>ai. load_from_local 0 (archive_index_new (closed_storage\<lparr>disk_file :=
      Some (frame (payload [plain_message 5 (-1)]))\<rparr>)) = Some (True, ai)"
proof -
  let ?hs = "[plain_message 5 (-1)]" and ?st = "closed_storage\<lparr>disk_file := Some (frame (payload [plain_message 5 (-1)]))\<rparr>"
  have "encodable (plain_message 5 (-1))" by code_simp
  then have enc: "list_all encodable ?hs" by simp
  have "block_ok (payload ?hs)"
    using payload_bounds [OF enc] by (auto simp: block_ok_def max_data_block_size_def)
  moreover have "disk_ready ?st" by (simp add: disk_ready_def closed_storage_def)
  ultimately show ?thesis using load_replays_log [of ?st "[?hs]" 0] enc by force
qed

lemma save_loop_no_room:
  assumes "appending st" and "contents st = []" and "room st = 0" and "disk_file st = Some []"
  shows "bs_wf bd \<Longrightarrow> bs_pending bd = [] \<Longrightarrow> es \<noteq> [] \<Longrightarrow> list_all (list_all encodable) (save_chunks es hs) \<Longrightarrow>
    list_all (\<lambda>b. block_ok (payload b)) (save_chunks es hs) \<Longrightarrow>
    \<exists>st'. save_loop es hs bd st = (False, st') \<and> disk_file st' = Some []"
proof (induction es arbitrary: hs)
  case (Cons e rest)
  obtain k h where e: "e = (k, h)" by (cases e)
  let ?hs = "hs @ flat h"
  show ?case
  proof (cases "history_block_size \<le> length ?hs \<or> rest = []")
    case True
    let ?bd = "serialize_block ?hs bd"
    have chunks: "save_chunks ((k, h) # rest) hs = ?hs # save_chunks rest []" using True by (simp add: Let_def)
    have enc: "list_all encodable ?hs" and ok: "block_ok (payload ?hs)"
      using Cons.prems(4,5) unfolding e chunks by simp_all
    have bd: "bs_wf ?bd" "bs_pending ?bd = payload ?hs"
      using serialize_block_pending [OF enc Cons.prems(1)] Cons.prems(2) by simp_all
    have ne: "bs_pending ?bd \<noteq> []" "length (bs_pending ?bd) < 2 ^ 32"
      using ok block_ok_less [OF ok] by (simp_all add: bd(2) block_ok_def)
    obtain off data' st1 where w: "write_data_block ?bd 0 st = ((False, os_errno st), off, data', st1)"
      "contents st1 = []"
      using write_data_block_appending(2) [OF assms(1) bd(1) ne, of 0] assms(2,3) by auto
    have "disk_file st1 \<noteq> None"
      using write_data_block_file [where data = ?bd and off = 0 and st = st] assms(4) w(1) by simp
    then have "disk_file st1 = Some []" using w(2) by (auto simp: contents_def)
    then show ?thesis using True w(1) by (simp add: e save_loop_Cons Let_def)
  next
    case False
    have "save_chunks ((k, h) # rest) hs = save_chunks rest ?hs" using False by (simp add: Let_def)
    moreover have "save_loop ((k, h) # rest) hs bd st = save_loop rest ?hs bd st" using False by (simp add: save_loop_Cons)
    ultimately show ?thesis using Cons.IH [OF Cons.prems(1,2), of ?hs] False Cons.prems(4,5) unfolding e by simp
  qed
qed simp



text \<open>
  a file that does not begin with a block is a load that fails without an error: the result is
  false, and the error code says that all is well.
\<close>

theorem corrupt_load_no_error:
  assumes "disk_ready st" and "disk_file st = Some c" and "c \<noteq> []" and "dec_frame c = None"
  shows "\<exists>ai. load_from_local now (archive_index_new st) = Some (False, ai) \<and>
    ai_last_error ai = error_ok \<and> headers_index ai = [] \<and> \<not> loaded_from_local ai"
proof -
  obtain st1 where st1: "st_open (no_mode\<lparr>mode_read := True\<rparr>) st = (True, st1)" "reading st1 c"
    "disk_file st1 = Some c" "last_error st1 = error_ok"
    using st_open_read [OF assms(1,2)] by blast
  obtain d st2 where st2: "read_data_block (-1) bs_new st1 = Some (False, d, st2)" "same_file st1 st2"
    using read_data_block_no_frame [OF st1(2) assms(3,4)] by blast
  have err: "last_error st2 = error_ok" using st2(2) st1(4) by (simp add: same_file_def)
  have "load_blocks bs_new now (archive_index_new st1) = Some (True, archive_index_new st2)"
    by (subst load_blocks.simps) (simp add: st2(1) archive_index_new_def)
  then show ?thesis
    by (simp add: load_from_local_def archive_index_new_def st1(1) err Let_def with_storage_def)
qed

theorem corrupt_load_no_error_witness:
  "\<exists>ai. load_from_local 0 (archive_index_new (closed_storage\<lparr>disk_file := Some ''not a block''\<rparr>)) = Some (False, ai) \<and>
    ai_last_error ai = error_ok"
proof -
  have "disk_ready (closed_storage\<lparr>disk_file := Some ''not a block''\<rparr>)" "dec_frame ''not a block'' = None"
    by code_simp+
  from corrupt_load_no_error [OF this(1) _ _ this(2), of 0] show ?thesis by force
qed

end
