(* ===== verification/Message_Fields.thy ===== *)
theory Message_Fields
  imports Tlv
begin

text \<open>
  The data of a message is a pack of tagged values whose entries may be packs again
  (\<open>core/archive/history_message.cpp\<close>). This theory holds what the serializers of all its parts share:
  the tags of \<open>enum message_fields\<close>, the typed reading of one entry, the loop over the entries of a
  pack, and the two facts the round trips rest on. What a serializer builds is described by the list
  of its fields (\<open>pack_fields\<close>), and a pack that was read from its bytes is a function of that list
  (\<open>pack_of\<close>), so that the readers can be computed on it.
\<close>

named_theorems field_simps "what the typed readers return on a pack that was read from bytes"
named_theorems pack_simps "the fields of the packs the serializers build"

subsection \<open>The tags\<close>

abbreviation mf_msg_id :: u32 where "mf_msg_id \<equiv> 1"
abbreviation mf_flags :: u32 where "mf_flags \<equiv> 2"
abbreviation mf_time :: u32 where "mf_time \<equiv> 3"
abbreviation mf_wimid :: u32 where "mf_wimid \<equiv> 4"
abbreviation mf_text :: u32 where "mf_text \<equiv> 5"
abbreviation mf_chat :: u32 where "mf_chat \<equiv> 6"
abbreviation mf_sticker :: u32 where "mf_sticker \<equiv> 7"
abbreviation mf_mult :: u32 where "mf_mult \<equiv> 8"
abbreviation mf_voip :: u32 where "mf_voip \<equiv> 9"
abbreviation mf_sticker_id :: u32 where "mf_sticker_id \<equiv> 10"
abbreviation mf_chat_sender :: u32 where "mf_chat_sender \<equiv> 11"
abbreviation mf_chat_name :: u32 where "mf_chat_name \<equiv> 12"
abbreviation mf_prev_msg_id :: u32 where "mf_prev_msg_id \<equiv> 13"
abbreviation mf_internal_id :: u32 where "mf_internal_id \<equiv> 14"
abbreviation mf_chat_friendly :: u32 where "mf_chat_friendly \<equiv> 15"
abbreviation mf_file_sharing :: u32 where "mf_file_sharing \<equiv> 16"
abbreviation mf_file_sharing_uri :: u32 where "mf_file_sharing_uri \<equiv> 18"
abbreviation mf_file_sharing_local_path :: u32 where "mf_file_sharing_local_path \<equiv> 19"
abbreviation mf_sender_friendly :: u32 where "mf_sender_friendly \<equiv> 21"
abbreviation mf_chat_event :: u32 where "mf_chat_event \<equiv> 22"
abbreviation mf_chat_event_type :: u32 where "mf_chat_event_type \<equiv> 23"
abbreviation mf_chat_event_sender_friendly :: u32 where "mf_chat_event_sender_friendly \<equiv> 24"
abbreviation mf_chat_event_mchat_members :: u32 where "mf_chat_event_mchat_members \<equiv> 25"
abbreviation mf_chat_event_new_chat_name :: u32 where "mf_chat_event_new_chat_name \<equiv> 26"
abbreviation mf_voip_event_type :: u32 where "mf_voip_event_type \<equiv> 27"
abbreviation mf_voip_sender_friendly :: u32 where "mf_voip_sender_friendly \<equiv> 28"
abbreviation mf_voip_sender_aimid :: u32 where "mf_voip_sender_aimid \<equiv> 29"
abbreviation mf_voip_duration :: u32 where "mf_voip_duration \<equiv> 30"
abbreviation mf_voip_is_incoming :: u32 where "mf_voip_is_incoming \<equiv> 31"
abbreviation mf_chat_event_generic_text :: u32 where "mf_chat_event_generic_text \<equiv> 32"
abbreviation mf_chat_event_new_chat_description :: u32 where "mf_chat_event_new_chat_description \<equiv> 33"
abbreviation mf_quote_text :: u32 where "mf_quote_text \<equiv> 34"
abbreviation mf_quote_sn :: u32 where "mf_quote_sn \<equiv> 35"
abbreviation mf_quote_msg_id :: u32 where "mf_quote_msg_id \<equiv> 36"
abbreviation mf_quote_time :: u32 where "mf_quote_time \<equiv> 37"
abbreviation mf_quote_chat_id :: u32 where "mf_quote_chat_id \<equiv> 38"
abbreviation mf_quote :: u32 where "mf_quote \<equiv> 39"
abbreviation mf_quote_friendly :: u32 where "mf_quote_friendly \<equiv> 40"
abbreviation mf_quote_is_forward :: u32 where "mf_quote_is_forward \<equiv> 41"
abbreviation mf_chat_event_new_chat_rules :: u32 where "mf_chat_event_new_chat_rules \<equiv> 42"
abbreviation mf_chat_event_sender_aimid :: u32 where "mf_chat_event_sender_aimid \<equiv> 43"
abbreviation mf_quote_set_id :: u32 where "mf_quote_set_id \<equiv> 44"
abbreviation mf_quote_sticker_id :: u32 where "mf_quote_sticker_id \<equiv> 45"
abbreviation mf_quote_chat_stamp :: u32 where "mf_quote_chat_stamp \<equiv> 46"
abbreviation mf_quote_chat_name :: u32 where "mf_quote_chat_name \<equiv> 47"
abbreviation mf_mention :: u32 where "mf_mention \<equiv> 48"
abbreviation mf_mention_sn :: u32 where "mf_mention_sn \<equiv> 49"
abbreviation mf_mention_friendly :: u32 where "mf_mention_friendly \<equiv> 50"
abbreviation mf_chat_event_mchat_members_aimids :: u32 where "mf_chat_event_mchat_members_aimids \<equiv> 51"
abbreviation mf_update_patch_version :: u32 where "mf_update_patch_version \<equiv> 52"
abbreviation mf_snippet :: u32 where "mf_snippet \<equiv> 53"
abbreviation mf_snippet_url :: u32 where "mf_snippet_url \<equiv> 54"
abbreviation mf_snippet_content_type :: u32 where "mf_snippet_content_type \<equiv> 55"
abbreviation mf_snippet_preview_url :: u32 where "mf_snippet_preview_url \<equiv> 56"
abbreviation mf_snippet_preview_w :: u32 where "mf_snippet_preview_w \<equiv> 57"
abbreviation mf_snippet_preview_h :: u32 where "mf_snippet_preview_h \<equiv> 58"
abbreviation mf_snippet_title :: u32 where "mf_snippet_title \<equiv> 59"
abbreviation mf_snippet_description :: u32 where "mf_snippet_description \<equiv> 60"
abbreviation mf_voip_conf_members :: u32 where "mf_voip_conf_members \<equiv> 61"
abbreviation mf_voip_is_video :: u32 where "mf_voip_is_video \<equiv> 62"
abbreviation mf_chat_event_is_captcha_present :: u32 where "mf_chat_event_is_captcha_present \<equiv> 63"
abbreviation mf_description :: u32 where "mf_description \<equiv> 64"
abbreviation mf_url :: u32 where "mf_url \<equiv> 65"
abbreviation mf_quote_url :: u32 where "mf_quote_url \<equiv> 66"
abbreviation mf_quote_description :: u32 where "mf_quote_description \<equiv> 67"
abbreviation mf_offline_version :: u32 where "mf_offline_version \<equiv> 68"
abbreviation mf_friendly_official :: u32 where "mf_friendly_official \<equiv> 69"
abbreviation mf_shared_contact :: u32 where "mf_shared_contact \<equiv> 70"
abbreviation mf_shared_contact_name :: u32 where "mf_shared_contact_name \<equiv> 71"
abbreviation mf_shared_contact_phone :: u32 where "mf_shared_contact_phone \<equiv> 72"
abbreviation mf_shared_contact_sn :: u32 where "mf_shared_contact_sn \<equiv> 73"
abbreviation mf_file_sharing_base_content_type :: u32 where "mf_file_sharing_base_content_type \<equiv> 74"
abbreviation mf_file_sharing_duration :: u32 where "mf_file_sharing_duration \<equiv> 75"
abbreviation mf_geo :: u32 where "mf_geo \<equiv> 76"
abbreviation mf_geo_name :: u32 where "mf_geo_name \<equiv> 77"
abbreviation mf_geo_lat :: u32 where "mf_geo_lat \<equiv> 78"
abbreviation mf_geo_long :: u32 where "mf_geo_long \<equiv> 79"
abbreviation mf_chat_is_channel :: u32 where "mf_chat_is_channel \<equiv> 80"
abbreviation mf_poll :: u32 where "mf_poll \<equiv> 81"
abbreviation mf_poll_id :: u32 where "mf_poll_id \<equiv> 82"
abbreviation mf_poll_answer :: u32 where "mf_poll_answer \<equiv> 83"
abbreviation mf_poll_type :: u32 where "mf_poll_type \<equiv> 84"
abbreviation mf_chat_event_new_chat_stamp :: u32 where "mf_chat_event_new_chat_stamp \<equiv> 85"
abbreviation mf_json :: u32 where "mf_json \<equiv> 86"
abbreviation mf_sender_aimid :: u32 where "mf_sender_aimid \<equiv> 87"
abbreviation mf_buttons :: u32 where "mf_buttons \<equiv> 88"
abbreviation mf_hide_edit :: u32 where "mf_hide_edit \<equiv> 89"
abbreviation mf_chat_requested_by :: u32 where "mf_chat_requested_by \<equiv> 90"
abbreviation mf_chat_requested_by_friendly :: u32 where "mf_chat_requested_by_friendly \<equiv> 91"
abbreviation mf_call_aimid :: u32 where "mf_call_aimid \<equiv> 92"
abbreviation mf_voip_sid :: u32 where "mf_voip_sid \<equiv> 93"
abbreviation mf_reactions :: u32 where "mf_reactions \<equiv> 94"
abbreviation mf_reactions_exist :: u32 where "mf_reactions_exist \<equiv> 95"
abbreviation mf_chat_event_sender_status :: u32 where "mf_chat_event_sender_status \<equiv> 96"
abbreviation mf_chat_event_owner_status :: u32 where "mf_chat_event_owner_status \<equiv> 97"
abbreviation mf_chat_event_sender_status_desctiprion :: u32 where "mf_chat_event_sender_status_desctiprion \<equiv> 98"
abbreviation mf_chat_event_owner_status_description :: u32 where "mf_chat_event_owner_status_description \<equiv> 99"
abbreviation mf_format :: u32 where "mf_format \<equiv> 100"
abbreviation mf_format_offset :: u32 where "mf_format_offset \<equiv> 101"
abbreviation mf_format_length :: u32 where "mf_format_length \<equiv> 102"
abbreviation mf_format_data :: u32 where "mf_format_data \<equiv> 103"
abbreviation mf_format_bold :: u32 where "mf_format_bold \<equiv> 104"
abbreviation mf_format_italic :: u32 where "mf_format_italic \<equiv> 105"
abbreviation mf_format_underline :: u32 where "mf_format_underline \<equiv> 106"
abbreviation mf_format_strikethrough :: u32 where "mf_format_strikethrough \<equiv> 107"
abbreviation mf_format_inline_code :: u32 where "mf_format_inline_code \<equiv> 108"
abbreviation mf_format_url :: u32 where "mf_format_url \<equiv> 109"
abbreviation mf_format_mention :: u32 where "mf_format_mention \<equiv> 110"
abbreviation mf_format_quote :: u32 where "mf_format_quote \<equiv> 111"
abbreviation mf_format_pre :: u32 where "mf_format_pre \<equiv> 112"
abbreviation mf_format_ordered_list :: u32 where "mf_format_ordered_list \<equiv> 113"
abbreviation mf_format_unordered_list :: u32 where "mf_format_unordered_list \<equiv> 114"
abbreviation mf_description_format :: u32 where "mf_description_format \<equiv> 115"
abbreviation mf_task :: u32 where "mf_task \<equiv> 116"
abbreviation mf_task_id :: u32 where "mf_task_id \<equiv> 117"
abbreviation mf_task_title :: u32 where "mf_task_title \<equiv> 118"
abbreviation mf_task_assignee :: u32 where "mf_task_assignee \<equiv> 119"
abbreviation mf_task_end_time :: u32 where "mf_task_end_time \<equiv> 120"
abbreviation mf_thread_id :: u32 where "mf_thread_id \<equiv> 121"
abbreviation mf_task_status :: u32 where "mf_task_status \<equiv> 122"
abbreviation mf_chat_event_task_editor :: u32 where "mf_chat_event_task_editor \<equiv> 123"

subsection \<open>Typed values\<close>

text \<open>
  The instances of \<open>get_value\<close> the readers use. The reader of a string or of a scalar puts the cursor
  of the entry back, and that of a pack is applied once to an entry, so the changed entry is dropped.
\<close>

definition get_string :: "tlv \<Rightarrow> cstring" where
  "get_string t = fst (tlv_get_string t)"

definition get_string_or :: "cstring \<Rightarrow> tlv \<Rightarrow> cstring" where
  "get_string_or d t = fst (tlv_get_string_default d t)"

definition get_i32 :: "tlv \<Rightarrow> int" where
  "get_i32 t = fst (tlv_get_scalar 4 i32_of_bytes 0 t)"

definition get_i32_or :: "int \<Rightarrow> tlv \<Rightarrow> int" where
  "get_i32_or d t = fst (tlv_get_scalar_default 4 i32_of_bytes 0 d t)"

definition get_i64 :: "tlv \<Rightarrow> int" where
  "get_i64 t = fst (tlv_get_scalar 8 i64_of_bytes 0 t)"

definition get_i64_or :: "int \<Rightarrow> tlv \<Rightarrow> int" where
  "get_i64_or d t = fst (tlv_get_scalar_default 8 i64_of_bytes 0 d t)"

definition get_u32_or :: "u32 \<Rightarrow> tlv \<Rightarrow> u32" where
  "get_u32_or d t = fst (tlv_get_scalar_default 4 word_of_bytes 0 d t)"

definition get_u64_or :: "u64 \<Rightarrow> tlv \<Rightarrow> u64" where
  "get_u64_or d t = fst (tlv_get_scalar_default 8 word_of_bytes 0 d t)"

definition get_u64 :: "tlv \<Rightarrow> u64" where
  "get_u64 t = fst (tlv_get_scalar 8 word_of_bytes 0 t)"

definition get_bool :: "tlv \<Rightarrow> bool" where
  "get_bool t = fst (tlv_get_scalar 1 bool_of_bytes False t)"

definition get_bool_or :: "bool \<Rightarrow> tlv \<Rightarrow> bool" where
  "get_bool_or d t = fst (tlv_get_scalar_default 1 bool_of_bytes False d t)"

definition get_pack :: "tlv \<Rightarrow> tlvpack option" where
  "get_pack t = map_option fst (tlv_get_pack t)"

text \<open>\<open>if (item = pack.get_item(ty)) x = item->get_value()\<close>.\<close>

definition item_or :: "u32 \<Rightarrow> (tlv \<Rightarrow> 'a) \<Rightarrow> 'a \<Rightarrow> tlvpack \<Rightarrow> 'a" where
  "item_or ty g x p = (case tlvpack_get_item ty p of None \<Rightarrow> x | Some t \<Rightarrow> g t)"

text \<open>
  \<open>for (field = pack.get_first(); field; field = pack.get_next())\<close>. The body is given the entry and
  the state and returns the new state, with \<open>Inr\<close> for a \<open>return\<close> out of the loop.
\<close>

partial_function (option) field_loop ::
  "(tlv \<Rightarrow> 's \<Rightarrow> ('s + 'r) option) \<Rightarrow> tlv option \<Rightarrow> tlvpack \<Rightarrow> 's \<Rightarrow> ('s + 'r) option" where
  "field_loop body fld p st =
    (case fld of
       None \<Rightarrow> Some (Inl st)
     | Some t \<Rightarrow> Option.bind (body t st) (\<lambda>r.
         case r of
           Inr x \<Rightarrow> Some (Inr x)
         | Inl st \<Rightarrow> Option.bind (tlvpack_get_next p) (\<lambda>(fld, p). field_loop body fld p st)))"

declare field_loop.simps [code]

definition each_field :: "(tlv \<Rightarrow> 's \<Rightarrow> ('s + 'r) option) \<Rightarrow> tlvpack \<Rightarrow> 's \<Rightarrow> ('s + 'r) option" where
  "each_field body p st = (case tlvpack_get_first p of (fld, p) \<Rightarrow> field_loop body fld p st)"

text \<open>The loop visits the entries in their order: the cursor is never used when it is not set.\<close>

fun visit :: "(tlv \<Rightarrow> 's \<Rightarrow> ('s + 'r) option) \<Rightarrow> tlv list \<Rightarrow> 's \<Rightarrow> ('s + 'r) option" where
  "visit body [] st = Some (Inl st)"
| "visit body (t # ts) st = Option.bind (body t st) (\<lambda>r.
     case r of Inr x \<Rightarrow> Some (Inr x) | Inl st \<Rightarrow> visit body ts st)"

lemma field_loop_visit:
  assumes "i < length (tlvlist p)" and "cursor p = Some i"
  shows "field_loop body (Some (tlvlist p ! i)) p st = visit body (drop i (tlvlist p)) st"
  using assms
proof (induction "length (tlvlist p) - i" arbitrary: i p st)
  case (Suc n)
  have rest: "Option.bind (tlvpack_get_next p) (\<lambda>(fld, p). field_loop body fld p st') =
      visit body (drop (Suc i) (tlvlist p)) st'" for st'
  proof (cases "Suc i < length (tlvlist p)")
    case True
    then have "field_loop body (Some (tlvlist p ! Suc i)) (p\<lparr>cursor := Some (Suc i)\<rparr>) st' =
        visit body (drop (Suc i) (tlvlist p)) st'"
      using Suc.hyps(1) [of "p\<lparr>cursor := Some (Suc i)\<rparr>" "Suc i" st'] Suc.hyps(2) by simp
    with True Suc.prems show ?thesis by (auto simp: tlvpack_get_next_def)
  next
    case False
    with Suc.prems have "length (tlvlist p) = Suc i" by simp
    with Suc.prems show ?thesis
      by (auto simp: tlvpack_get_next_def field_loop.simps)
  qed
  show ?case
    using Suc.prems by (subst field_loop.simps) (simp add: rest Cons_nth_drop_Suc [symmetric] cong: sum.case_cong)
qed simp

lemma each_field_visit: "each_field body p st = visit body (tlvlist p) st"
proof (cases "tlvlist p = []")
  case False
  then show ?thesis
    using field_loop_visit [of 0 "p\<lparr>cursor := Some 0\<rparr>" body st]
    by (simp add: each_field_def tlvpack_get_first_def)
qed (simp add: each_field_def tlvpack_get_first_def field_loop.simps)

text \<open>The same loop when its body never returns early.\<close>

definition for_fields :: "(tlv \<Rightarrow> 's \<Rightarrow> 's option) \<Rightarrow> tlvpack \<Rightarrow> 's \<Rightarrow> 's option" where
  "for_fields body p st =
    Option.bind (each_field (\<lambda>t st. map_option Inl (body t st)) p st)
      (\<lambda>r. case r of Inl st \<Rightarrow> Some st | Inr () \<Rightarrow> None)"

fun visit_all :: "(tlv \<Rightarrow> 's \<Rightarrow> 's option) \<Rightarrow> tlv list \<Rightarrow> 's \<Rightarrow> 's option" where
  "visit_all body [] st = Some st"
| "visit_all body (t # ts) st = Option.bind (body t st) (visit_all body ts)"

lemma for_fields_visit: "for_fields body p st = visit_all body (tlvlist p) st"
proof -
  have "Option.bind (visit (\<lambda>t st. map_option Inl (body t st)) ts st)
      (\<lambda>r. case r of Inl st \<Rightarrow> Some st | Inr () \<Rightarrow> None) = visit_all body ts st" for ts
    by (induction ts arbitrary: st) (auto simp: Option.bind_eq_None_conv split: Option.bind_splits)
  then show ?thesis by (simp add: for_fields_def each_field_visit)
qed

fun opt_all :: "('a \<Rightarrow> bool) \<Rightarrow> 'a option \<Rightarrow> bool" where
  "opt_all P None = True"
| "opt_all P (Some x) = P x"

subsection \<open>A pack that was read from bytes\<close>

definition tlv_canon :: "field \<Rightarrow> tlv" where
  "tlv_canon f = (tlv_set_type (fst f) tlv_new)
     \<lparr>value_stream := if snd f = [] then bs_new else bs_write (snd f) bs_new\<rparr>"

definition pack_of :: "field list \<Rightarrow> tlvpack" where
  "pack_of fs = \<lparr>tlvlist = map tlv_canon fs, cursor = None\<rparr>"

definition pack_bytes :: "field list \<Rightarrow> byte list" where
  "pack_bytes fs = concat (map tlv_enc fs)"

lemma pack_of_sel [simp]: "tlvlist (pack_of fs) = map tlv_canon fs"
  by (simp add: pack_of_def)

lemma tlv_canon_sel [simp]:
  "tlv_type (tlv_canon f) = fst f" "bs_wf (value_stream (tlv_canon f))"
  "output_cursor (value_stream (tlv_canon f)) = 0" "bs_pending (value_stream (tlv_canon f)) = snd f"
  by (simp_all add: tlv_canon_def tlv_set_type_def bs_new_def) (simp_all add: bs_new_def [symmetric])

lemma pack_bytes_simps [simp]:
  "pack_bytes [] = []" "pack_bytes (f # fs) = tlv_enc f @ pack_bytes fs"
  "pack_bytes (fs @ gs) = pack_bytes fs @ pack_bytes gs"
  by (simp_all add: pack_bytes_def)

lemma length_tlv_enc [simp]: "length (tlv_enc f) = 8 + length (snd f)"
  by (simp add: tlv_enc_def)

lemma field_ok_pack_bytes: "length (pack_bytes fs) < 2 ^ 32 \<Longrightarrow> list_all field_ok fs"
  by (induction fs) (auto simp: field_ok_def)

lemma tlv_unserialize_canon:
  assumes "bs_wf s" and "field_ok f" and "bs_pending s = tlv_enc f @ rest"
  shows "tlv_unserialize tlv_new s = Some (True, tlv_canon f, bs_skip (8 + length (snd f)) s)"
proof -
  obtain ty v where f: "f = (ty, v)" by (cases f)
  let ?n = "word_of_nat (length v) :: u32"
  have n: "unat ?n = length v" using assms(2) f by (simp add: field_ok_def)
  then have z: "?n = 0 \<longleftrightarrow> v = []" using unat_eq_zero [of ?n] by simp
  have p: "bs_pending s = word_bytes 4 ty @ word_bytes 4 ?n @ v @ rest"
    using assms(3) f by (simp add: tlv_enc_def)
  have w: "bs_wf (bs_skip 4 s)" "bs_wf (bs_skip 8 s)" using assms(1) p by simp_all
  show ?thesis
    using assms(1) w p n z f
    by (simp add: tlv_unserialize_def bs_available_pending bs_typed_reads bs_read_as_eq tlv_canon_def
        tlv_set_type_def tlv_new_def Let_def)
qed

lemma tlvpack_unserialize_canon:
  "bs_wf s \<Longrightarrow> list_all field_ok fs \<Longrightarrow> bs_pending s = pack_bytes fs \<Longrightarrow>
    tlvpack_unserialize p s = Some (True,
      p\<lparr>tlvlist := tlvlist p @ map tlv_canon fs, cursor := if fs = [] then cursor p else None\<rparr>,
      bs_skip (length (pack_bytes fs)) s)"
proof (induction fs arbitrary: p s)
  case Nil
  then show ?case by (simp add: tlvpack_unserialize.simps bs_available_pending bs_skip_def)
next
  case (Cons f fs)
  let ?s = "bs_skip (8 + length (snd f)) s"
  have "tlv_unserialize tlv_new s = Some (True, tlv_canon f, ?s)"
    using Cons.prems by (intro tlv_unserialize_canon) auto
  moreover have "bs_wf ?s" "bs_pending ?s = pack_bytes fs" using Cons.prems by simp_all
  moreover have "0 < bs_available s" using Cons.prems by (simp add: bs_available_pending)
  ultimately show ?case
    using Cons.prems Cons.IH [of ?s "tlvpack_push_child (tlv_canon f) p"]
    by (subst tlvpack_unserialize.simps) (simp add: tlvpack_push_child_def add.commute)
qed

lemma tlvpack_unserialize_pack_of:
  assumes "bs_wf s" and "length (pack_bytes fs) < 2 ^ 32" and "bs_pending s = pack_bytes fs"
  shows "tlvpack_unserialize tlvpack_new s = Some (True, pack_of fs, bs_skip (length (pack_bytes fs)) s)"
  using tlvpack_unserialize_canon [OF assms(1) field_ok_pack_bytes [OF assms(2)] assms(3), of tlvpack_new]
  by (simp add: pack_of_def tlvpack_new_def)

subsection \<open>Reading the entries\<close>

definition scalar_at :: "nat \<Rightarrow> (byte list \<Rightarrow> 'a) \<Rightarrow> 'a \<Rightarrow> byte list \<Rightarrow> 'a" where
  "scalar_at n conv zero v = (if length v < n then zero else conv (take n v))"

lemma tlv_get_scalar_at:
  assumes "bs_wf (value_stream t)" and "0 < n"
  shows "fst (tlv_get_scalar n conv zero t) = scalar_at n conv zero (bs_pending (value_stream t))"
    and "fst (tlv_get_scalar_default n conv zero d t) = scalar_at n conv zero (bs_pending (value_stream t))"
  using assms
  by (simp_all add: tlv_get_scalar_def tlv_get_scalar_default_def scalar_at_def bs_available_pending bs_read_eq)

lemma tlv_get_string_value:
  assumes "bs_wf (value_stream t)" and "bs_pending (value_stream t) = v"
  shows "fst (tlv_get_string_default d t) = (if v = [] then d else v)"
  using assms by (simp add: tlv_get_string_default_def bs_available_pending bs_read_eq Let_def)

lemma get_value_simps [simp, field_simps]:
  "get_string (tlv_canon f) = snd f"
  "get_string_or [] (tlv_canon f) = snd f"
  "get_i32 (tlv_canon f) = scalar_at 4 i32_of_bytes 0 (snd f)"
  "get_i32_or d (tlv_canon f) = scalar_at 4 i32_of_bytes 0 (snd f)"
  "get_i64 (tlv_canon f) = scalar_at 8 i64_of_bytes 0 (snd f)"
  "get_i64_or d' (tlv_canon f) = scalar_at 8 i64_of_bytes 0 (snd f)"
  "get_u32_or w (tlv_canon f) = scalar_at 4 word_of_bytes 0 (snd f)"
  "get_u64_or w' (tlv_canon f) = scalar_at 8 word_of_bytes 0 (snd f)"
  "get_u64 (tlv_canon f) = scalar_at 8 word_of_bytes 0 (snd f)"
  "get_bool (tlv_canon f) = scalar_at 1 bool_of_bytes False (snd f)"
  "get_bool_or b (tlv_canon f) = scalar_at 1 bool_of_bytes False (snd f)"
  by (simp_all add: get_string_def get_string_or_def get_i32_def get_i32_or_def get_i64_def get_i64_or_def
      get_u32_or_def get_u64_or_def get_u64_def get_bool_def get_bool_or_def tlv_get_scalar_at
      tlv_get_string_def tlv_get_string_value)

lemma scalar_at_bytes [simp, field_simps]:
  "int32 i \<Longrightarrow> scalar_at 4 i32_of_bytes z (i32_bytes i) = i"
  "int64 j \<Longrightarrow> scalar_at 8 i64_of_bytes z (i64_bytes j) = j"
  "scalar_at 4 word_of_bytes w (word_bytes 4 (v :: u32)) = v"
  "scalar_at 8 word_of_bytes w' (word_bytes 8 (v' :: u64)) = v'"
  "scalar_at (Suc 0) bool_of_bytes c (bool_bytes b) = b"
  "scalar_at (Suc 0) bool_of_bytes c (bool_bytes b @ xs) = b"
  by (simp_all add: scalar_at_def)

lemma get_pack_canon [simp, field_simps]:
  assumes "length (pack_bytes fs) < 2 ^ 32"
  shows "get_pack (tlv_canon (ty, pack_bytes fs)) = Some (pack_of fs)"
  using tlvpack_unserialize_pack_of [of "value_stream (tlv_canon (ty, pack_bytes fs))" fs] assms
  by (simp add: get_pack_def tlv_get_pack_def)

lemma get_item_pack_of [simp, field_simps]:
  "tlvpack_get_item ty (pack_of fs) = map_option (\<lambda>v. tlv_canon (ty, v)) (map_of fs ty)"
  by (induction fs) (auto simp: tlvpack_get_item_def)

lemma item_or_pack_of [simp, field_simps]:
  "item_or ty g x (pack_of fs) = (case map_of fs ty of None \<Rightarrow> x | Some v \<Rightarrow> g (tlv_canon (ty, v)))"
  by (simp add: item_or_def split: option.split)

lemma each_field_pack_of [field_simps]:
  "each_field body (pack_of []) st = Some (Inl st)"
  "each_field body (pack_of (f # fs)) st = Option.bind (body (tlv_canon f) st) (\<lambda>r.
     case r of Inr x \<Rightarrow> Some (Inr x) | Inl st \<Rightarrow> each_field body (pack_of fs) st)"
  unfolding each_field_visit pack_of_sel list.map visit.simps by (rule refl)+

lemma each_field_append:
  "each_field body (pack_of (fs @ gs)) st = Option.bind (each_field body (pack_of fs) st) (\<lambda>r.
     case r of Inr x \<Rightarrow> Some (Inr x) | Inl st \<Rightarrow> each_field body (pack_of gs) st)"
  by (induction fs arbitrary: st)
    (auto simp: each_field_pack_of split: Option.bind_splits sum.split)

lemma for_fields_pack_of [simp, field_simps]:
  "for_fields body (pack_of []) st = Some st"
  "for_fields body (pack_of (f # fs)) st = Option.bind (body (tlv_canon f) st) (for_fields body (pack_of fs))"
  by (simp_all add: for_fields_visit fun_eq_iff cong: Option.bind_cong)

lemma for_fields_append [simp, field_simps]:
  "for_fields body (pack_of (fs @ gs)) st =
    Option.bind (for_fields body (pack_of fs) st) (for_fields body (pack_of gs))"
  by (induction fs arbitrary: st) (auto split: Option.bind_splits)

text \<open>Fields that are there under a condition, and the field of an optional member.\<close>

definition field_if :: "bool \<Rightarrow> u32 \<Rightarrow> byte list \<Rightarrow> field list" where
  "field_if b ty v = (if b then [(ty, v)] else [])"

definition opt_field :: "u32 \<Rightarrow> ('a \<Rightarrow> byte list) \<Rightarrow> 'a option \<Rightarrow> field list" where
  "opt_field ty g x = (case x of None \<Rightarrow> [] | Some a \<Rightarrow> [(ty, g a)])"

declare map_of_append [simp del]

lemma map_of_field_if [simp, field_simps]:
  "map_of (field_if b ty v @ rest) ty' = (if ty = ty' \<and> b then Some v else map_of rest ty')"
  "map_of (field_if b ty v) ty' = (if ty = ty' \<and> b then Some v else None)"
  by (simp_all add: field_if_def)

lemma map_of_opt_field [simp, field_simps]:
  "map_of (opt_field ty g x @ rest) ty' = (if ty = ty' \<and> x \<noteq> None then Some (g (the x)) else map_of rest ty')"
  "map_of (opt_field ty g x) ty' = (if ty = ty' \<and> x \<noteq> None then Some (g (the x)) else None)"
  by (auto simp: opt_field_def split: option.split)

text \<open>A group of fields that is there under a condition.\<close>

definition fields_if :: "bool \<Rightarrow> field list \<Rightarrow> field list" where
  "fields_if b fs = (if b then fs else [])"

lemma map_of_fields_if [simp, field_simps]:
  "map_of (fields_if b fs @ rest) ty =
    (case if b then map_of fs ty else None of None \<Rightarrow> map_of rest ty | Some v \<Rightarrow> Some v)"
  "map_of (fields_if b fs) ty = (if b then map_of fs ty else None)"
  by (auto simp: fields_if_def map_of_append map_add_def split: option.split)

lemma length_pack_bytes_fields_if [simp]:
  "length (pack_bytes (fields_if b fs)) = (if b then length (pack_bytes fs) else 0)"
  by (simp add: fields_if_def)

lemma length_pack_bytes_if [simp]:
  "length (pack_bytes (field_if b ty v)) = (if b then 8 + length v else 0)"
  "length (pack_bytes (opt_field ty g x)) = (case x of None \<Rightarrow> 0 | Some a \<Rightarrow> 8 + length (g a))"
  by (auto simp: field_if_def opt_field_def split: option.split)

subsection \<open>What the serializers build\<close>

definition tlv_ready :: "tlv \<Rightarrow> bool" where
  "tlv_ready t \<longleftrightarrow> bs_wf (value_stream t) \<and> output_cursor (value_stream t) = 0"

definition pack_ready :: "tlvpack \<Rightarrow> bool" where
  "pack_ready p \<longleftrightarrow> list_all tlv_ready (tlvlist p)"

definition pack_fields :: "tlvpack \<Rightarrow> field list" where
  "pack_fields p = map tlv_field (tlvlist p)"

lemma pack_fields_new [simp, pack_simps]: "pack_fields tlvpack_new = []" "pack_ready tlvpack_new"
  by (simp_all add: pack_fields_def pack_ready_def tlvpack_new_def)

lemma pack_fields_push [simp, pack_simps]:
  "pack_fields (tlvpack_push_child t p) = pack_fields p @ [tlv_field t]"
  "pack_ready (tlvpack_push_child t p) \<longleftrightarrow> pack_ready p \<and> tlv_ready t"
  by (simp_all add: pack_fields_def pack_ready_def tlvpack_push_child_def)

lemma bs_reset_new [simp]: "bs_reset bs_new = bs_new"
  by (simp add: bs_reset_def bs_new_def)

lemma bs_reserve_output [simp]: "output_cursor (bs_reserve n s) = output_cursor s"
  by (simp add: bs_reserve_def bs_resize_def)

lemma output_cursor_new [simp]: "output_cursor bs_new = 0"
  by (simp add: bs_new_def)

lemma tlv_of_string_field [simp, pack_simps]:
  "tlv_field (tlv_of_string ty v) = (ty, v)" "tlv_ready (tlv_of_string ty v)"
  by (simp_all add: tlv_of_string_def tlv_field_def tlv_ready_def tlv_set_string_def tlv_set_type_def tlv_new_def
      Let_def)

lemma tlv_of_scalar_field [simp, pack_simps]:
  "tlv_field (tlv_of_scalar ty v) = (ty, v)" "tlv_ready (tlv_of_scalar ty v)"
  by (simp_all add: tlv_of_scalar_def tlv_field_def tlv_ready_def tlv_set_scalar_def tlv_set_type_def tlv_new_def)

definition push_if :: "bool \<Rightarrow> tlv \<Rightarrow> tlvpack \<Rightarrow> tlvpack" where
  "push_if b t p = (if b then tlvpack_push_child t p else p)"

definition push_opt :: "('a \<Rightarrow> tlvpack \<Rightarrow> tlvpack) \<Rightarrow> 'a option \<Rightarrow> tlvpack \<Rightarrow> tlvpack" where
  "push_opt g x p = (case x of None \<Rightarrow> p | Some a \<Rightarrow> g a p)"

lemma push_if_fields [simp, pack_simps]:
  "pack_fields (push_if b t p) = pack_fields p @ field_if b (fst (tlv_field t)) (snd (tlv_field t))"
  "pack_ready (push_if b t p) \<longleftrightarrow> pack_ready p \<and> (b \<longrightarrow> tlv_ready t)"
  by (simp_all add: push_if_def field_if_def)

lemma fields_group [pack_simps]:
  assumes "pack_fields (g p) = pack_fields p @ fs" and "pack_ready p \<Longrightarrow> pack_ready (g p)"
  shows "pack_fields (if b then g p else p) = pack_fields p @ fields_if b fs"
    and "pack_ready p \<Longrightarrow> pack_ready (if b then g p else p)"
  using assms by (simp_all add: fields_if_def)

lemma push_opt_fields:
  assumes "\<And>a. pack_fields (g a p) = pack_fields p @ [(ty, h a)]" and "\<And>a. pack_ready p \<Longrightarrow> pack_ready (g a p)"
  shows "pack_fields (push_opt g x p) = pack_fields p @ opt_field ty h x"
    and "pack_ready p \<Longrightarrow> pack_ready (push_opt g x p)"
  using assms by (simp_all add: push_opt_def opt_field_def split: option.split)

lemma tlv_serialize_ready:
  assumes "tlv_ready t" and "bs_wf s"
  shows "bs_wf (snd (tlv_serialize t s))"
    and "bs_pending (snd (tlv_serialize t s)) = bs_pending s @ tlv_enc (tlv_field t)"
  using assms
  by (auto simp: tlv_ready_def tlv_serialize_def Let_def bs_available_pending bs_read_eq tlv_enc_def
      tlv_field_def split: option.split)

lemma tlv_serialize_all_ready:
  "list_all tlv_ready ts \<Longrightarrow> bs_wf s \<Longrightarrow>
    bs_wf (snd (tlv_serialize_all ts s)) \<and>
    bs_pending (snd (tlv_serialize_all ts s)) = bs_pending s @ pack_bytes (map tlv_field ts)"
proof (induction ts arbitrary: s)
  case (Cons t ts)
  then have t: "tlv_ready t" by simp
  from Cons.IH [OF _ tlv_serialize_ready(1) [OF t \<open>bs_wf s\<close>]] Cons.prems tlv_serialize_ready [OF t \<open>bs_wf s\<close>]
  show ?case by (simp add: case_prod_beta Let_def)
qed simp

lemma tlvpack_serialize_ready:
  assumes "pack_ready p" and "bs_wf s"
  shows "bs_wf (snd (tlvpack_serialize p s))"
    and "bs_pending (snd (tlvpack_serialize p s)) = bs_pending s @ pack_bytes (pack_fields p)"
  using tlv_serialize_all_ready [of "tlvlist p" "bs_reserve n s" for n] assms
  by (simp_all add: tlvpack_serialize_def Let_def case_prod_beta pack_ready_def pack_fields_def)

lemma output_cursor_serialize_all [simp]:
  "output_cursor (snd (tlv_serialize_all ts s)) = output_cursor s"
proof (induction ts arbitrary: s)
  case (Cons t ts)
  have "output_cursor (snd (tlv_serialize t s)) = output_cursor s"
    by (simp add: tlv_serialize_def Let_def split: option.split prod.split)
  with Cons show ?case by (simp add: case_prod_beta Let_def)
qed simp

lemma tlv_of_pack_field [simp, pack_simps]:
  assumes "pack_ready p"
  shows "tlv_field (tlv_of_pack ty p) = (ty, pack_bytes (pack_fields p))" and "tlv_ready (tlv_of_pack ty p)"
  using tlvpack_serialize_ready [OF assms bs_new_wf]
  by (simp_all add: tlv_of_pack_def tlv_field_def tlv_ready_def tlv_set_pack_def tlv_set_type_def tlv_new_def)
    (simp add: tlvpack_serialize_def Let_def case_prod_beta)

end
