(* ===== verification/Message_Parts.thy ===== *)
theory Message_Parts
  imports Message_Fields
begin

text \<open>
  The parts a message consists of (\<open>core/archive/history_message.cpp\<close>): formatting, contacts,
  places, stickers, calls, chats, files, polls and tasks, each with its members, the pack it is
  written to and the constructor that reads it. For each part the fields of its pack are listed
  (\<open>_fields\<close>), the writer is shown to build them, and reading them is shown to give the part back,
  or what is left of it where the code keeps less (\<open>_stored\<close>).

  A value of an enumeration that is read from a file can be any number, so it is an integer. A
  \<open>double\<close> is its bit pattern. The value of a member that the code reads before it was set is the
  parameter \<open>junk\<close>. A time point counts nanoseconds.
\<close>

subsection \<open>Formatting\<close>

datatype format_type =
  ft_none | ft_bold | ft_italic | ft_underline | ft_strikethrough | ft_monospace | ft_link |
  ft_mention | ft_quote | ft_pre | ft_ordered_list | ft_unordered_list

record range_format =
  rf_type :: format_type
  rf_offset :: int
  rf_size :: int
  rf_data :: "cstring option"

type_synonym format_data = "range_format list"

definition range_format_new :: range_format where
  "range_format_new = \<lparr>rf_type = ft_none, rf_offset = 0, rf_size = 0, rf_data = None\<rparr>"

fun to_mf_type :: "format_type \<Rightarrow> u32" where
  "to_mf_type ft_bold = mf_format_bold"
| "to_mf_type ft_italic = mf_format_italic"
| "to_mf_type ft_underline = mf_format_underline"
| "to_mf_type ft_strikethrough = mf_format_strikethrough"
| "to_mf_type ft_monospace = mf_format_inline_code"
| "to_mf_type ft_link = mf_format_url"
| "to_mf_type ft_mention = mf_format_mention"
| "to_mf_type ft_quote = mf_format_quote"
| "to_mf_type ft_pre = mf_format_pre"
| "to_mf_type ft_ordered_list = mf_format_ordered_list"
| "to_mf_type ft_unordered_list = mf_format_unordered_list"
| "to_mf_type ft_none = mf_format_bold"

definition from_mf_type :: "u32 \<Rightarrow> format_type" where
  "from_mf_type ty =
    (if ty = mf_format_bold then ft_bold
     else if ty = mf_format_italic then ft_italic
     else if ty = mf_format_underline then ft_underline
     else if ty = mf_format_strikethrough then ft_strikethrough
     else if ty = mf_format_inline_code then ft_monospace
     else if ty = mf_format_url then ft_link
     else if ty = mf_format_mention then ft_mention
     else if ty = mf_format_quote then ft_quote
     else if ty = mf_format_pre then ft_pre
     else if ty = mf_format_ordered_list then ft_ordered_list
     else if ty = mf_format_unordered_list then ft_unordered_list
     else ft_bold)"

definition range_pack :: "range_format \<Rightarrow> tlvpack" where
  "range_pack r =
    (let pack = tlvpack_new;
         pack = tlvpack_push_child (tlv_of_scalar mf_format_offset (i32_bytes (rf_offset r))) pack;
         pack = tlvpack_push_child (tlv_of_scalar mf_format_length (i32_bytes (rf_size r))) pack
     in push_opt (\<lambda>d. tlvpack_push_child (tlv_of_string mf_format_data d)) (rf_data r) pack)"

definition format_serialize :: "format_data \<Rightarrow> tlvpack \<Rightarrow> tlvpack" where
  "format_serialize fs p =
    foldl (\<lambda>p r. tlvpack_push_child (tlv_of_pack (to_mf_type (rf_type r)) (range_pack r)) p) p fs"

definition read_format_info :: "tlvpack \<Rightarrow> range_format option" where
  "read_format_info p = for_fields (\<lambda>fld r. Some
     (if tlv_type fld = mf_format_offset then r\<lparr>rf_offset := get_i32 fld\<rparr>
      else if tlv_type fld = mf_format_length then r\<lparr>rf_size := get_i32 fld\<rparr>
      else if tlv_type fld = mf_format_data then r\<lparr>rf_data := Some (get_string fld)\<rparr>
      else r)) p range_format_new"

text \<open>It always returns \<open>false\<close>, and its callers ignore the result.\<close>

definition format_unserialize :: "tlvpack \<Rightarrow> (bool \<times> format_data) option" where
  "format_unserialize p = map_option (Pair False) (for_fields (\<lambda>fld fs. do {
     q \<leftarrow> get_pack fld;
     r \<leftarrow> read_format_info q;
     Some (fs @ [r\<lparr>rf_type := from_mf_type (tlv_type fld)\<rparr>]) }) p [])"

definition range_fields :: "range_format \<Rightarrow> field list" where
  "range_fields r = [(mf_format_offset, i32_bytes (rf_offset r)), (mf_format_length, i32_bytes (rf_size r))]
     @ opt_field mf_format_data (\<lambda>d. d) (rf_data r)"

definition format_fields :: "format_data \<Rightarrow> field list" where
  "format_fields fs = map (\<lambda>r. (to_mf_type (rf_type r), pack_bytes (range_fields r))) fs"

definition range_ok :: "range_format \<Rightarrow> bool" where
  "range_ok r \<longleftrightarrow> rf_type r \<noteq> ft_none \<and> int32 (rf_offset r) \<and> int32 (rf_size r)"

lemma from_to_mf_type [simp]: "ty \<noteq> ft_none \<Longrightarrow> from_mf_type (to_mf_type ty) = ty"
  by (cases ty) (simp_all add: from_mf_type_def)

lemma range_pack_fields [simp, pack_simps]: "pack_fields (range_pack r) = range_fields r" "pack_ready (range_pack r)"
  by (simp_all add: range_pack_def range_fields_def push_opt_fields [where h = "\<lambda>d. d" and ty = mf_format_data])

lemma format_serialize_fields [simp, pack_simps]:
  "pack_fields (format_serialize fs p) = pack_fields p @ format_fields fs"
  "pack_ready p \<Longrightarrow> pack_ready (format_serialize fs p)"
  by (induction fs arbitrary: p) (simp_all add: format_serialize_def format_fields_def)

lemma read_format_info_fields:
  "int32 (rf_offset r) \<Longrightarrow> int32 (rf_size r) \<Longrightarrow>
    read_format_info (pack_of (range_fields r)) = Some (r\<lparr>rf_type := ft_none\<rparr>)"
  by (cases r; cases "rf_data r")
    (simp_all add: read_format_info_def range_fields_def opt_field_def range_format_new_def)

lemma format_unserialize_fields:
  assumes "list_all range_ok fs" and "length (pack_bytes (format_fields fs)) < 2 ^ 32"
  shows "format_unserialize (pack_of (format_fields fs)) = Some (False, fs)"
proof -
  let ?body = "\<lambda>fld fs. do { q \<leftarrow> get_pack fld; r \<leftarrow> read_format_info q;
      Some (fs @ [r\<lparr>rf_type := from_mf_type (tlv_type fld)\<rparr>]) }"
  have "for_fields ?body (pack_of (format_fields fs)) gs = Some (gs @ fs)" for gs
    using assms
  proof (induction fs arbitrary: gs)
    case (Cons r fs)
    then have r: "rf_type r \<noteq> ft_none" "length (pack_bytes (range_fields r)) < 2 ^ 32"
        "read_format_info (pack_of (range_fields r)) = Some (r\<lparr>rf_type := ft_none\<rparr>)"
      by (simp_all add: range_ok_def format_fields_def read_format_info_fields)
    have "for_fields ?body (pack_of (format_fields fs)) hs = Some (hs @ fs)" for hs
      using Cons by (simp add: format_fields_def)
    with r show ?case by (simp add: format_fields_def)
  qed (simp add: format_fields_def)
  then show ?thesis by (simp add: format_unserialize_def)
qed

subsection \<open>Contacts, places, reactions, stickers\<close>

record shared_contact =
  sc_name :: cstring
  sc_phone :: cstring
  sc_sn :: cstring

definition shared_contact_new :: shared_contact where
  "shared_contact_new = \<lparr>sc_name = [], sc_phone = [], sc_sn = []\<rparr>"

definition contact_pack :: "shared_contact \<Rightarrow> tlvpack" where
  "contact_pack c =
    (let pack = tlvpack_new;
         pack = tlvpack_push_child (tlv_of_string mf_shared_contact_name (sc_name c)) pack;
         pack = tlvpack_push_child (tlv_of_string mf_shared_contact_phone (sc_phone c)) pack
     in tlvpack_push_child (tlv_of_string mf_shared_contact_sn (sc_sn c)) pack)"

definition shared_contact_serialize :: "shared_contact \<Rightarrow> tlvpack \<Rightarrow> tlvpack" where
  "shared_contact_serialize c p = tlvpack_push_child (tlv_of_pack mf_shared_contact (contact_pack c)) p"

definition shared_contact_unserialize :: "tlvpack \<Rightarrow> shared_contact \<Rightarrow> bool \<times> shared_contact" where
  "shared_contact_unserialize p c =
    (case tlvpack_get_item mf_shared_contact_phone p of
       None \<Rightarrow> (False, c)
     | Some phone_item \<Rightarrow>
        (True, \<lparr>sc_name = item_or mf_shared_contact_name get_string (sc_name c) p,
                sc_phone = get_string phone_item,
                sc_sn = item_or mf_shared_contact_sn get_string (sc_sn c) p\<rparr>))"

definition contact_fields :: "shared_contact \<Rightarrow> field list" where
  "contact_fields c = [(mf_shared_contact_name, sc_name c), (mf_shared_contact_phone, sc_phone c),
     (mf_shared_contact_sn, sc_sn c)]"

lemma shared_contact_serialize_field [simp, pack_simps]:
  "pack_fields (shared_contact_serialize c p) = pack_fields p @ [(mf_shared_contact, pack_bytes (contact_fields c))]"
  "pack_ready (shared_contact_serialize c p) \<longleftrightarrow> pack_ready p"
  by (simp_all add: shared_contact_serialize_def contact_pack_def contact_fields_def)

lemma shared_contact_unserialize_fields [simp, field_simps]:
  "shared_contact_unserialize (pack_of (contact_fields c)) c0 = (True, c)"
  by (cases c) (simp add: shared_contact_unserialize_def contact_fields_def)

record geo =
  geo_name :: cstring
  geo_lat :: u64
  geo_long :: u64

definition geo_new :: geo where
  "geo_new = \<lparr>geo_name = [], geo_lat = 0, geo_long = 0\<rparr>"

definition geo_pack :: "geo \<Rightarrow> tlvpack" where
  "geo_pack g =
    (let pack = tlvpack_new;
         pack = tlvpack_push_child (tlv_of_string mf_geo_name (geo_name g)) pack;
         pack = tlvpack_push_child (tlv_of_scalar mf_geo_lat (word_bytes 8 (geo_lat g))) pack
     in tlvpack_push_child (tlv_of_scalar mf_geo_long (word_bytes 8 (geo_long g))) pack)"

definition geo_serialize :: "geo \<Rightarrow> tlvpack \<Rightarrow> tlvpack" where
  "geo_serialize g p = tlvpack_push_child (tlv_of_pack mf_geo (geo_pack g)) p"

definition geo_unserialize :: "tlvpack \<Rightarrow> geo \<Rightarrow> bool \<times> geo" where
  "geo_unserialize p g =
    (True, \<lparr>geo_name = item_or mf_geo_name get_string (geo_name g) p,
            geo_lat = item_or mf_geo_lat get_u64 (geo_lat g) p,
            geo_long = item_or mf_geo_long get_u64 (geo_long g) p\<rparr>)"

definition geo_fields :: "geo \<Rightarrow> field list" where
  "geo_fields g = [(mf_geo_name, geo_name g), (mf_geo_lat, word_bytes 8 (geo_lat g)),
     (mf_geo_long, word_bytes 8 (geo_long g))]"

lemma geo_serialize_field [simp, pack_simps]:
  "pack_fields (geo_serialize g p) = pack_fields p @ [(mf_geo, pack_bytes (geo_fields g))]"
  "pack_ready (geo_serialize g p) \<longleftrightarrow> pack_ready p"
  by (simp_all add: geo_serialize_def geo_pack_def geo_fields_def)

lemma geo_unserialize_fields [simp, field_simps]: "geo_unserialize (pack_of (geo_fields g)) g0 = (True, g)"
  by (cases g) (simp add: geo_unserialize_def geo_fields_def)

text \<open>Of the reactions of a message only the mark that there are any is kept.\<close>

record message_reactions =
  reactions_exist :: bool

definition reactions_new :: message_reactions where
  "reactions_new = \<lparr>reactions_exist = False\<rparr>"

definition reactions_serialize :: "message_reactions \<Rightarrow> tlvpack \<Rightarrow> tlvpack" where
  "reactions_serialize r p =
    (let pack = tlvpack_push_child (tlv_of_scalar mf_reactions_exist (bool_bytes (reactions_exist r))) tlvpack_new
     in tlvpack_push_child (tlv_of_pack mf_reactions pack) p)"

definition reactions_unserialize :: "tlvpack \<Rightarrow> message_reactions \<Rightarrow> bool \<times> message_reactions" where
  "reactions_unserialize p r =
    (case tlvpack_get_item mf_reactions_exist p of
       None \<Rightarrow> (False, r)
     | Some item \<Rightarrow> (True, r\<lparr>reactions_exist := get_bool item\<rparr>))"

definition reactions_fields :: "message_reactions \<Rightarrow> field list" where
  "reactions_fields r = [(mf_reactions_exist, bool_bytes (reactions_exist r))]"

lemma reactions_serialize_field [simp, pack_simps]:
  "pack_fields (reactions_serialize r p) = pack_fields p @ [(mf_reactions, pack_bytes (reactions_fields r))]"
  "pack_ready (reactions_serialize r p) \<longleftrightarrow> pack_ready p"
  by (simp_all add: reactions_serialize_def reactions_fields_def)

lemma reactions_unserialize_fields [simp, field_simps]:
  "reactions_unserialize (pack_of (reactions_fields r)) r0 = (True, r)"
  by (cases r; cases r0) (simp add: reactions_unserialize_def reactions_fields_def)

type_synonym sticker_data = cstring

definition sticker_serialize :: "sticker_data \<Rightarrow> tlvpack \<Rightarrow> tlvpack" where
  "sticker_serialize st p = tlvpack_push_child (tlv_of_string mf_sticker_id st) p"

definition sticker_unserialize :: "tlvpack \<Rightarrow> sticker_data \<Rightarrow> int \<times> sticker_data" where
  "sticker_unserialize p st =
    (case tlvpack_get_item mf_sticker_id p of
       None \<Rightarrow> (-1, st)
     | Some tlv_id \<Rightarrow> (0, get_string_or [] tlv_id))"

definition sticker_fields :: "sticker_data \<Rightarrow> field list" where
  "sticker_fields st = [(mf_sticker_id, st)]"

lemma sticker_serialize_fields [simp, pack_simps]:
  "pack_fields (sticker_serialize st p) = pack_fields p @ sticker_fields st"
  "pack_ready (sticker_serialize st p) \<longleftrightarrow> pack_ready p"
  by (simp_all add: sticker_serialize_def sticker_fields_def)

lemma sticker_unserialize_fields [simp, field_simps]:
  "sticker_unserialize (pack_of (sticker_fields st)) st0 = (0, st)"
  by (simp add: sticker_unserialize_def sticker_fields_def)


subsection \<open>Lists of members\<close>

text \<open>A list of names is a pack whose tags are the positions.\<close>

fun push_members :: "nat \<Rightarrow> cstring list \<Rightarrow> tlvpack \<Rightarrow> tlvpack" where
  "push_members i [] p = p"
| "push_members i (m # ms) p = push_members (Suc i) ms (tlvpack_push_child (tlv_of_string (word_of_nat i) m) p)"

fun member_fields :: "nat \<Rightarrow> cstring list \<Rightarrow> field list" where
  "member_fields i [] = []"
| "member_fields i (m # ms) = (word_of_nat i, m) # member_fields (Suc i) ms"

lemma push_members_fields [simp, pack_simps]:
  "pack_fields (push_members i ms p) = pack_fields p @ member_fields i ms"
  "pack_ready (push_members i ms p) \<longleftrightarrow> pack_ready p"
  by (induction i ms p rule: push_members.induct) simp_all

lemma length_member_fields [simp]: "length (member_fields i ms) = length ms"
  by (induction i ms rule: member_fields.induct) simp_all

lemma length_pack_bytes_ge: "8 * length fs \<le> length (pack_bytes fs)"
  by (induction fs) simp_all

lemma word_of_nat_eq_u32: "i < 2 ^ 32 \<Longrightarrow> j < 2 ^ 32 \<Longrightarrow> (word_of_nat i = (word_of_nat j :: u32)) = (i = j)"
  by (metis unat_of_length)

lemma map_of_member_fields:
  "i < length ms \<Longrightarrow> k + length ms < 2 ^ 32 \<Longrightarrow> map_of (member_fields k ms) (word_of_nat (k + i)) = Some (ms ! i)"
proof (induction k ms arbitrary: i rule: member_fields.induct)
  case (2 k m ms)
  show ?case
  proof (cases i)
    case (Suc j)
    with 2 have "map_of (member_fields (Suc k) ms) (word_of_nat (Suc k + j)) = Some (ms ! j)" by simp
    moreover have "(word_of_nat (k + i) :: u32) \<noteq> word_of_nat k"
      using 2 Suc by (subst word_of_nat_eq_u32) auto
    ultimately show ?thesis using Suc by simp
  qed simp
qed simp

lemma members_readable:
  assumes "length (pack_bytes (member_fields 0 ms)) < 2 ^ 32"
  shows "unat (tlvpack_size (pack_of (member_fields 0 ms))) = length ms"
    and "i < length ms \<Longrightarrow> map_of (member_fields 0 ms) (word_of_nat i) = Some (ms ! i)"
proof -
  have l: "length ms < 2 ^ 32"
    using assms length_pack_bytes_ge [of "member_fields 0 ms"] by simp
  then show "unat (tlvpack_size (pack_of (member_fields 0 ms))) = length ms"
    by (simp add: tlvpack_size_def)
  show "i < length ms \<Longrightarrow> map_of (member_fields 0 ms) (word_of_nat i) = Some (ms ! i)"
    using map_of_member_fields [of i ms 0] l by simp
qed

subsection \<open>Calls\<close>

record voip_data =
  v_type :: int
  v_sid :: cstring
  v_sender_aimid :: cstring
  v_sender_friendly :: cstring
  v_duration_sec :: int
  v_is_incoming :: int
  v_is_video :: bool
  v_conf_members :: "cstring list"

abbreviation (input) voip_invalid :: int where "voip_invalid \<equiv> 0"
abbreviation (input) voip_min :: int where "voip_min \<equiv> 1"
abbreviation (input) voip_max :: int where "voip_max \<equiv> 6"

definition voip_new :: voip_data where
  "voip_new = \<lparr>v_type = voip_invalid, v_sid = [], v_sender_aimid = [], v_sender_friendly = [],
     v_duration_sec = -1, v_is_incoming = -1, v_is_video = False, v_conf_members = []\<rparr>"

definition voip_is_incoming :: "voip_data \<Rightarrow> bool" where
  "voip_is_incoming v = (0 < v_is_incoming v)"

definition voip_serialize :: "voip_data \<Rightarrow> tlvpack \<Rightarrow> tlvpack" where
  "voip_serialize v p =
    (let p = tlvpack_push_child (tlv_of_scalar mf_voip_event_type (i32_bytes (v_type v))) p;
         p = tlvpack_push_child (tlv_of_string mf_voip_sender_aimid (v_sender_aimid v)) p;
         p = tlvpack_push_child (tlv_of_string mf_voip_sender_friendly (v_sender_friendly v)) p;
         p = push_if (0 \<le> v_duration_sec v) (tlv_of_scalar mf_voip_duration (i32_bytes (v_duration_sec v))) p;
         p = push_if (0 \<le> v_is_incoming v) (tlv_of_scalar mf_voip_is_incoming (i32_bytes (v_is_incoming v))) p;
         p = push_if (v_is_video v) (tlv_of_scalar mf_voip_is_video (bool_bytes (v_is_video v))) p;
         p = push_if (v_conf_members v \<noteq> [])
               (tlv_of_pack mf_voip_conf_members (push_members 0 (v_conf_members v) tlvpack_new)) p
     in tlvpack_push_child (tlv_of_string mf_voip_sid (v_sid v)) p)"

definition unserialize_conf_members :: "tlvpack \<Rightarrow> cstring list \<Rightarrow> cstring list" where
  "unserialize_conf_members p ms =
    foldl (\<lambda>ms i. case tlvpack_get_item (word_of_nat i) p of
         None \<Rightarrow> ms
       | Some item \<Rightarrow> (let m = get_string item in if m = [] then ms else ms @ [m]))
     ms [0..<unat (tlvpack_size p)]"

definition voip_unserialize :: "tlvpack \<Rightarrow> voip_data \<Rightarrow> (bool \<times> voip_data) option" where
  "voip_unserialize p v =
    (case (tlvpack_get_item mf_voip_event_type p, tlvpack_get_item mf_voip_sender_aimid p,
           tlvpack_get_item mf_voip_sender_friendly p) of
       (Some type_item, Some aimid_item, Some friendly_item) \<Rightarrow>
        (let v = v\<lparr>v_type := get_i32 type_item\<rparr> in
         if \<not> (voip_min < v_type v \<and> v_type v < voip_max) then Some (False, v\<lparr>v_type := voip_invalid\<rparr>)
         else let v = v\<lparr>v_sender_aimid := get_string aimid_item\<rparr> in
         if v_sender_aimid v = [] then Some (False, v)
         else let v = v\<lparr>v_sender_friendly := get_string friendly_item\<rparr> in
         if v_sender_friendly v = [] then Some (False, v)
         else let v = v\<lparr>v_duration_sec := item_or mf_voip_duration (get_i32_or (-1)) (v_duration_sec v) p\<rparr>;
                  v = v\<lparr>v_is_incoming := item_or mf_voip_is_incoming (get_i32_or (-1)) (v_is_incoming v) p\<rparr>;
                  v = v\<lparr>v_is_video := item_or mf_voip_is_video get_bool (v_is_video v) p\<rparr> in
         do { members \<leftarrow> (case tlvpack_get_item mf_voip_conf_members p of
                None \<Rightarrow> Some (v_conf_members v)
              | Some tlv_conf \<Rightarrow> do { q \<leftarrow> get_pack tlv_conf; Some (unserialize_conf_members q (v_conf_members v)) });
              let v = v\<lparr>v_conf_members := members\<rparr>;
              Some (True, v\<lparr>v_sid := item_or mf_voip_sid get_string (v_sid v) p\<rparr>) })
     | _ \<Rightarrow> Some (False, v))"

definition voip_fields :: "voip_data \<Rightarrow> field list" where
  "voip_fields v =
    [(mf_voip_event_type, i32_bytes (v_type v)), (mf_voip_sender_aimid, v_sender_aimid v),
     (mf_voip_sender_friendly, v_sender_friendly v)]
    @ field_if (0 \<le> v_duration_sec v) mf_voip_duration (i32_bytes (v_duration_sec v))
    @ field_if (0 \<le> v_is_incoming v) mf_voip_is_incoming (i32_bytes (v_is_incoming v))
    @ field_if (v_is_video v) mf_voip_is_video (bool_bytes (v_is_video v))
    @ field_if (v_conf_members v \<noteq> []) mf_voip_conf_members (pack_bytes (member_fields 0 (v_conf_members v)))
    @ [(mf_voip_sid, v_sid v)]"

text \<open>A call with a type and the names of the sender; -1 is the only negative number a member has.\<close>

definition voip_ok :: "voip_data \<Rightarrow> bool" where
  "voip_ok v \<longleftrightarrow> voip_min < v_type v \<and> v_type v < voip_max \<and> v_sender_aimid v \<noteq> [] \<and>
    v_sender_friendly v \<noteq> [] \<and> -1 \<le> v_duration_sec v \<and> int32 (v_duration_sec v) \<and>
    -1 \<le> v_is_incoming v \<and> int32 (v_is_incoming v) \<and> [] \<notin> set (v_conf_members v)"

lemma voip_serialize_fields [simp, pack_simps]:
  "pack_fields (voip_serialize v p) = pack_fields p @ voip_fields v"
  "pack_ready (voip_serialize v p) \<longleftrightarrow> pack_ready p"
  by (simp_all add: voip_serialize_def voip_fields_def)

lemma unserialize_conf_members_fields:
  assumes "length (pack_bytes (member_fields 0 ms)) < 2 ^ 32" and "[] \<notin> set ms"
  shows "unserialize_conf_members (pack_of (member_fields 0 ms)) [] = ms"
proof -
  let ?step = "\<lambda>ms' i. case tlvpack_get_item (word_of_nat i) (pack_of (member_fields 0 ms)) of
         None \<Rightarrow> ms'
       | Some item \<Rightarrow> (let m = get_string item in if m = [] then ms' else ms' @ [m])"
  have "foldl ?step acc is = acc @ map ((!) ms) is" if "\<forall>i \<in> set is. i < length ms" for acc "is"
    using that
  proof (induction "is" arbitrary: acc)
    case (Cons i "is")
    then have "ms ! i \<noteq> []" using assms(2) by (metis list.set_intros(1) nth_mem)
    with Cons show ?case by (simp add: members_readable(2) [OF assms(1)])
  qed simp
  from this [of "[0..<length ms]" "[]"] show ?thesis
    by (simp add: unserialize_conf_members_def members_readable(1) [OF assms(1)] map_nth)
qed

lemma voip_unserialize_fields:
  assumes "voip_ok v" and "length (pack_bytes (voip_fields v)) < 2 ^ 32"
  shows "voip_unserialize (pack_of (voip_fields v)) voip_new = Some (True, v)"
proof -
  have t: "int32 (v_type v)" using assms(1) by (simp add: voip_ok_def in_signed_def)
  have m: "length (pack_bytes (member_fields 0 (v_conf_members v))) < 2 ^ 32" if "v_conf_members v \<noteq> []"
    using assms(2) that by (simp add: voip_fields_def split: if_splits)
  have neg: "v_duration_sec v = -1" if "v_duration_sec v < 0" using assms(1) that by (simp add: voip_ok_def)
  have neg': "v_is_incoming v = -1" if "v_is_incoming v < 0" using assms(1) that by (simp add: voip_ok_def)
  show ?thesis
    using assms(1) t m neg neg'
    by (cases "v_conf_members v = []"; cases v)
      (simp_all add: voip_unserialize_def voip_fields_def voip_new_def voip_ok_def
        unserialize_conf_members_fields)
qed

subsection \<open>Chats and files\<close>

record person =
  person_friendly :: cstring
  person_nick :: cstring
  person_official :: "bool option"

record chat_data =
  cd_sender :: cstring
  cd_friendly :: person
  cd_name :: cstring

definition chat_data_new :: chat_data where
  "chat_data_new = \<lparr>cd_sender = [],
     cd_friendly = \<lparr>person_friendly = [], person_nick = [], person_official = None\<rparr>, cd_name = []\<rparr>"

text \<open>
  The memory of a \<open>std::optional<bool>\<close>: the value, which is not set in an empty one, and the mark
  that there is one.
\<close>

definition optional_bool_bytes :: "bool \<Rightarrow> bool option \<Rightarrow> byte list" where
  "optional_bool_bytes junk b =
    (case b of None \<Rightarrow> bool_bytes junk @ bool_bytes False | Some b \<Rightarrow> bool_bytes b @ bool_bytes True)"

definition chat_serialize :: "bool \<Rightarrow> chat_data \<Rightarrow> tlvpack \<Rightarrow> tlvpack" where
  "chat_serialize junk c p =
    (let p = tlvpack_push_child (tlv_of_string mf_chat_sender (cd_sender c)) p;
         p = tlvpack_push_child (tlv_of_string mf_chat_name (cd_name c)) p;
         p = tlvpack_push_child (tlv_of_string mf_chat_friendly (person_friendly (cd_friendly c))) p
     in tlvpack_push_child (tlv_of_scalar mf_friendly_official
          (optional_bool_bytes junk (person_official (cd_friendly c)))) p)"

definition chat_unserialize :: "tlvpack \<Rightarrow> chat_data \<Rightarrow> int \<times> chat_data" where
  "chat_unserialize p c =
    (case (tlvpack_get_item mf_chat_sender p, tlvpack_get_item mf_chat_name p) of
       (Some tlv_sender, Some tlv_name) \<Rightarrow>
         (0, c\<lparr>cd_sender := get_string tlv_sender, cd_name := get_string tlv_name,
               cd_friendly := (cd_friendly c)
                 \<lparr>person_friendly := item_or mf_chat_friendly get_string (person_friendly (cd_friendly c)) p,
                  person_official := item_or mf_friendly_official (\<lambda>t. Some (get_bool t))
                    (person_official (cd_friendly c)) p\<rparr>\<rparr>)
     | _ \<Rightarrow> (-1, c))"

definition chat_fields :: "bool \<Rightarrow> chat_data \<Rightarrow> field list" where
  "chat_fields junk c = [(mf_chat_sender, cd_sender c), (mf_chat_name, cd_name c),
     (mf_chat_friendly, person_friendly (cd_friendly c)),
     (mf_friendly_official, optional_bool_bytes junk (person_official (cd_friendly c)))]"

text \<open>The nick is not written, and an unknown state comes back as a known one.\<close>

definition chat_stored :: "bool \<Rightarrow> chat_data \<Rightarrow> chat_data" where
  "chat_stored junk c = c\<lparr>cd_friendly := (cd_friendly c)\<lparr>person_nick := [],
     person_official := Some (case person_official (cd_friendly c) of None \<Rightarrow> junk | Some b \<Rightarrow> b)\<rparr>\<rparr>"

lemma chat_serialize_fields [simp, pack_simps]:
  "pack_fields (chat_serialize junk c p) = pack_fields p @ chat_fields junk c"
  "pack_ready (chat_serialize junk c p) \<longleftrightarrow> pack_ready p"
  by (simp_all add: chat_serialize_def chat_fields_def)

lemma chat_unserialize_fields [simp, field_simps]:
  "chat_unserialize (pack_of (chat_fields junk c)) chat_data_new = (0, chat_stored junk c)"
  by (cases c; cases "cd_friendly c")
    (auto simp: chat_unserialize_def chat_fields_def chat_stored_def chat_data_new_def
      optional_bool_bytes_def split: option.split)

record file_sharing_data =
  fs_uri :: cstring
  fs_local_path :: cstring
  fs_duration :: "int option"
  fs_base_content_type :: "int option"

definition file_sharing_serialize :: "file_sharing_data \<Rightarrow> tlvpack \<Rightarrow> tlvpack" where
  "file_sharing_serialize f p =
    (let p = (if fs_uri f \<noteq> [] then tlvpack_push_child (tlv_of_string mf_file_sharing_uri (fs_uri f)) p
              else tlvpack_push_child (tlv_of_string mf_file_sharing_local_path (fs_local_path f)) p);
         p = push_opt (\<lambda>d. tlvpack_push_child (tlv_of_scalar mf_file_sharing_duration (i64_bytes d))) (fs_duration f) p
     in push_opt (\<lambda>b. tlvpack_push_child (tlv_of_scalar mf_file_sharing_base_content_type (i32_bytes b)))
          (fs_base_content_type f) p)"

text \<open>The constructor from a pack dereferences the item of the path without a test.\<close>

definition file_sharing_unserialize :: "tlvpack \<Rightarrow> file_sharing_data option" where
  "file_sharing_unserialize p = do {
     (uri, path) \<leftarrow> (case tlvpack_get_item mf_file_sharing_uri p of
         Some uri_item \<Rightarrow> Some (get_string uri_item, [])
       | None \<Rightarrow> (case tlvpack_get_item mf_file_sharing_local_path p of
             None \<Rightarrow> None
           | Some item \<Rightarrow> Some ([], get_string item)));
     Some \<lparr>fs_uri = uri, fs_local_path = path,
       fs_duration = item_or mf_file_sharing_duration (\<lambda>t. Some (get_i64 t)) None p,
       fs_base_content_type = item_or mf_file_sharing_base_content_type (\<lambda>t. Some (get_i32 t)) None p\<rparr> }"

definition file_sharing_fields :: "file_sharing_data \<Rightarrow> field list" where
  "file_sharing_fields f =
    (if fs_uri f \<noteq> [] then (mf_file_sharing_uri, fs_uri f) else (mf_file_sharing_local_path, fs_local_path f))
    # opt_field mf_file_sharing_duration i64_bytes (fs_duration f)
    @ opt_field mf_file_sharing_base_content_type i32_bytes (fs_base_content_type f)"

text \<open>A file has an address or a path, not both.\<close>

definition file_sharing_ok :: "file_sharing_data \<Rightarrow> bool" where
  "file_sharing_ok f \<longleftrightarrow> (fs_uri f = [] \<or> fs_local_path f = []) \<and>
    opt_all int64 (fs_duration f) \<and> opt_all int32 (fs_base_content_type f)"

lemma file_sharing_serialize_fields [simp, pack_simps]:
  "pack_fields (file_sharing_serialize f p) = pack_fields p @ file_sharing_fields f"
  "pack_ready p \<Longrightarrow> pack_ready (file_sharing_serialize f p)"
  by (simp_all add: file_sharing_serialize_def file_sharing_fields_def Let_def
      push_opt_fields [where h = i64_bytes and ty = mf_file_sharing_duration]
      push_opt_fields [where h = i32_bytes and ty = mf_file_sharing_base_content_type])

lemma file_sharing_unserialize_fields:
  "file_sharing_ok f \<Longrightarrow> file_sharing_unserialize (pack_of (file_sharing_fields f)) = Some f"
  by (cases f; cases "fs_duration f"; cases "fs_base_content_type f")
    (auto simp: file_sharing_unserialize_def file_sharing_fields_def file_sharing_ok_def)

subsection \<open>Polls and tasks\<close>

record poll_answer =
  a_votes :: int
  a_text :: cstring
  a_answer_id :: cstring

record poll_data =
  poll_id :: cstring
  poll_type :: cstring
  poll_my_answer_id :: cstring
  poll_answers :: "poll_answer list"
  poll_closed :: bool
  poll_can_stop :: bool

definition poll_answer_new :: poll_answer where
  "poll_answer_new = \<lparr>a_votes = 0, a_text = [], a_answer_id = []\<rparr>"

definition poll_new :: poll_data where
  "poll_new = \<lparr>poll_id = [], poll_type = [], poll_my_answer_id = [], poll_answers = [],
     poll_closed = False, poll_can_stop = False\<rparr>"

definition push_answers :: "poll_answer list \<Rightarrow> tlvpack \<Rightarrow> tlvpack" where
  "push_answers as p = foldl (\<lambda>p a. tlvpack_push_child (tlv_of_string mf_poll_answer (a_text a)) p) p as"

definition serialize_poll :: "poll_data \<Rightarrow> tlvpack \<Rightarrow> tlvpack" where
  "serialize_poll d p =
    (let pack = tlvpack_new;
         pack = tlvpack_push_child (tlv_of_string mf_poll_id (poll_id d)) pack;
         pack = push_answers (poll_answers d) pack;
         pack = tlvpack_push_child (tlv_of_string mf_poll_type (poll_type d)) pack
     in tlvpack_push_child (tlv_of_pack mf_poll pack) p)"

definition unserialize_poll :: "tlvpack \<Rightarrow> poll_data option" where
  "unserialize_poll p = for_fields (\<lambda>fld d. Some
     (if tlv_type fld = mf_poll_answer then
        d\<lparr>poll_answers := poll_answers d @ [poll_answer_new\<lparr>a_text := get_string_or [] fld\<rparr>]\<rparr>
      else if tlv_type fld = mf_poll_id then d\<lparr>poll_id := get_string_or [] fld\<rparr>
      else if tlv_type fld = mf_poll_type then d\<lparr>poll_type := get_string_or [] fld\<rparr>
      else d)) p poll_new"

definition answer_fields :: "poll_answer list \<Rightarrow> field list" where
  "answer_fields as = map (\<lambda>a. (mf_poll_answer, a_text a)) as"

definition poll_fields :: "poll_data \<Rightarrow> field list" where
  "poll_fields d = (mf_poll_id, poll_id d) # answer_fields (poll_answers d) @ [(mf_poll_type, poll_type d)]"

text \<open>Only the id, the type and the texts of the answers are kept.\<close>

definition poll_stored :: "poll_data \<Rightarrow> poll_data" where
  "poll_stored d = poll_new\<lparr>poll_id := poll_id d, poll_type := poll_type d,
     poll_answers := map (\<lambda>a. poll_answer_new\<lparr>a_text := a_text a\<rparr>) (poll_answers d)\<rparr>"

lemma push_answers_fields [simp, pack_simps]:
  "pack_fields (push_answers as p) = pack_fields p @ answer_fields as"
  "pack_ready (push_answers as p) \<longleftrightarrow> pack_ready p"
  by (induction as arbitrary: p) (simp_all add: push_answers_def answer_fields_def)

lemma serialize_poll_fields [simp, pack_simps]:
  "pack_fields (serialize_poll d p) = pack_fields p @ [(mf_poll, pack_bytes (poll_fields d))]"
  "pack_ready (serialize_poll d p) \<longleftrightarrow> pack_ready p"
  by (simp_all add: serialize_poll_def poll_fields_def)

lemma unserialize_poll_fields [simp, field_simps]:
  "unserialize_poll (pack_of (poll_fields d)) = Some (poll_stored d)"
proof -
  let ?body = "\<lambda>fld (d :: poll_data). Some
     (if tlv_type fld = mf_poll_answer then
        d\<lparr>poll_answers := poll_answers d @ [poll_answer_new\<lparr>a_text := get_string_or [] fld\<rparr>]\<rparr>
      else if tlv_type fld = mf_poll_id then d\<lparr>poll_id := get_string_or [] fld\<rparr>
      else if tlv_type fld = mf_poll_type then d\<lparr>poll_type := get_string_or [] fld\<rparr>
      else d)"
  have "for_fields ?body (pack_of (answer_fields as)) e =
      Some (e\<lparr>poll_answers := poll_answers e @ map (\<lambda>a. poll_answer_new\<lparr>a_text := a_text a\<rparr>) as\<rparr>)" for as e
    by (induction as arbitrary: e) (simp_all add: answer_fields_def)
  then show ?thesis
    by (simp add: unserialize_poll_def poll_fields_def poll_stored_def poll_new_def)
qed

text \<open>Times in seconds and time points of the system clock, which count nanoseconds in 64 bits.\<close>

type_synonym time_point = int

abbreviation (input) ticks_per_second :: int where "ticks_per_second \<equiv> 1000000000"

definition to_seconds :: "time_point \<Rightarrow> int" where
  "to_seconds t = (if 0 \<le> t then t div ticks_per_second else - ((- t) div ticks_per_second))"

definition from_seconds :: "int \<Rightarrow> time_point" where
  "from_seconds secs = to_signed 64 (of_signed 64 (secs * ticks_per_second))"

datatype task_status = ts_unknown | ts_new_task | ts_in_progress | ts_ready | ts_rejected | ts_closed

definition status_to_string :: "task_status \<Rightarrow> cstring" where
  "status_to_string s = (case s of
     ts_new_task \<Rightarrow> ''new'' | ts_in_progress \<Rightarrow> ''in_progress'' | ts_ready \<Rightarrow> ''ready''
   | ts_rejected \<Rightarrow> ''rejected'' | ts_closed \<Rightarrow> ''closed'' | ts_unknown \<Rightarrow> ''new'')"

definition string_to_status :: "cstring \<Rightarrow> task_status" where
  "string_to_status s =
    (if s = ''new'' then ts_new_task
     else if s = ''in_progress'' then ts_in_progress
     else if s = ''ready'' then ts_ready
     else if s = ''rejected'' then ts_rejected
     else if s = ''closed'' then ts_closed
     else ts_new_task)"

lemma string_to_status_to_string: "string_to_status (status_to_string s) = (if s = ts_unknown then ts_new_task else s)"
  by (cases s) (simp_all add: string_to_status_def status_to_string_def)

lemma to_seconds_int64: "int64 t \<Longrightarrow> int64 (to_seconds t)"
  by (simp add: in_signed_def to_seconds_def) linarith

text \<open>
  A task of a message. Its state, its creator and its further times belong to the answers of the
  server; they are members here too, and neither written nor read.
\<close>

record task_data =
  task_id :: cstring
  task_title :: cstring
  task_assignee :: cstring
  task_end_time :: time_point
  task_state :: task_status
  task_creator :: cstring
  task_thread_id :: cstring
  task_create_time :: time_point
  task_last_change :: time_point
  task_allowed_statuses :: "task_status list"
  task_last_used :: time_point

definition task_new :: task_data where
  "task_new = \<lparr>task_id = [], task_title = [], task_assignee = [], task_end_time = 0,
     task_state = ts_unknown, task_creator = [], task_thread_id = [], task_create_time = 0,
     task_last_change = 0, task_allowed_statuses = [], task_last_used = 0\<rparr>"

definition serialize_task :: "task_data \<Rightarrow> tlvpack \<Rightarrow> tlvpack" where
  "serialize_task t p =
    (let pack = tlvpack_new;
         pack = (if task_id t \<noteq> [] then tlvpack_push_child (tlv_of_string mf_task_id (task_id t)) pack
                 else let pack = tlvpack_push_child (tlv_of_string mf_task_title (task_title t)) pack;
                          pack = tlvpack_push_child (tlv_of_string mf_task_assignee (task_assignee t)) pack
                      in tlvpack_push_child (tlv_of_scalar mf_task_end_time
                           (i64_bytes (to_seconds (task_end_time t)))) pack)
     in tlvpack_push_child (tlv_of_pack mf_task pack) p)"

definition unserialize_task :: "tlvpack \<Rightarrow> task_data" where
  "unserialize_task p =
    (let t = task_new;
         t = t\<lparr>task_id := item_or mf_task_id get_string (task_id t) p\<rparr>;
         t = t\<lparr>task_title := item_or mf_task_title get_string (task_title t) p\<rparr>;
         t = t\<lparr>task_assignee := item_or mf_task_assignee get_string (task_assignee t) p\<rparr>
     in t\<lparr>task_end_time := item_or mf_task_end_time (\<lambda>i. from_seconds (get_i64 i)) (task_end_time t) p\<rparr>)"

definition task_fields :: "task_data \<Rightarrow> field list" where
  "task_fields t =
    (if task_id t \<noteq> [] then [(mf_task_id, task_id t)]
     else [(mf_task_title, task_title t), (mf_task_assignee, task_assignee t),
           (mf_task_end_time, i64_bytes (to_seconds (task_end_time t)))])"

text \<open>A task with an id keeps only the id; one that was not sent yet its contents, to the second.\<close>

definition task_stored :: "task_data \<Rightarrow> task_data" where
  "task_stored t =
    (if task_id t \<noteq> [] then task_new\<lparr>task_id := task_id t\<rparr>
     else task_new\<lparr>task_title := task_title t, task_assignee := task_assignee t,
            task_end_time := from_seconds (to_seconds (task_end_time t))\<rparr>)"

lemma serialize_task_fields [simp, pack_simps]:
  "pack_fields (serialize_task t p) = pack_fields p @ [(mf_task, pack_bytes (task_fields t))]"
  "pack_ready (serialize_task t p) \<longleftrightarrow> pack_ready p"
  by (simp_all add: serialize_task_def task_fields_def Let_def)

lemma unserialize_task_fields [simp, field_simps]:
  "int64 (task_end_time t) \<Longrightarrow> unserialize_task (pack_of (task_fields t)) = task_stored t"
  by (simp add: unserialize_task_def task_fields_def task_stored_def task_new_def Let_def to_seconds_int64)

lemma seconds_roundtrip:
  assumes "int64 (s * ticks_per_second)"
  shows "to_seconds (from_seconds s) = s"
proof -
  have "(- (s * ticks_per_second)) div ticks_per_second = - s"
    using nonzero_mult_div_cancel_right [of ticks_per_second "- s"] by simp
  then show ?thesis using assms by (simp add: from_seconds_def to_signed_of_signed to_seconds_def)
qed

subsection \<open>Snippets\<close>

record url_snippet =
  sn_url :: cstring
  sn_content_type :: cstring
  sn_preview_url :: cstring
  sn_preview_width :: int
  sn_preview_height :: int
  sn_title :: cstring
  sn_description :: cstring

definition snippet_new :: "cstring \<Rightarrow> url_snippet" where
  "snippet_new url = \<lparr>sn_url = url, sn_content_type = [], sn_preview_url = [], sn_preview_width = 0,
     sn_preview_height = 0, sn_title = [], sn_description = []\<rparr>"

definition snippet_serialize :: "url_snippet \<Rightarrow> tlvpack \<Rightarrow> tlvpack" where
  "snippet_serialize s p =
    (let p = foldl (\<lambda>p (fld, v). push_if (v \<noteq> []) (tlv_of_string fld v) p) p
           [(mf_snippet_url, sn_url s), (mf_snippet_content_type, sn_content_type s),
            (mf_snippet_preview_url, sn_preview_url s), (mf_snippet_title, sn_title s),
            (mf_snippet_description, sn_description s)];
         p = push_if (sn_preview_width s \<noteq> 0) (tlv_of_scalar mf_snippet_preview_w (i32_bytes (sn_preview_width s))) p
     in push_if (sn_preview_height s \<noteq> 0) (tlv_of_scalar mf_snippet_preview_h (i32_bytes (sn_preview_height s))) p)"

definition snippet_unserialize :: "tlvpack \<Rightarrow> url_snippet \<Rightarrow> url_snippet" where
  "snippet_unserialize p s =
    \<lparr>sn_url = item_or mf_snippet_url (get_string_or []) (sn_url s) p,
     sn_content_type = item_or mf_snippet_content_type (get_string_or []) (sn_content_type s) p,
     sn_preview_url = item_or mf_snippet_preview_url (get_string_or []) (sn_preview_url s) p,
     sn_preview_width = item_or mf_snippet_preview_w (get_i32_or 0) (sn_preview_width s) p,
     sn_preview_height = item_or mf_snippet_preview_h (get_i32_or 0) (sn_preview_height s) p,
     sn_title = item_or mf_snippet_title (get_string_or []) (sn_title s) p,
     sn_description = item_or mf_snippet_description (get_string_or []) (sn_description s) p\<rparr>"

definition snippet_fields :: "url_snippet \<Rightarrow> field list" where
  "snippet_fields s =
    field_if (sn_url s \<noteq> []) mf_snippet_url (sn_url s)
    @ field_if (sn_content_type s \<noteq> []) mf_snippet_content_type (sn_content_type s)
    @ field_if (sn_preview_url s \<noteq> []) mf_snippet_preview_url (sn_preview_url s)
    @ field_if (sn_title s \<noteq> []) mf_snippet_title (sn_title s)
    @ field_if (sn_description s \<noteq> []) mf_snippet_description (sn_description s)
    @ field_if (sn_preview_width s \<noteq> 0) mf_snippet_preview_w (i32_bytes (sn_preview_width s))
    @ field_if (sn_preview_height s \<noteq> 0) mf_snippet_preview_h (i32_bytes (sn_preview_height s))"

definition snippet_ok :: "url_snippet \<Rightarrow> bool" where
  "snippet_ok s \<longleftrightarrow> int32 (sn_preview_width s) \<and> int32 (sn_preview_height s)"

lemma snippet_serialize_fields [simp, pack_simps]:
  "pack_fields (snippet_serialize s p) = pack_fields p @ snippet_fields s"
  "pack_ready (snippet_serialize s p) \<longleftrightarrow> pack_ready p"
  by (simp_all add: snippet_serialize_def snippet_fields_def)

lemma snippet_unserialize_fields [simp, field_simps]:
  "snippet_ok s \<Longrightarrow> snippet_unserialize (pack_of (snippet_fields s)) (snippet_new []) = s"
  by (cases s) (simp add: snippet_unserialize_def snippet_fields_def snippet_ok_def snippet_new_def)

end
