(* ===== verification/Quotes.thy ===== *)
theory Quotes
  imports Message_Parts
begin

text \<open>
  Quotes (\<open>class quote\<close> in \<open>core/archive/history_message.cpp\<close>): a message that is repeated in another
  one, with its own contact, place, poll, task and formatting. A member that has its initial value is
  not written, so a pack without the field stands for it.
\<close>

record quote =
  q_text :: cstring
  q_format :: "format_data option"
  q_sender :: cstring
  q_chat :: cstring
  q_chat_stamp :: cstring
  q_chat_name :: cstring
  q_sender_friendly :: cstring
  q_url :: cstring
  q_description :: cstring
  q_description_format :: "format_data option"
  q_time :: int
  q_set_id :: int
  q_sticker_id :: int
  q_msg_id :: int
  q_is_forward :: bool
  q_shared_contact :: "shared_contact option"
  q_geo :: "geo option"
  q_poll :: "poll_data option"
  q_task :: "task_data option"

definition quote_new :: quote where
  "quote_new = \<lparr>q_text = [], q_format = None, q_sender = [], q_chat = [], q_chat_stamp = [],
     q_chat_name = [], q_sender_friendly = [], q_url = [], q_description = [],
     q_description_format = None, q_time = -1, q_set_id = -1, q_sticker_id = -1, q_msg_id = -1,
     q_is_forward = False, q_shared_contact = None, q_geo = None, q_poll = None, q_task = None\<rparr>"

definition push_format :: "u32 \<Rightarrow> format_data \<Rightarrow> tlvpack \<Rightarrow> tlvpack" where
  "push_format ty f p = tlvpack_push_child (tlv_of_pack ty (format_serialize f tlvpack_new)) p"

definition quote_serialize :: "quote \<Rightarrow> tlvpack \<Rightarrow> tlvpack" where
  "quote_serialize q p =
    (let p = push_if (q_text q \<noteq> []) (tlv_of_string mf_quote_text (q_text q)) p;
         p = push_if (q_sender q \<noteq> []) (tlv_of_string mf_quote_sn (q_sender q)) p;
         p = push_if (q_chat q \<noteq> []) (tlv_of_string mf_quote_chat_id (q_chat q)) p;
         p = push_if (q_time q \<noteq> -1) (tlv_of_scalar mf_quote_time (i32_bytes (q_time q))) p;
         p = push_if (q_msg_id q \<noteq> -1) (tlv_of_scalar mf_quote_msg_id (i64_bytes (q_msg_id q))) p;
         p = push_if (q_sender_friendly q \<noteq> []) (tlv_of_string mf_quote_friendly (q_sender_friendly q)) p;
         p = push_if (q_set_id q \<noteq> -1) (tlv_of_scalar mf_quote_set_id (i32_bytes (q_set_id q))) p;
         p = push_if (q_sticker_id q \<noteq> -1) (tlv_of_scalar mf_quote_sticker_id (i32_bytes (q_sticker_id q))) p;
         p = tlvpack_push_child (tlv_of_scalar mf_quote_is_forward (bool_bytes (q_is_forward q))) p;
         p = push_if (q_chat_stamp q \<noteq> []) (tlv_of_string mf_quote_chat_stamp (q_chat_stamp q)) p;
         p = push_if (q_chat_name q \<noteq> []) (tlv_of_string mf_quote_chat_name (q_chat_name q)) p;
         p = push_if (q_url q \<noteq> []) (tlv_of_string mf_quote_url (q_url q)) p;
         p = push_if (q_description q \<noteq> []) (tlv_of_string mf_quote_description (q_description q)) p;
         p = push_opt shared_contact_serialize (q_shared_contact q) p;
         p = push_opt geo_serialize (q_geo q) p;
         p = push_opt serialize_poll (q_poll q) p;
         p = push_opt serialize_task (q_task q) p;
         p = push_opt (push_format mf_format) (q_format q) p
     in push_opt (push_format mf_description_format) (q_description_format q) p)"

text \<open>An entry that is a pack itself: the member it gives, or the old one.\<close>

definition item_pack :: "u32 \<Rightarrow> (tlvpack \<Rightarrow> 'a \<Rightarrow> 'a option) \<Rightarrow> 'a \<Rightarrow> tlvpack \<Rightarrow> 'a option" where
  "item_pack ty g x p = (case tlvpack_get_item ty p of
     None \<Rightarrow> Some x
   | Some item \<Rightarrow> Option.bind (get_pack item) (\<lambda>q. g q x))"

definition read_contact :: "tlvpack \<Rightarrow> shared_contact option \<Rightarrow> shared_contact option" where
  "read_contact q old = (case shared_contact_unserialize q shared_contact_new of
     (ok, contact) \<Rightarrow> if ok then Some contact else old)"

definition read_geo :: "tlvpack \<Rightarrow> geo option \<Rightarrow> geo option" where
  "read_geo q old = (case geo_unserialize q geo_new of (ok, g) \<Rightarrow> if ok then Some g else old)"

definition quote_unserialize :: "tlvpack \<Rightarrow> quote \<Rightarrow> quote option" where
  "quote_unserialize p q = do {
     contact \<leftarrow> item_pack mf_shared_contact (\<lambda>r x. Some (read_contact r x)) (q_shared_contact q) p;
     place \<leftarrow> item_pack mf_geo (\<lambda>r x. Some (read_geo r x)) (q_geo q) p;
     poll \<leftarrow> item_pack mf_poll (\<lambda>r x. map_option Some (unserialize_poll r)) (q_poll q) p;
     task \<leftarrow> item_pack mf_task (\<lambda>r x. Some (Some (unserialize_task r))) (q_task q) p;
     format \<leftarrow> item_pack mf_format (\<lambda>r x. map_option (Some \<circ> snd) (format_unserialize r)) (q_format q) p;
     description_format \<leftarrow> item_pack mf_description_format
       (\<lambda>r x. map_option (Some \<circ> snd) (format_unserialize r)) (q_description_format q) p;
     Some \<lparr>q_text = item_or mf_quote_text (get_string_or []) (q_text q) p,
       q_format = format,
       q_sender = item_or mf_quote_sn (get_string_or []) (q_sender q) p,
       q_chat = item_or mf_quote_chat_id (get_string_or []) (q_chat q) p,
       q_chat_stamp = item_or mf_quote_chat_stamp (get_string_or []) (q_chat_stamp q) p,
       q_chat_name = item_or mf_quote_chat_name (get_string_or []) (q_chat_name q) p,
       q_sender_friendly = item_or mf_quote_friendly (get_string_or []) (q_sender_friendly q) p,
       q_url = item_or mf_quote_url (get_string_or []) (q_url q) p,
       q_description = item_or mf_quote_description (get_string_or []) (q_description q) p,
       q_description_format = description_format,
       q_time = item_or mf_quote_time (get_i32_or (-1)) (q_time q) p,
       q_set_id = item_or mf_quote_set_id (get_i32_or (-1)) (q_set_id q) p,
       q_sticker_id = item_or mf_quote_sticker_id (get_i32_or (-1)) (q_sticker_id q) p,
       q_msg_id = item_or mf_quote_msg_id (get_i64_or (-1)) (q_msg_id q) p,
       q_is_forward = item_or mf_quote_is_forward (get_bool_or False) (q_is_forward q) p,
       q_shared_contact = contact, q_geo = place, q_poll = poll, q_task = task\<rparr> }"

subsection \<open>The fields of a quote\<close>

definition quote_fields :: "quote \<Rightarrow> field list" where
  "quote_fields q =
    field_if (q_text q \<noteq> []) mf_quote_text (q_text q)
    @ field_if (q_sender q \<noteq> []) mf_quote_sn (q_sender q)
    @ field_if (q_chat q \<noteq> []) mf_quote_chat_id (q_chat q)
    @ field_if (q_time q \<noteq> -1) mf_quote_time (i32_bytes (q_time q))
    @ field_if (q_msg_id q \<noteq> -1) mf_quote_msg_id (i64_bytes (q_msg_id q))
    @ field_if (q_sender_friendly q \<noteq> []) mf_quote_friendly (q_sender_friendly q)
    @ field_if (q_set_id q \<noteq> -1) mf_quote_set_id (i32_bytes (q_set_id q))
    @ field_if (q_sticker_id q \<noteq> -1) mf_quote_sticker_id (i32_bytes (q_sticker_id q))
    @ [(mf_quote_is_forward, bool_bytes (q_is_forward q))]
    @ field_if (q_chat_stamp q \<noteq> []) mf_quote_chat_stamp (q_chat_stamp q)
    @ field_if (q_chat_name q \<noteq> []) mf_quote_chat_name (q_chat_name q)
    @ field_if (q_url q \<noteq> []) mf_quote_url (q_url q)
    @ field_if (q_description q \<noteq> []) mf_quote_description (q_description q)
    @ opt_field mf_shared_contact (\<lambda>c. pack_bytes (contact_fields c)) (q_shared_contact q)
    @ opt_field mf_geo (\<lambda>g. pack_bytes (geo_fields g)) (q_geo q)
    @ opt_field mf_poll (\<lambda>d. pack_bytes (poll_fields d)) (q_poll q)
    @ opt_field mf_task (\<lambda>t. pack_bytes (task_fields t)) (q_task q)
    @ opt_field mf_format (\<lambda>f. pack_bytes (format_fields f)) (q_format q)
    @ opt_field mf_description_format (\<lambda>f. pack_bytes (format_fields f)) (q_description_format q)"

definition quote_ok :: "quote \<Rightarrow> bool" where
  "quote_ok q \<longleftrightarrow> int32 (q_time q) \<and> int64 (q_msg_id q) \<and> int32 (q_set_id q) \<and> int32 (q_sticker_id q) \<and>
    opt_all (\<lambda>t. int64 (task_end_time t)) (q_task q) \<and>
    opt_all (list_all range_ok) (q_format q) \<and> opt_all (list_all range_ok) (q_description_format q)"

definition quote_stored :: "quote \<Rightarrow> quote" where
  "quote_stored q = q\<lparr>q_poll := map_option poll_stored (q_poll q), q_task := map_option task_stored (q_task q)\<rparr>"

lemma push_format_fields [simp, pack_simps]:
  "pack_fields (push_format ty f p) = pack_fields p @ [(ty, pack_bytes (format_fields f))]"
  "pack_ready (push_format ty f p) \<longleftrightarrow> pack_ready p"
  by (simp_all add: push_format_def)

lemma push_parts [simp, pack_simps]:
  "pack_fields (push_opt shared_contact_serialize y0 p) = pack_fields p @ opt_field mf_shared_contact (\<lambda>a. pack_bytes (contact_fields a)) y0"
  "pack_fields (push_opt geo_serialize y1 p) = pack_fields p @ opt_field mf_geo (\<lambda>a. pack_bytes (geo_fields a)) y1"
  "pack_fields (push_opt serialize_poll y2 p) = pack_fields p @ opt_field mf_poll (\<lambda>a. pack_bytes (poll_fields a)) y2"
  "pack_fields (push_opt serialize_task y3 p) = pack_fields p @ opt_field mf_task (\<lambda>a. pack_bytes (task_fields a)) y3"
  "pack_fields (push_opt (push_format ty) y4 p) = pack_fields p @ opt_field ty (\<lambda>a. pack_bytes (format_fields a)) y4"
  "pack_ready p \<Longrightarrow> pack_ready (push_opt shared_contact_serialize y0 p)"
  "pack_ready p \<Longrightarrow> pack_ready (push_opt geo_serialize y1 p)"
  "pack_ready p \<Longrightarrow> pack_ready (push_opt serialize_poll y2 p)"
  "pack_ready p \<Longrightarrow> pack_ready (push_opt serialize_task y3 p)"
  "pack_ready p \<Longrightarrow> pack_ready (push_opt (push_format ty) y4 p)"
  by (simp_all add: push_opt_fields(2)) (rule push_opt_fields(1), simp_all)+

lemma quote_serialize_fields [simp, pack_simps]:
  "pack_fields (quote_serialize q p) = pack_fields p @ quote_fields q"
  "pack_ready p \<Longrightarrow> pack_ready (quote_serialize q p)"
  by (simp_all add: quote_serialize_def quote_fields_def Let_def)

lemma item_pack_pack_of:
  assumes "map_of fs ty = map_option (\<lambda>x. pack_bytes (gs x)) y"
    and "\<And>x. y = Some x \<Longrightarrow> length (pack_bytes (gs x)) < 2 ^ 32 \<and> g (pack_of (gs x)) None = Some (Some (h x))"
  shows "item_pack ty g None (pack_of fs) = Some (map_option h y)"
  using assms by (cases y) (simp_all add: item_pack_def)

lemma quote_pack_lookups:
  "map_of (quote_fields q) mf_shared_contact = map_option (\<lambda>c. pack_bytes (contact_fields c)) (q_shared_contact q)"
  "map_of (quote_fields q) mf_geo = map_option (\<lambda>g. pack_bytes (geo_fields g)) (q_geo q)"
  "map_of (quote_fields q) mf_poll = map_option (\<lambda>d. pack_bytes (poll_fields d)) (q_poll q)"
  "map_of (quote_fields q) mf_task = map_option (\<lambda>t. pack_bytes (task_fields t)) (q_task q)"
  "map_of (quote_fields q) mf_format = map_option (\<lambda>f. pack_bytes (format_fields f)) (q_format q)"
  "map_of (quote_fields q) mf_description_format =
    map_option (\<lambda>f. pack_bytes (format_fields f)) (q_description_format q)"
  by (auto simp: quote_fields_def)

lemma quote_pack_sizes:
  assumes "length (pack_bytes (quote_fields q)) < 2 ^ 32"
  shows "q_shared_contact q = Some c \<Longrightarrow> length (pack_bytes (contact_fields c)) < 2 ^ 32"
    and "q_geo q = Some g \<Longrightarrow> length (pack_bytes (geo_fields g)) < 2 ^ 32"
    and "q_poll q = Some d \<Longrightarrow> length (pack_bytes (poll_fields d)) < 2 ^ 32"
    and "q_task q = Some t \<Longrightarrow> length (pack_bytes (task_fields t)) < 2 ^ 32"
    and "q_format q = Some f \<Longrightarrow> length (pack_bytes (format_fields f)) < 2 ^ 32"
    and "q_description_format q = Some f' \<Longrightarrow> length (pack_bytes (format_fields f')) < 2 ^ 32"
  using assms by (simp_all add: quote_fields_def)

lemma quote_unserialize_fields:
  assumes "quote_ok q" and "length (pack_bytes (quote_fields q)) < 2 ^ 32"
  shows "quote_unserialize (pack_of (quote_fields q)) quote_new = Some (quote_stored q)"
proof -
  let ?p = "pack_of (quote_fields q)"
  note look = quote_pack_lookups [of q] and size = quote_pack_sizes [OF assms(2)]
  have 1: "item_pack mf_shared_contact (\<lambda>r x. Some (read_contact r x)) None ?p = Some (q_shared_contact q)"
    using item_pack_pack_of [OF look(1), of _ "\<lambda>c. c"] size(1) by (simp add: read_contact_def option.map_ident)
  have 2: "item_pack mf_geo (\<lambda>r x. Some (read_geo r x)) None ?p = Some (q_geo q)"
    using item_pack_pack_of [OF look(2), of _ "\<lambda>c. c"] size(2) by (simp add: read_geo_def option.map_ident)
  have 3: "item_pack mf_poll (\<lambda>r x. map_option Some (unserialize_poll r)) None ?p = Some (map_option poll_stored (q_poll q))"
    by (rule item_pack_pack_of [OF look(3)]) (simp add: size(3) [simplified])
  have 4: "item_pack mf_task (\<lambda>r x. Some (Some (unserialize_task r))) None ?p = Some (map_option task_stored (q_task q))"
    using assms(1) by (intro item_pack_pack_of [OF look(4)]) (simp add: size(4) [simplified] quote_ok_def)
  have 5: "item_pack mf_format (\<lambda>r x. map_option (Some \<circ> snd) (format_unserialize r)) None ?p = Some (q_format q)"
  proof -
    have "format_unserialize (pack_of (format_fields f)) = Some (False, f)" if "q_format q = Some f" for f
      using that assms(1) size(5) [OF that] by (intro format_unserialize_fields) (simp_all add: quote_ok_def)
    then show ?thesis
      using item_pack_pack_of [OF look(5), of "\<lambda>r x. map_option (Some \<circ> snd) (format_unserialize r)" "\<lambda>f. f"]
        size(5) by (simp add: option.map_ident)
  qed
  have 6: "item_pack mf_description_format (\<lambda>r x. map_option (Some \<circ> snd) (format_unserialize r)) None ?p =
      Some (q_description_format q)"
  proof -
    have "format_unserialize (pack_of (format_fields f)) = Some (False, f)" if "q_description_format q = Some f" for f
      using that assms(1) size(6) [OF that] by (intro format_unserialize_fields) (simp_all add: quote_ok_def)
    then show ?thesis
      using item_pack_pack_of [OF look(6), of "\<lambda>r x. map_option (Some \<circ> snd) (format_unserialize r)" "\<lambda>f. f"]
        size(6) by (simp add: option.map_ident)
  qed
  have new: "q_shared_contact quote_new = None" "q_geo quote_new = None" "q_poll quote_new = None"
      "q_task quote_new = None" "q_format quote_new = None" "q_description_format quote_new = None"
    by (simp_all add: quote_new_def)
  show ?thesis
    unfolding quote_unserialize_def new 1 2 3 4 5 6 Option.bind.bind_lunit
    using assms(1)
    by (simp add: quote_new_def quote_stored_def quote_ok_def quote_fields_def)
qed

end
