(* ===== verification/Chat_Event.thy ===== *)
theory Chat_Event
  imports Message_Parts
begin

text \<open>
  Events of a chat (\<open>class chat_event_data\<close> in \<open>core/archive/history_message.cpp\<close>): members that join
  or leave, changes of the name, the rules or the state of a chat, replies to a status, changes of a
  task. Which members of the object are written depends on its type, so does what is read back:
  \<open>chat_event_stored\<close> says what is left of an event.

  The constructor from a pack leaves the members without an initializer to chance when the pack has
  no value for them; \<open>junk\<close> is the value they have then. It dereferences the items it takes to be
  there; a pack that lacks one is undefined behaviour, the result \<open>None\<close>.
\<close>

subsection \<open>Types\<close>

type_synonym chat_event_type = int

abbreviation (input) cet_invalid :: int where "cet_invalid \<equiv> 0"
abbreviation (input) cet_min :: int where "cet_min \<equiv> 1"
abbreviation (input) cet_mchat_add_members :: int where "cet_mchat_add_members \<equiv> 3"
abbreviation (input) cet_mchat_invite :: int where "cet_mchat_invite \<equiv> 4"
abbreviation (input) cet_mchat_leave :: int where "cet_mchat_leave \<equiv> 5"
abbreviation (input) cet_mchat_del_members :: int where "cet_mchat_del_members \<equiv> 6"
abbreviation (input) cet_mchat_kicked :: int where "cet_mchat_kicked \<equiv> 7"
abbreviation (input) cet_chat_name_modified :: int where "cet_chat_name_modified \<equiv> 8"
abbreviation (input) cet_buddy_reg :: int where "cet_buddy_reg \<equiv> 9"
abbreviation (input) cet_buddy_found :: int where "cet_buddy_found \<equiv> 10"
abbreviation (input) cet_birthday :: int where "cet_birthday \<equiv> 11"
abbreviation (input) cet_generic :: int where "cet_generic \<equiv> 13"
abbreviation (input) cet_chat_description_modified :: int where "cet_chat_description_modified \<equiv> 14"
abbreviation (input) cet_message_deleted :: int where "cet_message_deleted \<equiv> 15"
abbreviation (input) cet_chat_rules_modified :: int where "cet_chat_rules_modified \<equiv> 16"
abbreviation (input) cet_chat_stamp_modified :: int where "cet_chat_stamp_modified \<equiv> 17"
abbreviation (input) cet_chat_join_moderation_modified :: int where "cet_chat_join_moderation_modified \<equiv> 18"
abbreviation (input) cet_chat_public_modified :: int where "cet_chat_public_modified \<equiv> 19"
abbreviation (input) cet_chat_trust_requied_modified :: int where "cet_chat_trust_requied_modified \<equiv> 20"
abbreviation (input) cet_mchat_adm_granted :: int where "cet_mchat_adm_granted \<equiv> 21"
abbreviation (input) cet_mchat_adm_revoked :: int where "cet_mchat_adm_revoked \<equiv> 22"
abbreviation (input) cet_mchat_allowed_to_write :: int where "cet_mchat_allowed_to_write \<equiv> 23"
abbreviation (input) cet_mchat_disallowed_to_write :: int where "cet_mchat_disallowed_to_write \<equiv> 24"
abbreviation (input) cet_mchat_waiting_for_approve :: int where "cet_mchat_waiting_for_approve \<equiv> 25"
abbreviation (input) cet_mchat_joining_approved :: int where "cet_mchat_joining_approved \<equiv> 26"
abbreviation (input) cet_mchat_joining_rejected :: int where "cet_mchat_joining_rejected \<equiv> 27"
abbreviation (input) cet_mchat_joining_canceled :: int where "cet_mchat_joining_canceled \<equiv> 28"
abbreviation (input) cet_warn_about_stranger :: int where "cet_warn_about_stranger \<equiv> 29"
abbreviation (input) cet_no_longer_stranger :: int where "cet_no_longer_stranger \<equiv> 30"
abbreviation (input) cet_status_reply :: int where "cet_status_reply \<equiv> 31"
abbreviation (input) cet_custom_status_reply :: int where "cet_custom_status_reply \<equiv> 32"
abbreviation (input) cet_task_changed :: int where "cet_task_changed \<equiv> 33"

definition type_has_mchat_members :: "chat_event_type \<Rightarrow> bool" where
  "type_has_mchat_members ty \<longleftrightarrow> ty \<in> {cet_mchat_add_members, cet_mchat_invite, cet_mchat_leave,
     cet_mchat_del_members, cet_mchat_kicked, cet_mchat_adm_granted, cet_mchat_adm_revoked,
     cet_mchat_allowed_to_write, cet_mchat_disallowed_to_write, cet_mchat_waiting_for_approve,
     cet_mchat_joining_approved, cet_mchat_joining_rejected, cet_mchat_joining_canceled}"

definition type_has_chat_modifications :: "chat_event_type \<Rightarrow> bool" where
  "type_has_chat_modifications ty \<longleftrightarrow> ty \<in> {cet_chat_name_modified, cet_chat_description_modified,
     cet_chat_rules_modified, cet_chat_stamp_modified, cet_chat_join_moderation_modified,
     cet_chat_public_modified, cet_chat_trust_requied_modified}"

definition type_has_sender_aimid :: "chat_event_type \<Rightarrow> bool" where
  "type_has_sender_aimid ty \<longleftrightarrow> ty \<notin> {cet_invalid, cet_min, cet_buddy_reg, cet_buddy_found,
     cet_birthday, cet_generic, cet_message_deleted, cet_warn_about_stranger, cet_no_longer_stranger,
     cet_task_changed}"

subsection \<open>The object\<close>

record task_change =
  tc_id :: cstring
  tc_title :: "cstring option"
  tc_assignee :: "cstring option"
  tc_end_time :: "time_point option"
  tc_status :: "task_status option"

definition task_change_new :: task_change where
  "task_change_new = \<lparr>tc_id = [], tc_title = None, tc_assignee = None, tc_end_time = None, tc_status = None\<rparr>"

record chat_event_data =
  ce_type :: chat_event_type
  ce_is_captcha_present :: bool
  ce_is_channel :: bool
  ce_sender_aimid :: cstring
  ce_sender_friendly :: cstring
  ce_members :: "cstring list"
  ce_members_friendly :: "cstring list"
  ce_requested_by :: cstring
  ce_requested_by_friendly :: cstring
  ce_new_name :: cstring
  ce_new_description :: cstring
  ce_new_rules :: cstring
  ce_new_stamp :: cstring
  ce_new_join_moderation :: bool
  ce_new_public :: bool
  ce_new_trust_required :: bool
  ce_sender_status :: cstring
  ce_sender_status_description :: cstring
  ce_owner_status :: cstring
  ce_owner_status_description :: cstring
  ce_task_editor :: cstring
  ce_task_change :: task_change
  ce_generic :: cstring

text \<open>An object before its constructor ran: the strings are empty, the rest is not set.\<close>

definition chat_event_raw :: "bool \<Rightarrow> chat_event_type \<Rightarrow> chat_event_data" where
  "chat_event_raw junk ty = \<lparr>ce_type = ty, ce_is_captcha_present = junk, ce_is_channel = junk,
     ce_sender_aimid = [], ce_sender_friendly = [], ce_members = [], ce_members_friendly = [],
     ce_requested_by = [], ce_requested_by_friendly = [], ce_new_name = [], ce_new_description = [],
     ce_new_rules = [], ce_new_stamp = [], ce_new_join_moderation = junk, ce_new_public = junk,
     ce_new_trust_required = junk, ce_sender_status = [], ce_sender_status_description = [],
     ce_owner_status = [], ce_owner_status_description = [], ce_task_editor = [],
     ce_task_change = task_change_new, ce_generic = []\<rparr>"

definition make_simple_event :: "bool \<Rightarrow> chat_event_type \<Rightarrow> chat_event_data" where
  "make_simple_event junk ty = (chat_event_raw junk ty)\<lparr>ce_is_captcha_present := False, ce_is_channel := False\<rparr>"

definition make_generic_event :: "bool \<Rightarrow> cstring \<Rightarrow> chat_event_data" where
  "make_generic_event junk text = (make_simple_event junk cet_generic)\<lparr>ce_generic := text\<rparr>"

definition is_type_deleted :: "chat_event_data \<Rightarrow> bool" where
  "is_type_deleted e = (ce_type e = cet_message_deleted)"

definition chat_event_contents_equal :: "chat_event_data \<Rightarrow> chat_event_data \<Rightarrow> bool" where
  "chat_event_contents_equal e rhs = (ce_type e = ce_type rhs)"

definition has_generic_text :: "chat_event_data \<Rightarrow> bool" where
  "has_generic_text e = (ce_type e = cet_generic)"

definition has_mchat_members :: "chat_event_data \<Rightarrow> bool" where
  "has_mchat_members e = type_has_mchat_members (ce_type e)"

definition has_chat_modifications :: "chat_event_data \<Rightarrow> bool" where
  "has_chat_modifications e = type_has_chat_modifications (ce_type e)"

definition has_sender_aimid :: "chat_event_data \<Rightarrow> bool" where
  "has_sender_aimid e = type_has_sender_aimid (ce_type e)"

definition is_status_reply :: "chat_event_data \<Rightarrow> bool" where
  "is_status_reply e = (ce_type e = cet_status_reply \<or> ce_type e = cet_custom_status_reply)"

subsection \<open>Writing\<close>

definition serialize_chat_modifications :: "chat_event_data \<Rightarrow> tlvpack \<Rightarrow> tlvpack" where
  "serialize_chat_modifications e p =
    (let p = push_if (ce_type e = cet_chat_name_modified) (tlv_of_string mf_chat_event_new_chat_name (ce_new_name e)) p;
         p = push_if (ce_type e = cet_chat_description_modified)
               (tlv_of_string mf_chat_event_new_chat_description (ce_new_description e)) p;
         p = push_if (ce_type e = cet_chat_rules_modified) (tlv_of_string mf_chat_event_new_chat_rules (ce_new_rules e)) p
     in push_if (ce_type e = cet_chat_stamp_modified) (tlv_of_string mf_chat_event_new_chat_stamp (ce_new_stamp e)) p)"

definition serialize_mchat_members :: "chat_event_data \<Rightarrow> tlvpack \<Rightarrow> tlvpack" where
  "serialize_mchat_members e p = tlvpack_push_child
     (tlv_of_pack mf_chat_event_mchat_members (push_members 0 (ce_members_friendly e) tlvpack_new)) p"

definition serialize_mchat_members_aimids :: "chat_event_data \<Rightarrow> tlvpack \<Rightarrow> tlvpack" where
  "serialize_mchat_members_aimids e p = tlvpack_push_child
     (tlv_of_pack mf_chat_event_mchat_members_aimids (push_members 0 (ce_members e) tlvpack_new)) p"

definition serialize_status_reply :: "chat_event_data \<Rightarrow> tlvpack \<Rightarrow> tlvpack" where
  "serialize_status_reply e p =
    (let p = tlvpack_push_child (tlv_of_string mf_chat_event_sender_status (ce_sender_status e)) p;
         p = tlvpack_push_child (tlv_of_string mf_chat_event_owner_status (ce_owner_status e)) p;
         p = tlvpack_push_child (tlv_of_string mf_chat_event_sender_status_desctiprion (ce_sender_status_description e)) p
     in tlvpack_push_child (tlv_of_string mf_chat_event_owner_status_description (ce_owner_status_description e)) p)"

definition serialize_task_change :: "chat_event_data \<Rightarrow> tlvpack \<Rightarrow> tlvpack" where
  "serialize_task_change e p =
    (let c = ce_task_change e;
         p = push_opt (\<lambda>s. tlvpack_push_child (tlv_of_string mf_task_title s)) (tc_title c) p;
         p = push_opt (\<lambda>s. tlvpack_push_child (tlv_of_string mf_task_assignee s)) (tc_assignee c) p;
         p = push_opt (\<lambda>s. tlvpack_push_child (tlv_of_scalar mf_task_end_time (i64_bytes (to_seconds s)))) (tc_end_time c) p;
         p = push_opt (\<lambda>s. tlvpack_push_child (tlv_of_string mf_task_status (status_to_string s))) (tc_status c) p
     in tlvpack_push_child (tlv_of_string mf_chat_event_task_editor (ce_task_editor e)) p)"

definition chat_event_serialize :: "chat_event_data \<Rightarrow> tlvpack \<Rightarrow> tlvpack" where
  "chat_event_serialize e p =
    (let p = tlvpack_push_child (tlv_of_scalar mf_chat_event_type (i32_bytes (ce_type e))) p;
         p = tlvpack_push_child (tlv_of_scalar mf_chat_is_channel (bool_bytes (ce_is_channel e))) p;
         p = push_if (ce_is_captcha_present e)
               (tlv_of_scalar mf_chat_event_is_captcha_present (bool_bytes (ce_is_captcha_present e))) p;
         p = (if has_sender_aimid e
              then tlvpack_push_child (tlv_of_string mf_chat_event_sender_friendly (ce_sender_friendly e))
                     (tlvpack_push_child (tlv_of_string mf_chat_event_sender_aimid (ce_sender_aimid e)) p)
              else p);
         p = (if has_mchat_members e
              then tlvpack_push_child (tlv_of_string mf_chat_requested_by_friendly (ce_requested_by_friendly e))
                     (tlvpack_push_child (tlv_of_string mf_chat_requested_by (ce_requested_by e))
                       (serialize_mchat_members_aimids e (serialize_mchat_members e p)))
              else p);
         p = (if has_chat_modifications e then serialize_chat_modifications e p else p);
         p = push_if (has_generic_text e) (tlv_of_string mf_chat_event_generic_text (ce_generic e)) p;
         p = (if is_status_reply e then serialize_status_reply e p else p)
     in if ce_type e = cet_task_changed then serialize_task_change e p else p)"

subsection \<open>Reading\<close>

definition read_string :: "u32 \<Rightarrow> tlvpack \<Rightarrow> cstring option" where
  "read_string ty p = map_option get_string (tlvpack_get_item ty p)"

definition deserialize_chat_modifications :: "tlvpack \<Rightarrow> chat_event_data \<Rightarrow> chat_event_data option" where
  "deserialize_chat_modifications p e = do {
     e \<leftarrow> (if ce_type e = cet_chat_name_modified
           then do { v \<leftarrow> read_string mf_chat_event_new_chat_name p; Some (e\<lparr>ce_new_name := v\<rparr>) } else Some e);
     e \<leftarrow> (if ce_type e = cet_chat_description_modified
           then do { v \<leftarrow> read_string mf_chat_event_new_chat_description p; Some (e\<lparr>ce_new_description := v\<rparr>) } else Some e);
     e \<leftarrow> (if ce_type e = cet_chat_rules_modified
           then do { v \<leftarrow> read_string mf_chat_event_new_chat_rules p; Some (e\<lparr>ce_new_rules := v\<rparr>) } else Some e);
     (if ce_type e = cet_chat_stamp_modified
      then do { v \<leftarrow> read_string mf_chat_event_new_chat_stamp p; Some (e\<lparr>ce_new_stamp := v\<rparr>) } else Some e) }"

text \<open>The members, for the positions of the list; every position has to be in the pack.\<close>

fun read_members :: "tlvpack \<Rightarrow> nat list \<Rightarrow> cstring list \<Rightarrow> cstring list option" where
  "read_members p [] ms = Some ms"
| "read_members p (i # is) ms = Option.bind (read_string (word_of_nat i) p) (\<lambda>m. read_members p is (ms @ [m]))"

definition deserialize_mchat_members :: "tlvpack \<Rightarrow> chat_event_data \<Rightarrow> chat_event_data option" where
  "deserialize_mchat_members p e =
    map_option (\<lambda>ms. e\<lparr>ce_members_friendly := ms\<rparr>)
      (read_members p [0..<unat (tlvpack_size p)] (ce_members_friendly e))"

definition deserialize_mchat_members_aimids :: "tlvpack \<Rightarrow> chat_event_data \<Rightarrow> chat_event_data option" where
  "deserialize_mchat_members_aimids p e =
    map_option (\<lambda>ms. e\<lparr>ce_members := ms\<rparr>) (read_members p [0..<unat (tlvpack_size p)] (ce_members e))"

definition deserialize_status_reply :: "tlvpack \<Rightarrow> chat_event_data \<Rightarrow> chat_event_data" where
  "deserialize_status_reply p e = e\<lparr>
     ce_sender_status := item_or mf_chat_event_sender_status get_string (ce_sender_status e) p,
     ce_owner_status := item_or mf_chat_event_owner_status get_string (ce_owner_status e) p,
     ce_sender_status_description :=
       item_or mf_chat_event_sender_status_desctiprion get_string (ce_sender_status_description e) p,
     ce_owner_status_description :=
       item_or mf_chat_event_owner_status_description get_string (ce_owner_status_description e) p\<rparr>"

definition deserialize_task_change :: "tlvpack \<Rightarrow> chat_event_data \<Rightarrow> chat_event_data" where
  "deserialize_task_change p e = (let c = ce_task_change e in e\<lparr>
     ce_task_editor := item_or mf_chat_event_task_editor get_string (ce_task_editor e) p,
     ce_task_change := c\<lparr>
       tc_title := item_or mf_task_title (\<lambda>t. Some (get_string t)) (tc_title c) p,
       tc_assignee := item_or mf_task_assignee (\<lambda>t. Some (get_string t)) (tc_assignee c) p,
       tc_end_time := item_or mf_task_end_time (\<lambda>t. Some (from_seconds (get_i64 t))) (tc_end_time c) p,
       tc_status := item_or mf_task_status (\<lambda>t. Some (string_to_status (get_string t))) (tc_status c) p\<rparr>\<rparr>)"

definition read_mchat :: "tlvpack \<Rightarrow> chat_event_data \<Rightarrow> chat_event_data option" where
  "read_mchat p e = do {
     e \<leftarrow> (case tlvpack_get_item mf_chat_event_mchat_members p of
             None \<Rightarrow> Some e
           | Some item \<Rightarrow> do { q \<leftarrow> get_pack item; deserialize_mchat_members q e });
     e \<leftarrow> (case tlvpack_get_item mf_chat_event_mchat_members_aimids p of
             None \<Rightarrow> Some e
           | Some item \<Rightarrow> do { q \<leftarrow> get_pack item; deserialize_mchat_members_aimids q e });
     Some (e\<lparr>ce_requested_by := item_or mf_chat_requested_by (get_string_or []) (ce_requested_by e) p,
             ce_requested_by_friendly :=
               item_or mf_chat_requested_by_friendly (get_string_or []) (ce_requested_by_friendly e) p\<rparr>) }"

definition read_sender :: "tlvpack \<Rightarrow> chat_event_data \<Rightarrow> chat_event_data" where
  "read_sender p e = e\<lparr>
     ce_sender_friendly := item_or mf_chat_event_sender_friendly get_string (ce_sender_friendly e) p,
     ce_sender_aimid := item_or mf_chat_event_sender_aimid (get_string_or []) (ce_sender_aimid e) p\<rparr>"

definition read_generic :: "tlvpack \<Rightarrow> chat_event_data \<Rightarrow> chat_event_data" where
  "read_generic p e = e\<lparr>ce_generic := item_or mf_chat_event_generic_text get_string (ce_generic e) p\<rparr>"

definition chat_event_unserialize :: "bool \<Rightarrow> tlvpack \<Rightarrow> chat_event_data option" where
  "chat_event_unserialize junk p = do {
     type_item \<leftarrow> tlvpack_get_item mf_chat_event_type p;
     let e = chat_event_raw junk (get_i32 type_item);
     let e = e\<lparr>ce_is_channel := item_or mf_chat_is_channel get_bool (ce_is_channel e) p,
               ce_is_captcha_present := item_or mf_chat_event_is_captcha_present get_bool False p\<rparr>;
     let e = (if has_sender_aimid e then read_sender p e else e);
     e \<leftarrow> (if has_mchat_members e then read_mchat p e else Some e);
     e \<leftarrow> (if has_chat_modifications e then deserialize_chat_modifications p e else Some e);
     let e = (if has_generic_text e then read_generic p e else e);
     let e = (if is_status_reply e then deserialize_status_reply p e else e);
     Some (if ce_type e = cet_task_changed then deserialize_task_change p e else e) }"

subsection \<open>What is kept of an event\<close>

definition mchat_fields :: "chat_event_data \<Rightarrow> field list" where
  "mchat_fields e =
    [(mf_chat_event_mchat_members, pack_bytes (member_fields 0 (ce_members_friendly e))),
     (mf_chat_event_mchat_members_aimids, pack_bytes (member_fields 0 (ce_members e))),
     (mf_chat_requested_by, ce_requested_by e),
     (mf_chat_requested_by_friendly, ce_requested_by_friendly e)]"

definition modification_fields :: "chat_event_data \<Rightarrow> field list" where
  "modification_fields e =
    field_if (ce_type e = cet_chat_name_modified) mf_chat_event_new_chat_name (ce_new_name e)
    @ field_if (ce_type e = cet_chat_description_modified) mf_chat_event_new_chat_description (ce_new_description e)
    @ field_if (ce_type e = cet_chat_rules_modified) mf_chat_event_new_chat_rules (ce_new_rules e)
    @ field_if (ce_type e = cet_chat_stamp_modified) mf_chat_event_new_chat_stamp (ce_new_stamp e)"

definition status_fields :: "chat_event_data \<Rightarrow> field list" where
  "status_fields e =
    [(mf_chat_event_sender_status, ce_sender_status e), (mf_chat_event_owner_status, ce_owner_status e),
     (mf_chat_event_sender_status_desctiprion, ce_sender_status_description e),
     (mf_chat_event_owner_status_description, ce_owner_status_description e)]"

definition change_fields :: "chat_event_data \<Rightarrow> field list" where
  "change_fields e = (let c = ce_task_change e in
    opt_field mf_task_title (\<lambda>s. s) (tc_title c)
    @ opt_field mf_task_assignee (\<lambda>s. s) (tc_assignee c)
    @ opt_field mf_task_end_time (\<lambda>s. i64_bytes (to_seconds s)) (tc_end_time c)
    @ opt_field mf_task_status status_to_string (tc_status c)
    @ [(mf_chat_event_task_editor, ce_task_editor e)])"

definition chat_event_fields :: "chat_event_data \<Rightarrow> field list" where
  "chat_event_fields e =
    [(mf_chat_event_type, i32_bytes (ce_type e)), (mf_chat_is_channel, bool_bytes (ce_is_channel e))]
    @ field_if (ce_is_captcha_present e) mf_chat_event_is_captcha_present (bool_bytes (ce_is_captcha_present e))
    @ fields_if (has_sender_aimid e)
        [(mf_chat_event_sender_aimid, ce_sender_aimid e), (mf_chat_event_sender_friendly, ce_sender_friendly e)]
    @ fields_if (has_mchat_members e) (mchat_fields e)
    @ fields_if (has_chat_modifications e) (modification_fields e)
    @ field_if (has_generic_text e) mf_chat_event_generic_text (ce_generic e)
    @ fields_if (is_status_reply e) (status_fields e)
    @ fields_if (ce_type e = cet_task_changed) (change_fields e)"

lemma serialize_task_change_fields:
  "pack_fields (serialize_task_change e p) = pack_fields p @ change_fields e"
  "pack_ready p \<Longrightarrow> pack_ready (serialize_task_change e p)"
  by (simp_all add: serialize_task_change_def change_fields_def Let_def
      push_opt_fields [where h = "\<lambda>s. s" and ty = mf_task_title]
      push_opt_fields [where h = "\<lambda>s. s" and ty = mf_task_assignee]
      push_opt_fields [where h = "\<lambda>s. i64_bytes (to_seconds s)" and ty = mf_task_end_time]
      push_opt_fields [where h = status_to_string and ty = mf_task_status])

lemma chat_event_serialize_fields [simp, pack_simps]:
  "pack_fields (chat_event_serialize e p) = pack_fields p @ chat_event_fields e"
  "pack_ready p \<Longrightarrow> pack_ready (chat_event_serialize e p)"
proof -
  have mods: "pack_fields (serialize_chat_modifications e q) = pack_fields q @ modification_fields e"
      "pack_ready q \<Longrightarrow> pack_ready (serialize_chat_modifications e q)" for q
    by (simp_all add: serialize_chat_modifications_def modification_fields_def)
  have status: "pack_fields (serialize_status_reply e q) = pack_fields q @ status_fields e"
      "pack_ready q \<Longrightarrow> pack_ready (serialize_status_reply e q)" for q
    by (simp_all add: serialize_status_reply_def status_fields_def)
  have members: "pack_fields (serialize_mchat_members_aimids e (serialize_mchat_members e q)) =
        pack_fields q @ take 2 (mchat_fields e)"
      "pack_ready q \<Longrightarrow> pack_ready (serialize_mchat_members_aimids e (serialize_mchat_members e q))" for q
    by (simp_all add: serialize_mchat_members_def serialize_mchat_members_aimids_def mchat_fields_def)
  show "pack_fields (chat_event_serialize e p) = pack_fields p @ chat_event_fields e"
    by (simp add: chat_event_serialize_def chat_event_fields_def fields_if_def mods status members
        serialize_task_change_fields mchat_fields_def)
  show "pack_ready p \<Longrightarrow> pack_ready (chat_event_serialize e p)"
    by (simp add: chat_event_serialize_def mods status members serialize_task_change_fields Let_def)
qed

text \<open>The groups the type calls for are kept, and a change of a task to the second.\<close>

definition change_stored :: "task_change \<Rightarrow> task_change" where
  "change_stored c = c\<lparr>tc_id := [], tc_end_time := map_option (\<lambda>t. from_seconds (to_seconds t)) (tc_end_time c),
     tc_status := map_option (\<lambda>s. if s = ts_unknown then ts_new_task else s) (tc_status c)\<rparr>"

definition keep_sender :: "chat_event_data \<Rightarrow> chat_event_data \<Rightarrow> chat_event_data" where
  "keep_sender e r = (if has_sender_aimid e then
     r\<lparr>ce_sender_aimid := ce_sender_aimid e, ce_sender_friendly := ce_sender_friendly e\<rparr> else r)"

definition keep_mchat :: "chat_event_data \<Rightarrow> chat_event_data \<Rightarrow> chat_event_data" where
  "keep_mchat e r = (if has_mchat_members e then
     r\<lparr>ce_members := ce_members e, ce_members_friendly := ce_members_friendly e,
       ce_requested_by := ce_requested_by e, ce_requested_by_friendly := ce_requested_by_friendly e\<rparr> else r)"

definition keep_modifications :: "chat_event_data \<Rightarrow> chat_event_data \<Rightarrow> chat_event_data" where
  "keep_modifications e r = (if has_chat_modifications e then
     r\<lparr>ce_new_name := if ce_type e = cet_chat_name_modified then ce_new_name e else [],
       ce_new_description := if ce_type e = cet_chat_description_modified then ce_new_description e else [],
       ce_new_rules := if ce_type e = cet_chat_rules_modified then ce_new_rules e else [],
       ce_new_stamp := if ce_type e = cet_chat_stamp_modified then ce_new_stamp e else []\<rparr> else r)"

definition keep_generic :: "chat_event_data \<Rightarrow> chat_event_data \<Rightarrow> chat_event_data" where
  "keep_generic e r = (if has_generic_text e then r\<lparr>ce_generic := ce_generic e\<rparr> else r)"

definition keep_status :: "chat_event_data \<Rightarrow> chat_event_data \<Rightarrow> chat_event_data" where
  "keep_status e r = (if is_status_reply e then
     r\<lparr>ce_sender_status := ce_sender_status e, ce_owner_status := ce_owner_status e,
       ce_sender_status_description := ce_sender_status_description e,
       ce_owner_status_description := ce_owner_status_description e\<rparr> else r)"

definition keep_change :: "chat_event_data \<Rightarrow> chat_event_data \<Rightarrow> chat_event_data" where
  "keep_change e r = (if ce_type e = cet_task_changed then
     r\<lparr>ce_task_editor := ce_task_editor e, ce_task_change := change_stored (ce_task_change e)\<rparr> else r)"

lemmas keep_defs = keep_sender_def keep_mchat_def keep_modifications_def keep_generic_def keep_status_def
  keep_change_def

definition chat_event_stored :: "bool \<Rightarrow> chat_event_data \<Rightarrow> chat_event_data" where
  "chat_event_stored junk e = keep_change e (keep_status e (keep_generic e (keep_modifications e
     (keep_mchat e (keep_sender e ((chat_event_raw junk (ce_type e))
       \<lparr>ce_is_captcha_present := ce_is_captcha_present e, ce_is_channel := ce_is_channel e\<rparr>))))))"

definition chat_event_ok :: "chat_event_data \<Rightarrow> bool" where
  "chat_event_ok e \<longleftrightarrow> int32 (ce_type e) \<and> opt_all int64 (tc_end_time (ce_task_change e))"

lemma read_members_fields:
  assumes "length (pack_bytes (member_fields 0 ms)) < 2 ^ 32"
  shows "read_members (pack_of (member_fields 0 ms))
    [0..<unat (tlvpack_size (pack_of (member_fields 0 ms)))] [] = Some ms"
proof -
  have "read_members (pack_of (member_fields 0 ms)) is acc = Some (acc @ map ((!) ms) is)"
    if "\<forall>i \<in> set is. i < length ms" for "is" acc
    using that
    by (induction "is" arbitrary: acc) (simp_all add: read_string_def members_readable(2) [OF assms])
  from this [of "[0..<length ms]" "[]"] show ?thesis
    by (simp add: members_readable(1) [OF assms] map_nth)
qed

lemma read_mchat_fields:
  assumes "length (pack_bytes (mchat_fields e)) < 2 ^ 32" and "ce_members r = []" and "ce_members_friendly r = []"
    and "map_of fs mf_chat_event_mchat_members = map_of (mchat_fields e) mf_chat_event_mchat_members"
    and "map_of fs mf_chat_event_mchat_members_aimids = map_of (mchat_fields e) mf_chat_event_mchat_members_aimids"
    and "map_of fs mf_chat_requested_by = Some (ce_requested_by e)"
    and "map_of fs mf_chat_requested_by_friendly = Some (ce_requested_by_friendly e)"
  shows "read_mchat (pack_of fs) r = Some (r\<lparr>ce_members := ce_members e,
    ce_members_friendly := ce_members_friendly e, ce_requested_by := ce_requested_by e,
    ce_requested_by_friendly := ce_requested_by_friendly e\<rparr>)"
proof -
  have "length (pack_bytes (member_fields 0 (ce_members e))) < 2 ^ 32"
      "length (pack_bytes (member_fields 0 (ce_members_friendly e))) < 2 ^ 32"
    using assms(1) by (simp_all add: mchat_fields_def)
  then show ?thesis
    using assms
    by (simp add: read_mchat_def mchat_fields_def deserialize_mchat_members_def
        deserialize_mchat_members_aimids_def read_members_fields)
qed

lemma groups_None [simp]:
  "ty \<notin> {mf_chat_event_mchat_members, mf_chat_event_mchat_members_aimids, mf_chat_requested_by,
    mf_chat_requested_by_friendly} \<Longrightarrow> map_of (mchat_fields e) ty = None"
  "ty \<notin> {mf_chat_event_new_chat_name, mf_chat_event_new_chat_description,
    mf_chat_event_new_chat_rules, mf_chat_event_new_chat_stamp} \<Longrightarrow> map_of (modification_fields e) ty = None"
  "ty \<notin> {mf_chat_event_sender_status, mf_chat_event_owner_status,
    mf_chat_event_sender_status_desctiprion, mf_chat_event_owner_status_description} \<Longrightarrow>
    map_of (status_fields e) ty = None"
  "ty \<notin> {mf_chat_event_task_editor, mf_task_title, mf_task_assignee, mf_task_end_time, mf_task_status} \<Longrightarrow>
    map_of (change_fields e) ty = None"
  by (auto simp: mchat_fields_def modification_fields_def status_fields_def change_fields_def Let_def)

lemma chat_event_lookup [field_simps]:
  shows "map_of (chat_event_fields e) mf_chat_event_type = Some (i32_bytes (ce_type e))"
    and "map_of (chat_event_fields e) mf_chat_is_channel = Some (bool_bytes (ce_is_channel e))"
    and "map_of (chat_event_fields e) mf_chat_event_is_captcha_present =
      (if ce_is_captcha_present e then Some (bool_bytes True) else None)"
    and "has_sender_aimid e \<Longrightarrow> map_of (chat_event_fields e) mf_chat_event_sender_aimid = Some (ce_sender_aimid e)"
    and "has_sender_aimid e \<Longrightarrow> map_of (chat_event_fields e) mf_chat_event_sender_friendly = Some (ce_sender_friendly e)"
    and "has_generic_text e \<Longrightarrow> map_of (chat_event_fields e) mf_chat_event_generic_text = Some (ce_generic e)"
  by (simp_all add: chat_event_fields_def)

lemma mchat_lookup:
  assumes "has_mchat_members e"
  shows "map_of (chat_event_fields e) mf_chat_event_mchat_members = map_of (mchat_fields e) mf_chat_event_mchat_members"
    and "map_of (chat_event_fields e) mf_chat_event_mchat_members_aimids = map_of (mchat_fields e) mf_chat_event_mchat_members_aimids"
    and "map_of (chat_event_fields e) mf_chat_requested_by = map_of (mchat_fields e) mf_chat_requested_by"
    and "map_of (chat_event_fields e) mf_chat_requested_by_friendly = map_of (mchat_fields e) mf_chat_requested_by_friendly"
  using assms by (simp_all add: chat_event_fields_def mchat_fields_def Let_def split: option.split)

lemma modification_lookup:
  assumes "has_chat_modifications e"
  shows "map_of (chat_event_fields e) mf_chat_event_new_chat_name = map_of (modification_fields e) mf_chat_event_new_chat_name"
    and "map_of (chat_event_fields e) mf_chat_event_new_chat_description = map_of (modification_fields e) mf_chat_event_new_chat_description"
    and "map_of (chat_event_fields e) mf_chat_event_new_chat_rules = map_of (modification_fields e) mf_chat_event_new_chat_rules"
    and "map_of (chat_event_fields e) mf_chat_event_new_chat_stamp = map_of (modification_fields e) mf_chat_event_new_chat_stamp"
  using assms by (simp_all add: chat_event_fields_def modification_fields_def Let_def split: option.split)

lemma status_lookup:
  assumes "is_status_reply e"
  shows "map_of (chat_event_fields e) mf_chat_event_sender_status = map_of (status_fields e) mf_chat_event_sender_status"
    and "map_of (chat_event_fields e) mf_chat_event_owner_status = map_of (status_fields e) mf_chat_event_owner_status"
    and "map_of (chat_event_fields e) mf_chat_event_sender_status_desctiprion = map_of (status_fields e) mf_chat_event_sender_status_desctiprion"
    and "map_of (chat_event_fields e) mf_chat_event_owner_status_description = map_of (status_fields e) mf_chat_event_owner_status_description"
  using assms by (simp_all add: chat_event_fields_def status_fields_def Let_def split: option.split)

lemma change_lookup:
  assumes "ce_type e = cet_task_changed"
  shows "map_of (chat_event_fields e) mf_chat_event_task_editor = map_of (change_fields e) mf_chat_event_task_editor"
    and "map_of (chat_event_fields e) mf_task_title = map_of (change_fields e) mf_task_title"
    and "map_of (chat_event_fields e) mf_task_assignee = map_of (change_fields e) mf_task_assignee"
    and "map_of (chat_event_fields e) mf_task_end_time = map_of (change_fields e) mf_task_end_time"
    and "map_of (chat_event_fields e) mf_task_status = map_of (change_fields e) mf_task_status"
  using assms by (simp_all add: chat_event_fields_def change_fields_def Let_def split: option.split)

lemma deserialize_chat_modifications_fields:
  assumes "has_chat_modifications e" and "ce_type r = ce_type e" and "ce_new_name r = []"
    and "ce_new_description r = []" and "ce_new_rules r = []" and "ce_new_stamp r = []"
  shows "deserialize_chat_modifications (pack_of (chat_event_fields e)) r = Some (r\<lparr>
    ce_new_name := if ce_type e = cet_chat_name_modified then ce_new_name e else [],
    ce_new_description := if ce_type e = cet_chat_description_modified then ce_new_description e else [],
    ce_new_rules := if ce_type e = cet_chat_rules_modified then ce_new_rules e else [],
    ce_new_stamp := if ce_type e = cet_chat_stamp_modified then ce_new_stamp e else []\<rparr>)"
  using assms(2-) modification_lookup [OF assms(1)]
  by (cases r) (simp add: deserialize_chat_modifications_def read_string_def modification_fields_def)

lemma deserialize_status_reply_fields:
  assumes "is_status_reply e"
  shows "deserialize_status_reply (pack_of (chat_event_fields e)) r = r\<lparr>
    ce_sender_status := ce_sender_status e, ce_owner_status := ce_owner_status e,
    ce_sender_status_description := ce_sender_status_description e,
    ce_owner_status_description := ce_owner_status_description e\<rparr>"
  by (simp add: deserialize_status_reply_def status_lookup [OF assms] status_fields_def)

lemma deserialize_task_change_fields:
  assumes "ce_type e = cet_task_changed" and "chat_event_ok e" and "ce_task_change r = task_change_new"
  shows "deserialize_task_change (pack_of (chat_event_fields e)) r =
    r\<lparr>ce_task_editor := ce_task_editor e, ce_task_change := change_stored (ce_task_change e)\<rparr>"
proof -
  have "int64 t" if "tc_end_time (ce_task_change e) = Some t" for t
    using assms(2) that by (simp add: chat_event_ok_def)
  then show ?thesis
    using assms(3)
    by (cases "ce_task_change e")
      (auto simp: deserialize_task_change_def change_lookup [OF assms(1)] change_fields_def Let_def
        change_stored_def task_change_new_def string_to_status_to_string to_seconds_int64)
qed


text \<open>The stages keep the type, and each finds the members it fills as they were before.\<close>

lemma keep_sel [simp]:
  "ce_type (keep_sender e r) = ce_type r" "ce_type (keep_mchat e r) = ce_type r"
  "ce_type (keep_modifications e r) = ce_type r" "ce_type (keep_generic e r) = ce_type r"
  "ce_type (keep_status e r) = ce_type r"
  "ce_members (keep_sender e r) = ce_members r" "ce_members_friendly (keep_sender e r) = ce_members_friendly r"
  "ce_new_name (keep_mchat e (keep_sender e r)) = ce_new_name r"
  "ce_new_description (keep_mchat e (keep_sender e r)) = ce_new_description r"
  "ce_new_rules (keep_mchat e (keep_sender e r)) = ce_new_rules r"
  "ce_new_stamp (keep_mchat e (keep_sender e r)) = ce_new_stamp r"
  "ce_task_change (keep_status e (keep_generic e (keep_modifications e (keep_mchat e (keep_sender e r))))) =
    ce_task_change r"
  by (simp_all add: keep_defs)

lemma same_type:
  assumes "ce_type r = ce_type e"
  shows "has_sender_aimid r = has_sender_aimid e" and "has_mchat_members r = has_mchat_members e"
    and "has_chat_modifications r = has_chat_modifications e" and "has_generic_text r = has_generic_text e"
    and "is_status_reply r = is_status_reply e"
  using assms by (simp_all add: has_sender_aimid_def has_mchat_members_def has_chat_modifications_def
      has_generic_text_def is_status_reply_def)

lemma stages:
  assumes "ce_type r = ce_type e"
  shows "(if has_sender_aimid r then read_sender (pack_of (chat_event_fields e)) r else r) = keep_sender e r"
    and "(if has_generic_text r then read_generic (pack_of (chat_event_fields e)) r else r) = keep_generic e r"
    and "(if is_status_reply r then deserialize_status_reply (pack_of (chat_event_fields e)) r else r) = keep_status e r"
  using same_type [OF assms]
  by (simp_all add: read_sender_def read_generic_def keep_defs chat_event_lookup deserialize_status_reply_fields)

lemma mchat_stage:
  assumes "length (pack_bytes (chat_event_fields e)) < 2 ^ 32" and "ce_type r = ce_type e"
    and "ce_members r = []" and "ce_members_friendly r = []"
  shows "(if has_mchat_members r then read_mchat (pack_of (chat_event_fields e)) r else Some r) = Some (keep_mchat e r)"
proof (cases "has_mchat_members e")
  case True
  then have "length (pack_bytes (mchat_fields e)) < 2 ^ 32" using assms(1) by (simp add: chat_event_fields_def)
  with True have "read_mchat (pack_of (chat_event_fields e)) r = Some (r\<lparr>ce_members := ce_members e,
      ce_members_friendly := ce_members_friendly e, ce_requested_by := ce_requested_by e,
      ce_requested_by_friendly := ce_requested_by_friendly e\<rparr>)"
    using assms(3,4) by (intro read_mchat_fields) (simp_all add: mchat_lookup, simp_all add: mchat_fields_def)
  with True show ?thesis by (simp add: same_type [OF assms(2)] keep_mchat_def)
qed (simp add: same_type [OF assms(2)] keep_mchat_def)

lemma modification_stage:
  assumes "ce_type r = ce_type e" and "ce_new_name r = []" and "ce_new_description r = []"
    and "ce_new_rules r = []" and "ce_new_stamp r = []"
  shows "(if has_chat_modifications r then deserialize_chat_modifications (pack_of (chat_event_fields e)) r else Some r) =
    Some (keep_modifications e r)"
  using assms by (simp add: same_type [OF assms(1)] keep_modifications_def deserialize_chat_modifications_fields)

lemma change_stage:
  assumes "ce_type r = ce_type e" and "chat_event_ok e" and "ce_task_change r = task_change_new"
  shows "(if ce_type r = cet_task_changed then deserialize_task_change (pack_of (chat_event_fields e)) r else r) =
    keep_change e r"
  using assms by (simp add: keep_change_def deserialize_task_change_fields)

lemma chat_event_unserialize_fields:
  assumes "chat_event_ok e" and "length (pack_bytes (chat_event_fields e)) < 2 ^ 32"
  shows "chat_event_unserialize junk (pack_of (chat_event_fields e)) = Some (chat_event_stored junk e)"
proof -
  let ?p = "pack_of (chat_event_fields e)"
  let ?r0 = "(chat_event_raw junk (ce_type e))
    \<lparr>ce_is_channel := ce_is_channel e, ce_is_captcha_present := ce_is_captcha_present e\<rparr>"
  have head: "tlvpack_get_item mf_chat_event_type ?p = Some (tlv_canon (mf_chat_event_type, i32_bytes (ce_type e)))"
      "get_i32 (tlv_canon (mf_chat_event_type, i32_bytes (ce_type e))) = ce_type e"
    using assms(1) by (simp_all add: chat_event_lookup chat_event_ok_def)
  obtain r where r: "(chat_event_raw junk (ce_type e))\<lparr>ce_is_channel := item_or mf_chat_is_channel get_bool
          (ce_is_channel (chat_event_raw junk (ce_type e))) ?p,
        ce_is_captcha_present := item_or mf_chat_event_is_captcha_present get_bool False ?p\<rparr> = r"
      "?r0 = r"
    by (simp add: chat_event_lookup)
  have raw: "ce_type r = ce_type e" "ce_members r = []" "ce_members_friendly r = []" "ce_new_name r = []"
      "ce_new_description r = []" "ce_new_rules r = []" "ce_new_stamp r = []"
      "ce_task_change r = task_change_new"
    by (simp_all add: chat_event_raw_def r(2) [symmetric])
  let ?r1 = "keep_sender e r" let ?r2 = "keep_mchat e ?r1" let ?r3 = "keep_modifications e ?r2"
  let ?r4 = "keep_generic e ?r3" let ?r5 = "keep_status e ?r4"
  have s1: "(if has_sender_aimid r then read_sender ?p r else r) = ?r1"
    by (rule stages(1) [OF raw(1)])
  have s2: "(if has_mchat_members ?r1 then read_mchat ?p ?r1 else Some ?r1) = Some ?r2"
    by (rule mchat_stage [OF assms(2)]) (simp_all add: raw)
  have s3: "(if has_chat_modifications ?r2 then deserialize_chat_modifications ?p ?r2 else Some ?r2) = Some ?r3"
    by (rule modification_stage) (simp_all add: raw)
  have s4: "(if has_generic_text ?r3 then read_generic ?p ?r3 else ?r3) = ?r4"
    by (rule stages(2)) (simp add: raw)
  have s5: "(if is_status_reply ?r4 then deserialize_status_reply ?p ?r4 else ?r4) = ?r5"
    by (rule stages(3)) (simp add: raw)
  have s6: "(if ce_type ?r5 = cet_task_changed then deserialize_task_change ?p ?r5 else ?r5) = keep_change e ?r5"
    by (rule change_stage [OF _ assms(1)]) (simp_all add: raw)
  have "chat_event_unserialize junk ?p = Some (keep_change e ?r5)"
    unfolding chat_event_unserialize_def Let_def head Option.bind.bind_lunit r s1 s2 s3 s4 s5 s6 by (rule refl)
  then show ?thesis by (simp add: chat_event_stored_def r(2) [symmetric] chat_event_raw_def)
qed

end
