(* ===== verification/Message_Contents.thy ===== *)
theory Message_Contents
  imports Message_Header Ordered_Map Quotes Chat_Event "HOL-Library.Char_ord" "HOL-Library.List_Lexorder"
begin

text \<open>
  The messages of the archive (\<open>class history_message\<close> in \<open>core/archive/history_message.cpp\<close>): the
  object with its parts, its flags, the pack it is written to and the function that reads it, the
  merge with a newer copy and the modifications of later patches.

  What rapidjson parses is a parameter, \<open>message_env\<close>: \<open>buttons_of\<close> is the reading of the keyboard,
  \<open>from_json\<close> the reading of a message from the answer of the server, which is applied to messages
  that an older client did not understand and kept as text. The map of mentions is ordered by its
  keys, as bytes. \<open>(uint64_t) time_\<close> has the bytes of \<open>time_\<close>.
\<close>

subsection \<open>The object\<close>

record button_data =
  button_text :: cstring
  button_url :: cstring
  button_callback_data :: cstring
  button_style :: cstring

record history_message =
  m_msgid :: int
  m_prev_msg_id :: int
  m_flags :: message_flags
  m_time :: int
  m_text :: cstring
  m_format :: "format_data option"
  m_data_offset :: int
  m_data_size :: u32
  m_internal_id :: cstring
  m_sender_friendly :: cstring
  m_update_patch_version :: patch_version
  m_sticker :: "sticker_data option"
  m_mult :: "unit option"
  m_voip :: "voip_data option"
  m_chat :: "chat_data option"
  m_file_sharing :: "file_sharing_data option"
  m_chat_event :: "chat_event_data option"
  m_quotes :: "quote list"
  m_mentions :: "(cstring, cstring) omap"
  m_snippets :: "url_snippet list"
  m_description :: cstring
  m_description_format :: "format_data option"
  m_url :: cstring
  m_shared_contact :: "shared_contact option"
  m_geo :: "geo option"
  m_poll :: "poll_data option"
  m_task :: "task_data option"
  m_json :: cstring
  m_sender_aimid :: cstring
  m_unsupported :: bool
  m_hide_edit :: bool
  m_buttons :: "button_data list list"
  m_buttons_json :: cstring
  m_reactions :: "message_reactions option"
  m_thread_id :: cstring

record message_env =
  junk :: bool
  buttons_of :: "cstring \<Rightarrow> button_data list list"
  from_json :: "cstring \<Rightarrow> cstring \<Rightarrow> history_message \<Rightarrow> int \<times> history_message"

definition message_new :: history_message where
  "message_new = \<lparr>m_msgid = -1, m_prev_msg_id = -1, m_flags = 0, m_time = 0, m_text = [],
     m_format = None, m_data_offset = -1, m_data_size = 0, m_internal_id = [], m_sender_friendly = [],
     m_update_patch_version = pv_new, m_sticker = None, m_mult = None, m_voip = None, m_chat = None,
     m_file_sharing = None, m_chat_event = None, m_quotes = [], m_mentions = [], m_snippets = [],
     m_description = [], m_description_format = None, m_url = [], m_shared_contact = None,
     m_geo = None, m_poll = None, m_task = None, m_json = [], m_sender_aimid = [],
     m_unsupported = False, m_hide_edit = False, m_buttons = [], m_buttons_json = [],
     m_reactions = None, m_thread_id = []\<rparr>"

lemma message_new_sel [simp]:
  "m_msgid message_new = -1"
  "m_prev_msg_id message_new = -1"
  "m_flags message_new = 0"
  "m_time message_new = 0"
  "m_text message_new = []"
  "m_format message_new = None"
  "m_data_offset message_new = -1"
  "m_data_size message_new = 0"
  "m_internal_id message_new = []"
  "m_sender_friendly message_new = []"
  "m_update_patch_version message_new = pv_new"
  "m_sticker message_new = None"
  "m_mult message_new = None"
  "m_voip message_new = None"
  "m_chat message_new = None"
  "m_file_sharing message_new = None"
  "m_chat_event message_new = None"
  "m_quotes message_new = []"
  "m_mentions message_new = []"
  "m_snippets message_new = []"
  "m_description message_new = []"
  "m_description_format message_new = None"
  "m_url message_new = []"
  "m_shared_contact message_new = None"
  "m_geo message_new = None"
  "m_poll message_new = None"
  "m_task message_new = None"
  "m_json message_new = []"
  "m_sender_aimid message_new = []"
  "m_unsupported message_new = False"
  "m_hide_edit message_new = False"
  "m_buttons message_new = []"
  "m_buttons_json message_new = []"
  "m_reactions message_new = None"
  "m_thread_id message_new = []"
  by (simp_all add: message_new_def)

subsection \<open>Writing\<close>

definition push_mentions :: "(cstring, cstring) omap \<Rightarrow> tlvpack \<Rightarrow> tlvpack" where
  "push_mentions ms p = foldl (\<lambda>p (sn, friendly).
     let pack = tlvpack_push_child (tlv_of_string mf_mention_sn sn) tlvpack_new;
         pack = tlvpack_push_child (tlv_of_string mf_mention_friendly friendly) pack
     in tlvpack_push_child (tlv_of_pack mf_mention pack) p) p ms"

definition push_each :: "u32 \<Rightarrow> ('a \<Rightarrow> tlvpack \<Rightarrow> tlvpack) \<Rightarrow> 'a list \<Rightarrow> tlvpack \<Rightarrow> tlvpack" where
  "push_each ty g xs p = foldl (\<lambda>p x. tlvpack_push_child (tlv_of_pack ty (g x tlvpack_new)) p) p xs"

definition push_part :: "u32 \<Rightarrow> ('a \<Rightarrow> tlvpack \<Rightarrow> tlvpack) \<Rightarrow> 'a option \<Rightarrow> tlvpack \<Rightarrow> tlvpack" where
  "push_part ty g x p = push_opt (\<lambda>a. tlvpack_push_child (tlv_of_pack ty (g a tlvpack_new))) x p"

definition message_pack :: "bool \<Rightarrow> history_message \<Rightarrow> cstring \<Rightarrow> tlvpack" where
  "message_pack jk m aimid =
    (let p = tlvpack_new;
         p = tlvpack_push_child (tlv_of_string mf_text (m_text m)) p;
         p = tlvpack_push_child (tlv_of_scalar mf_msg_id (i64_bytes (m_msgid m))) p;
         p = tlvpack_push_child (tlv_of_scalar mf_prev_msg_id (i64_bytes (m_prev_msg_id m))) p;
         p = tlvpack_push_child (tlv_of_scalar mf_flags (word_bytes 4 (m_flags m))) p;
         p = tlvpack_push_child (tlv_of_scalar mf_time (i64_bytes (m_time m))) p;
         p = tlvpack_push_child (tlv_of_string mf_internal_id (m_internal_id m)) p;
         p = tlvpack_push_child (tlv_of_string mf_sender_friendly (m_sender_friendly m)) p;
         p = tlvpack_push_child (tlv_of_string mf_update_patch_version (version_string (m_update_patch_version m))) p;
         p = tlvpack_push_child (tlv_of_scalar mf_offline_version (i32_bytes (offline_version (m_update_patch_version m)))) p;
         p = tlvpack_push_child (tlv_of_string mf_description (m_description m)) p;
         p = tlvpack_push_child (tlv_of_string mf_url (m_url m)) p;
         p = tlvpack_push_child (tlv_of_string mf_json (m_json m)) p;
         p = tlvpack_push_child (tlv_of_string mf_sender_aimid (m_sender_aimid m)) p;
         p = tlvpack_push_child (tlv_of_string mf_buttons (m_buttons_json m)) p;
         p = tlvpack_push_child (tlv_of_scalar mf_hide_edit (bool_bytes (m_hide_edit m))) p;
         p = push_if (m_thread_id m \<noteq> []) (tlv_of_string mf_thread_id (m_thread_id m)) p;
         p = push_part mf_format format_serialize (m_format m) p;
         p = push_part mf_chat (chat_serialize jk) (m_chat m) p;
         p = push_part mf_sticker sticker_serialize (m_sticker m) p;
         p = push_part mf_mult (\<lambda>_ q. q) (m_mult m) p;
         p = push_part mf_voip voip_serialize (m_voip m) p;
         p = push_part mf_file_sharing file_sharing_serialize (m_file_sharing m) p;
         p = push_part mf_chat_event chat_event_serialize (m_chat_event m) p;
         p = push_each mf_quote quote_serialize (m_quotes m) p;
         p = push_mentions (m_mentions m) p;
         p = push_each mf_snippet snippet_serialize (m_snippets m) p;
         p = push_opt shared_contact_serialize (m_shared_contact m) p;
         p = push_opt geo_serialize (m_geo m) p;
         p = push_opt serialize_poll (m_poll m) p;
         p = push_opt serialize_task (m_task m) p;
         p = push_opt reactions_serialize (m_reactions m) p;
         p = tlvpack_push_child (tlv_of_string mf_call_aimid aimid) p
     in push_part mf_description_format format_serialize (m_description_format m) p)"

definition serialize_call :: "bool \<Rightarrow> history_message \<Rightarrow> cstring \<Rightarrow> binary_stream \<Rightarrow> binary_stream" where
  "serialize_call jk m aimid s = snd (tlvpack_serialize (message_pack jk m aimid) s)"

definition message_serialize :: "bool \<Rightarrow> history_message \<Rightarrow> binary_stream \<Rightarrow> binary_stream" where
  "message_serialize jk m s = serialize_call jk m [] s"

subsection \<open>Reading\<close>

type_synonym reading_state = "history_message \<times> cstring"
type_synonym answer = "int \<times> history_message \<times> cstring"

text \<open>
  The part of the \<open>switch\<close> that reads \<open>mf_json\<close>; when the name of the sender is known, too, the rest
  of the pack is skipped and the message is read from the text.
\<close>

definition reparse :: "message_env \<Rightarrow> reading_state \<Rightarrow> (reading_state + answer) option" where
  "reparse env r = (case r of (m, aimid) \<Rightarrow>
     if m_json m \<noteq> [] \<and> m_sender_aimid m \<noteq> []
     then (case from_json env (m_json m) (m_sender_aimid m) m of (code, m) \<Rightarrow> Some (Inr (code, m, aimid)))
     else Some (Inl (m, aimid)))"

definition read_json :: "message_env \<Rightarrow> tlv \<Rightarrow> reading_state \<Rightarrow> (reading_state + answer) option" where
  "read_json env fld r = (case r of (m, aimid) \<Rightarrow> reparse env (m\<lparr>m_json := get_string_or [] fld\<rparr>, aimid))"

definition read_sender_aimid :: "message_env \<Rightarrow> tlv \<Rightarrow> reading_state \<Rightarrow> (reading_state + answer) option" where
  "read_sender_aimid env fld r =
    (case r of (m, aimid) \<Rightarrow> reparse env (m\<lparr>m_sender_aimid := get_string_or [] fld\<rparr>, aimid))"

text \<open>\<open>case mf_reactions\<close> has no \<open>break\<close>: it goes on with \<open>mf_json\<close>, on the value it has read up.\<close>

definition read_reactions :: "message_env \<Rightarrow> tlv \<Rightarrow> reading_state \<Rightarrow> (reading_state + answer) option" where
  "read_reactions env fld r = (case r of (m, aimid) \<Rightarrow> do {
     (q, fld) \<leftarrow> tlv_get_pack fld;
     let (ok, reactions) = reactions_unserialize q reactions_new;
     read_json env fld (if ok then m\<lparr>m_reactions := Some reactions\<rparr> else m, aimid) })"

definition read_mention :: "tlvpack \<Rightarrow> (cstring, cstring) omap \<Rightarrow> (cstring, cstring) omap" where
  "read_mention q ms = (case (tlvpack_get_item mf_mention_sn q, tlvpack_get_item mf_mention_friendly q) of
     (Some sn, Some fr) \<Rightarrow>
       (let sn_str = get_string sn; fr_str = get_string fr
        in if sn_str \<noteq> [] \<and> fr_str \<noteq> [] \<and> map_of ms sn_str = None then om_put sn_str fr_str ms else ms)
   | _ \<Rightarrow> ms)"

definition set_version :: "cstring \<Rightarrow> patch_version \<Rightarrow> patch_version" where
  "set_version v p = Patch_Version v (offline_version p)"

text \<open>The cases that only set members.\<close>

definition read_scalar :: "message_env \<Rightarrow> tlv \<Rightarrow> history_message \<Rightarrow> history_message" where
  "read_scalar env fld m = (let ty = tlv_type fld in
     if ty = mf_msg_id then m\<lparr>m_msgid := get_i64_or (m_msgid m) fld\<rparr>
     else if ty = mf_prev_msg_id then m\<lparr>m_prev_msg_id := get_i64_or (m_prev_msg_id m) fld\<rparr>
     else if ty = mf_flags then m\<lparr>m_flags := get_u32_or 0 fld\<rparr>
     else if ty = mf_time then m\<lparr>m_time := get_i64_or 0 fld\<rparr>
     else if ty = mf_internal_id then m\<lparr>m_internal_id := get_string_or [] fld\<rparr>
     else if ty = mf_sender_friendly then m\<lparr>m_sender_friendly := get_string_or [] fld\<rparr>
     else if ty = mf_text then m\<lparr>m_text := get_string_or [] fld\<rparr>
     else if ty = mf_update_patch_version
       then m\<lparr>m_update_patch_version := set_version (get_string_or [] fld) (m_update_patch_version m)\<rparr>
     else if ty = mf_offline_version
       then m\<lparr>m_update_patch_version := set_offline_version (get_i32 fld) (m_update_patch_version m)\<rparr>
     else if ty = mf_description then m\<lparr>m_description := get_string_or [] fld\<rparr>
     else if ty = mf_url then m\<lparr>m_url := get_string_or [] fld\<rparr>
     else if ty = mf_buttons
       then (let json = get_string_or [] fld in m\<lparr>m_buttons_json := json, m_buttons := buttons_of env json\<rparr>)
     else if ty = mf_hide_edit then m\<lparr>m_hide_edit := get_bool_or False fld\<rparr>
     else if ty = mf_thread_id then m\<lparr>m_thread_id := get_string_or [] fld\<rparr>
     else m)"

text \<open>The cases whose value is a pack; \<open>None\<close> when a constructor dereferences an item that is missing.\<close>

definition is_part :: "u32 \<Rightarrow> bool" where
  "is_part ty \<longleftrightarrow> ty \<in> {mf_format, mf_chat, mf_sticker, mf_mult, mf_voip, mf_file_sharing, mf_chat_event,
     mf_quote, mf_mention, mf_snippet, mf_description_format, mf_shared_contact, mf_geo, mf_poll, mf_task}"

definition read_part :: "message_env \<Rightarrow> u32 \<Rightarrow> tlvpack \<Rightarrow> history_message \<Rightarrow> history_message option" where
  "read_part env ty q m = (
     if ty = mf_format then map_option (\<lambda>(_, f). m\<lparr>m_format := Some f\<rparr>) (format_unserialize q)
     else if ty = mf_chat then Some (m\<lparr>m_chat := Some (snd (chat_unserialize q chat_data_new))\<rparr>)
     else if ty = mf_sticker then Some (m\<lparr>m_sticker := Some (snd (sticker_unserialize q []))\<rparr>)
     else if ty = mf_mult then Some (m\<lparr>m_mult := Some ()\<rparr>)
     else if ty = mf_voip
       then map_option (\<lambda>(ok, v). m\<lparr>m_voip := if ok then Some v else None\<rparr>) (voip_unserialize q voip_new)
     else if ty = mf_file_sharing
       then map_option (\<lambda>f. m\<lparr>m_file_sharing := Some f\<rparr>) (file_sharing_unserialize q)
     else if ty = mf_chat_event
       then map_option (\<lambda>e. m\<lparr>m_chat_event := Some e\<rparr>) (chat_event_unserialize (junk env) q)
     else if ty = mf_quote
       then map_option (\<lambda>x. m\<lparr>m_quotes := m_quotes m @ [x]\<rparr>) (quote_unserialize q quote_new)
     else if ty = mf_mention then Some (m\<lparr>m_mentions := read_mention q (m_mentions m)\<rparr>)
     else if ty = mf_snippet
       then Some (m\<lparr>m_snippets := m_snippets m @ [snippet_unserialize q (snippet_new [])]\<rparr>)
     else if ty = mf_description_format
       then map_option (\<lambda>(_, f). m\<lparr>m_description_format := Some f\<rparr>) (format_unserialize q)
     else if ty = mf_shared_contact then Some (m\<lparr>m_shared_contact := read_contact q (m_shared_contact m)\<rparr>)
     else if ty = mf_geo then Some (m\<lparr>m_geo := read_geo q (m_geo m)\<rparr>)
     else if ty = mf_poll then map_option (\<lambda>d. m\<lparr>m_poll := Some d\<rparr>) (unserialize_poll q)
     else if ty = mf_task then Some (m\<lparr>m_task := Some (unserialize_task q)\<rparr>)
     else Some m)"

definition read_field :: "message_env \<Rightarrow> tlv \<Rightarrow> reading_state \<Rightarrow> (reading_state + answer) option" where
  "read_field env fld r = (case r of (m, aimid) \<Rightarrow> let ty = tlv_type fld in
     if is_part ty then do { q \<leftarrow> get_pack fld; m \<leftarrow> read_part env ty q m; Some (Inl (m, aimid)) }
     else if ty = mf_reactions then read_reactions env fld r
     else if ty = mf_json then read_json env fld r
     else if ty = mf_sender_aimid then read_sender_aimid env fld r
     else if ty = mf_call_aimid then Some (Inl (m, get_string_or [] fld))
     else Some (Inl (read_scalar env fld m, aimid)))"

definition unserialize_call ::
  "message_env \<Rightarrow> binary_stream \<Rightarrow> history_message \<Rightarrow> cstring \<Rightarrow> (answer \<times> binary_stream) option" where
  "unserialize_call env s m aimid = do {
     (ok, p, s) \<leftarrow> tlvpack_unserialize tlvpack_new s;
     if \<not> ok then Some ((-1, m, aimid), s)
     else do {
       r \<leftarrow> each_field (read_field env) p (m, aimid);
       Some (case r of Inl (m, aimid) \<Rightarrow> (0, m, aimid) | Inr a \<Rightarrow> a, s) } }"

definition message_unserialize ::
  "message_env \<Rightarrow> binary_stream \<Rightarrow> history_message \<Rightarrow> (int \<times> history_message \<times> binary_stream) option" where
  "message_unserialize env s m = do {
     ((code, m, _), s) \<leftarrow> unserialize_call env s m [];
     Some (code, m, s) }"

end
