(* ===== verification/Message_Facts.thy ===== *)
theory Message_Facts
  imports Message_Contents
begin

text \<open>
  The round trip of a message: the fields of its pack, what reading each of them does to the object,
  and the message that is left (\<open>message_stored\<close>).
\<close>

subsection \<open>The fields of a message\<close>

definition mention_fields :: "cstring \<times> cstring \<Rightarrow> field list" where
  "mention_fields m = [(mf_mention_sn, fst m), (mf_mention_friendly, snd m)]"

definition each_part :: "u32 \<Rightarrow> ('a \<Rightarrow> field list) \<Rightarrow> 'a list \<Rightarrow> field list" where
  "each_part ty g xs = map (\<lambda>x. (ty, pack_bytes (g x))) xs"

definition part :: "u32 \<Rightarrow> ('a \<Rightarrow> field list) \<Rightarrow> 'a option \<Rightarrow> field list" where
  "part ty g x = opt_field ty (\<lambda>a. pack_bytes (g a)) x"

definition head_fields :: "history_message \<Rightarrow> field list" where
  "head_fields m =
    [(mf_text, m_text m), (mf_msg_id, i64_bytes (m_msgid m)), (mf_prev_msg_id, i64_bytes (m_prev_msg_id m)),
     (mf_flags, word_bytes 4 (m_flags m)), (mf_time, i64_bytes (m_time m)),
     (mf_internal_id, m_internal_id m), (mf_sender_friendly, m_sender_friendly m),
     (mf_update_patch_version, version_string (m_update_patch_version m)),
     (mf_offline_version, i32_bytes (offline_version (m_update_patch_version m))),
     (mf_description, m_description m), (mf_url, m_url m), (mf_json, m_json m),
     (mf_sender_aimid, m_sender_aimid m)]"

definition tail_fields :: "bool \<Rightarrow> history_message \<Rightarrow> cstring \<Rightarrow> field list" where
  "tail_fields jk m aimid =
    [(mf_buttons, m_buttons_json m), (mf_hide_edit, bool_bytes (m_hide_edit m))]
    @ field_if (m_thread_id m \<noteq> []) mf_thread_id (m_thread_id m)
    @ part mf_format format_fields (m_format m)
    @ part mf_chat (chat_fields jk) (m_chat m)
    @ part mf_sticker sticker_fields (m_sticker m)
    @ part mf_mult (\<lambda>_. []) (m_mult m)
    @ part mf_voip voip_fields (m_voip m)
    @ part mf_file_sharing file_sharing_fields (m_file_sharing m)
    @ part mf_chat_event chat_event_fields (m_chat_event m)
    @ each_part mf_quote quote_fields (m_quotes m)
    @ each_part mf_mention mention_fields (m_mentions m)
    @ each_part mf_snippet snippet_fields (m_snippets m)
    @ part mf_shared_contact contact_fields (m_shared_contact m)
    @ part mf_geo geo_fields (m_geo m)
    @ part mf_poll poll_fields (m_poll m)
    @ part mf_task task_fields (m_task m)
    @ part mf_reactions reactions_fields (m_reactions m)
    @ [(mf_call_aimid, aimid)]
    @ part mf_description_format format_fields (m_description_format m)"

definition message_fields :: "bool \<Rightarrow> history_message \<Rightarrow> cstring \<Rightarrow> field list" where
  "message_fields jk m aimid = head_fields m @ tail_fields jk m aimid"

lemma push_part_fields:
  assumes "\<And>a. pack_fields (g a tlvpack_new) = h a" and "\<And>a. pack_ready (g a tlvpack_new)"
  shows "pack_fields (push_part ty g x p) = pack_fields p @ part ty h x"
    and "pack_ready p \<Longrightarrow> pack_ready (push_part ty g x p)"
  using assms by (simp_all add: push_part_def push_opt_def part_def opt_field_def split: option.split)

lemma push_each_fields:
  assumes "\<And>a. pack_fields (g a tlvpack_new) = h a" and "\<And>a. pack_ready (g a tlvpack_new)"
  shows "pack_fields (push_each ty g xs p) = pack_fields p @ each_part ty h xs"
    and "pack_ready p \<Longrightarrow> pack_ready (push_each ty g xs p)"
  using assms by (induction xs arbitrary: p) (simp_all add: push_each_def each_part_def)

lemma push_mentions_fields:
  "pack_fields (push_mentions ms p) = pack_fields p @ each_part mf_mention mention_fields ms"
  "pack_ready p \<Longrightarrow> pack_ready (push_mentions ms p)"
  by (induction ms arbitrary: p) (simp_all add: push_mentions_def each_part_def mention_fields_def case_prod_beta)

lemma push_parts_ready [simp]:
  "pack_ready p \<Longrightarrow> pack_ready (push_part mf format_serialize a p)"
  "pack_ready p \<Longrightarrow> pack_ready (push_part mf (chat_serialize jk) b p)"
  "pack_ready p \<Longrightarrow> pack_ready (push_part mf sticker_serialize c p)"
  "pack_ready p \<Longrightarrow> pack_ready (push_part mf (\<lambda>_ q. q) d p)"
  "pack_ready p \<Longrightarrow> pack_ready (push_part mf voip_serialize e p)"
  "pack_ready p \<Longrightarrow> pack_ready (push_part mf file_sharing_serialize f p)"
  "pack_ready p \<Longrightarrow> pack_ready (push_part mf chat_event_serialize g p)"
  "pack_ready p \<Longrightarrow> pack_ready (push_each mf quote_serialize h p)"
  "pack_ready p \<Longrightarrow> pack_ready (push_each mf snippet_serialize i p)"
  "pack_ready p \<Longrightarrow> pack_ready (push_mentions j p)"
  "pack_ready p \<Longrightarrow> pack_ready (push_opt reactions_serialize k p)"
  by (auto intro!: push_part_fields(2) push_each_fields(2) push_mentions_fields push_opt_fields(2))

lemma push_part_list [simp]:
  "pack_fields (push_part mf format_serialize a p) = pack_fields p @ part mf format_fields a"
  "pack_fields (push_part mf (chat_serialize jk) b p) = pack_fields p @ part mf (chat_fields jk) b"
  "pack_fields (push_part mf sticker_serialize c p) = pack_fields p @ part mf sticker_fields c"
  "pack_fields (push_part mf (\<lambda>_ q. q) d p) = pack_fields p @ part mf (\<lambda>_. []) d"
  "pack_fields (push_part mf voip_serialize e p) = pack_fields p @ part mf voip_fields e"
  "pack_fields (push_part mf file_sharing_serialize f p) = pack_fields p @ part mf file_sharing_fields f"
  "pack_fields (push_part mf chat_event_serialize g p) = pack_fields p @ part mf chat_event_fields g"
  "pack_fields (push_each mf quote_serialize h p) = pack_fields p @ each_part mf quote_fields h"
  "pack_fields (push_each mf snippet_serialize i p) = pack_fields p @ each_part mf snippet_fields i"
  "pack_fields (push_opt reactions_serialize k p) = pack_fields p @ part mf_reactions reactions_fields k"
  by (rule push_part_fields push_each_fields, simp, simp)+ (simp add: part_def push_opt_def opt_field_def split: option.split)

lemma message_pack_fields:
  "pack_fields (message_pack jk m aimid) = message_fields jk m aimid" "pack_ready (message_pack jk m aimid)"
  by (simp_all add: message_pack_def message_fields_def head_fields_def tail_fields_def Let_def
      push_mentions_fields part_def [symmetric])


subsection \<open>What reading a field does\<close>

abbreviation went :: "history_message \<Rightarrow> cstring \<Rightarrow> (reading_state + answer) option" where
  "went m aimid \<equiv> Some (Inl (m, aimid))"

lemmas read_scalar_defs = read_field_def read_scalar_def is_part_def read_json_def read_sender_aimid_def

lemma read_head_fields:
  assumes "int64 (m_msgid m)" and "int64 (m_prev_msg_id m)" and "int64 (m_time m)"
    and "int32 (offline_version (m_update_patch_version m))"
  shows "each_field (read_field env) (pack_of (head_fields m)) (message_new, aimid) =
    reparse env (message_new\<lparr>m_msgid := m_msgid m, m_prev_msg_id := m_prev_msg_id m, m_flags := m_flags m,
      m_time := m_time m, m_text := m_text m, m_internal_id := m_internal_id m,
      m_sender_friendly := m_sender_friendly m, m_update_patch_version := m_update_patch_version m,
      m_description := m_description m, m_url := m_url m, m_json := m_json m,
      m_sender_aimid := m_sender_aimid m\<rparr>, aimid)"
  using assms
  by (cases "m_update_patch_version m")
    (simp add: head_fields_def each_field_pack_of read_scalar_defs reparse_def message_new_def
      set_version_def set_offline_version_def pv_new_def split: prod.split)

lemma read_part_field:
  assumes "is_part ty" and "\<And>y. x = Some y \<Longrightarrow> length (pack_bytes (g y)) < 2 ^ 32 \<and>
      read_part env ty (pack_of (g y)) m = Some (upd y)"
  shows "each_field (read_field env) (pack_of (part ty g x)) (m, a) =
    went (case x of None \<Rightarrow> m | Some y \<Rightarrow> upd y) a"
  using assms by (cases x) (simp_all add: part_def opt_field_def each_field_pack_of read_field_def)

lemma read_part_fields:
  assumes "is_part ty" and "\<And>y m. y \<in> set xs \<Longrightarrow> length (pack_bytes (g y)) < 2 ^ 32 \<and>
      read_part env ty (pack_of (g y)) m = Some (upd y m)"
  shows "each_field (read_field env) (pack_of (each_part ty g xs)) (m, a) = went (fold upd xs m) a"
  using assms by (induction xs arbitrary: m) (simp_all add: each_part_def each_field_pack_of read_field_def)

subsection \<open>The message that is left\<close>

definition message_stored :: "bool \<Rightarrow> message_env \<Rightarrow> history_message \<Rightarrow> history_message" where
  "message_stored jk env m = m\<lparr>
     m_data_offset := -1, m_data_size := 0, m_unsupported := False,
     m_chat := map_option (chat_stored jk) (m_chat m),
     m_chat_event := map_option (chat_event_stored (junk env)) (m_chat_event m),
     m_quotes := map quote_stored (m_quotes m),
     m_mentions := filter (\<lambda>(sn, friendly). sn \<noteq> [] \<and> friendly \<noteq> []) (m_mentions m),
     m_poll := map_option poll_stored (m_poll m),
     m_task := map_option task_stored (m_task m),
     m_json := (if m_reactions m = None then m_json m else []),
     m_buttons := buttons_of env (m_buttons_json m)\<rparr>"

definition message_ok :: "history_message \<Rightarrow> bool" where
  "message_ok m \<longleftrightarrow> int64 (m_msgid m) \<and> int64 (m_prev_msg_id m) \<and> int64 (m_time m) \<and>
    int32 (offline_version (m_update_patch_version m)) \<and>
    opt_all (list_all range_ok) (m_format m) \<and> opt_all (list_all range_ok) (m_description_format m) \<and>
    opt_all voip_ok (m_voip m) \<and> opt_all file_sharing_ok (m_file_sharing m) \<and>
    opt_all chat_event_ok (m_chat_event m) \<and> list_all quote_ok (m_quotes m) \<and>
    om_wf (m_mentions m) \<and> list_all snippet_ok (m_snippets m) \<and>
    opt_all (\<lambda>t. int64 (task_end_time t)) (m_task m)"

definition message_storable :: "bool \<Rightarrow> history_message \<Rightarrow> cstring \<Rightarrow> bool" where
  "message_storable jk m aimid \<longleftrightarrow> message_ok m \<and> length (pack_bytes (message_fields jk m aimid)) < 2 ^ 32"

text \<open>The parts in the order of the pack; each finds its member as the constructor left it.\<close>

lemma length_part [simp]:
  "length (pack_bytes (part ty g x)) = (case x of None \<Rightarrow> 0 | Some a \<Rightarrow> 8 + length (pack_bytes (g a)))"
  by (simp add: part_def)

lemma length_each_part: "x \<in> set xs \<Longrightarrow> length (pack_bytes (g x)) < length (pack_bytes (each_part ty g xs))"
  by (induction xs) (auto simp: each_part_def)

lemma read_quotes:
  assumes "list_all quote_ok qs" and "length (pack_bytes (each_part mf_quote quote_fields qs)) < 2 ^ 32"
  shows "each_field (read_field env) (pack_of (each_part mf_quote quote_fields qs)) (m, a) =
    went (m\<lparr>m_quotes := m_quotes m @ map quote_stored qs\<rparr>) a"
proof -
  have "length (pack_bytes (quote_fields q)) < 2 ^ 32 \<and> read_part env mf_quote (pack_of (quote_fields q)) m =
      Some (m\<lparr>m_quotes := m_quotes m @ [quote_stored q]\<rparr>)" if "q \<in> set qs" for q m
    using that assms length_each_part [OF that, of quote_fields mf_quote]
    by (simp add: read_part_def quote_unserialize_fields list_all_iff)
  then have "each_field (read_field env) (pack_of (each_part mf_quote quote_fields qs)) (m, a) =
      went (fold (\<lambda>q m. m\<lparr>m_quotes := m_quotes m @ [quote_stored q]\<rparr>) qs m) a"
    by (intro read_part_fields) (simp_all add: is_part_def)
  moreover have "fold (\<lambda>q m. m\<lparr>m_quotes := m_quotes m @ [quote_stored q]\<rparr>) qs m =
      m\<lparr>m_quotes := m_quotes m @ map quote_stored qs\<rparr>"
    by (induction qs arbitrary: m) simp_all
  ultimately show ?thesis by simp
qed

lemma read_snippets:
  assumes "list_all snippet_ok ss" and "length (pack_bytes (each_part mf_snippet snippet_fields ss)) < 2 ^ 32"
  shows "each_field (read_field env) (pack_of (each_part mf_snippet snippet_fields ss)) (m, a) =
    went (m\<lparr>m_snippets := m_snippets m @ ss\<rparr>) a"
proof -
  have "length (pack_bytes (snippet_fields s)) < 2 ^ 32 \<and> read_part env mf_snippet (pack_of (snippet_fields s)) m =
      Some (m\<lparr>m_snippets := m_snippets m @ [s]\<rparr>)" if "s \<in> set ss" for s m
    using that assms length_each_part [OF that, of snippet_fields mf_snippet]
    by (simp add: read_part_def list_all_iff)
  then have "each_field (read_field env) (pack_of (each_part mf_snippet snippet_fields ss)) (m, a) =
      went (fold (\<lambda>s m. m\<lparr>m_snippets := m_snippets m @ [s]\<rparr>) ss m) a"
    by (intro read_part_fields) (simp_all add: is_part_def)
  moreover have "fold (\<lambda>s m. m\<lparr>m_snippets := m_snippets m @ [s]\<rparr>) ss m = m\<lparr>m_snippets := m_snippets m @ ss\<rparr>"
    by (induction ss arbitrary: m) simp_all
  ultimately show ?thesis by simp
qed

lemma fold_mentions:
  assumes "om_wf (ms @ ns)"
  shows "fold (\<lambda>n ms. read_mention (pack_of (mention_fields n)) ms) ns ms =
    ms @ filter (\<lambda>(sn, friendly). sn \<noteq> [] \<and> friendly \<noteq> []) ns"
  using assms
proof (induction ns arbitrary: ms)
  case (Cons n ns)
  obtain k v where n: "n = (k, v)" by (cases n)
  have less: "\<forall>k' \<in> fst ` set ms. k' < k" using Cons.prems n by (auto simp: om_wf_append)
  then have "map_of ms k = None" by (auto simp: map_of_eq_None_iff)
  then have step: "read_mention (pack_of (mention_fields (k, v))) ms =
      (if k \<noteq> [] \<and> v \<noteq> [] then ms @ [(k, v)] else ms)"
    by (auto simp: read_mention_def mention_fields_def om_put_last [OF less])
  have "om_wf ((ms @ [n]) @ ns)" "om_wf (ms @ ns)" using Cons.prems by (auto simp: om_wf_append om_wf_Cons n)
  with Cons.IH [of "ms @ [n]"] Cons.IH [of ms] show ?case by (simp only: n fold_simps step) simp
qed simp

lemma read_mentions:
  assumes "om_wf ms" and "length (pack_bytes (each_part mf_mention mention_fields ms)) < 2 ^ 32" and "m_mentions m = []"
  shows "each_field (read_field env) (pack_of (each_part mf_mention mention_fields ms)) (m, a) =
    went (m\<lparr>m_mentions := filter (\<lambda>(sn, friendly). sn \<noteq> [] \<and> friendly \<noteq> []) ms\<rparr>) a"
proof -
  have "length (pack_bytes (mention_fields n)) < 2 ^ 32 \<and> read_part env mf_mention (pack_of (mention_fields n)) m =
      Some (m\<lparr>m_mentions := read_mention (pack_of (mention_fields n)) (m_mentions m)\<rparr>)" if "n \<in> set ms" for n m
    using assms(2) length_each_part [OF that, of mention_fields mf_mention] by (simp add: read_part_def)
  then have "each_field (read_field env) (pack_of (each_part mf_mention mention_fields ms)) (m, a) =
      went (fold (\<lambda>n m. m\<lparr>m_mentions := read_mention (pack_of (mention_fields n)) (m_mentions m)\<rparr>) ms m) a"
    by (intro read_part_fields) (simp_all add: is_part_def)
  moreover have "fold (\<lambda>n m. m\<lparr>m_mentions := read_mention (pack_of (mention_fields n)) (m_mentions m)\<rparr>) ms m =
      m\<lparr>m_mentions := fold (\<lambda>n ms. read_mention (pack_of (mention_fields n)) ms) ms (m_mentions m)\<rparr>"
    by (induction ms arbitrary: m) simp_all
  ultimately show ?thesis using fold_mentions [of "[]" ms] assms(1,3) by simp
qed

lemma read_reactions_field:
  assumes "m_reactions m = None"
  shows "each_field (read_field env) (pack_of (part mf_reactions reactions_fields r)) (m, a) =
    went (m\<lparr>m_reactions := r, m_json := if r = None then m_json m else []\<rparr>) a"
proof (cases r)
  case (Some x)
  let ?t = "tlv_canon (mf_reactions, pack_bytes (reactions_fields x))"
  have "tlvpack_unserialize tlvpack_new (value_stream ?t) = Some (True, pack_of (reactions_fields x),
      bs_skip (length (pack_bytes (reactions_fields x))) (value_stream ?t))"
    by (rule tlvpack_unserialize_pack_of) (simp_all add: reactions_fields_def)
  then have "tlv_get_pack ?t = Some (pack_of (reactions_fields x),
      ?t\<lparr>value_stream := bs_skip (length (pack_bytes (reactions_fields x))) (value_stream ?t)\<rparr>)" (is "_ = Some (_, ?t')")
    by (simp add: tlv_get_pack_def)
  moreover have "get_string_or [] ?t' = []"
    by (simp add: get_string_or_def tlv_get_string_value)
  ultimately show ?thesis
    using Some by (simp add: part_def opt_field_def each_field_pack_of read_field_def is_part_def
        read_reactions_def read_json_def reparse_def)
qed (use assms in \<open>simp add: part_def opt_field_def each_field_pack_of\<close>)


lemma read_optional:
  assumes "is_part ty" and "\<And>y. x = Some y \<Longrightarrow> length (pack_bytes (g y)) < 2 ^ 32 \<and>
      read_part env ty (pack_of (g y)) m = Some (upd (\<lambda>_. Some (h y)) m)"
    and "upd (\<lambda>_. None) m = m"
  shows "each_field (read_field env) (pack_of (part ty g x)) (m, a) = went (upd (\<lambda>_. map_option h x) m) a"
  using read_part_field [of ty x g env m "\<lambda>y. upd (\<lambda>_. Some (h y)) m" a] assms by (cases x) simp_all

lemma map_option_unit: "map_option (\<lambda>_. ()) x = x"
  by (cases x) simp_all

lemma read_parts:
  assumes "message_ok m0" and "length (pack_bytes (tail_fields jk m0 aimid)) < 2 ^ 32"
  shows "m_format m = None \<Longrightarrow>
      each_field (read_field env) (pack_of (part mf_format format_fields (m_format m0))) (m, a) =
      went (m\<lparr>m_format := m_format m0\<rparr>) a"
    and "m_chat m = None \<Longrightarrow>
      each_field (read_field env) (pack_of (part mf_chat (chat_fields jk) (m_chat m0))) (m, a) =
      went (m\<lparr>m_chat := map_option (chat_stored jk) (m_chat m0)\<rparr>) a"
    and "m_sticker m = None \<Longrightarrow>
      each_field (read_field env) (pack_of (part mf_sticker sticker_fields (m_sticker m0))) (m, a) =
      went (m\<lparr>m_sticker := m_sticker m0\<rparr>) a"
    and "m_mult m = None \<Longrightarrow>
      each_field (read_field env) (pack_of (part mf_mult (\<lambda>_. []) (m_mult m0))) (m, a) =
      went (m\<lparr>m_mult := m_mult m0\<rparr>) a"
    and "m_voip m = None \<Longrightarrow>
      each_field (read_field env) (pack_of (part mf_voip voip_fields (m_voip m0))) (m, a) =
      went (m\<lparr>m_voip := m_voip m0\<rparr>) a"
    and "m_file_sharing m = None \<Longrightarrow>
      each_field (read_field env) (pack_of (part mf_file_sharing file_sharing_fields (m_file_sharing m0))) (m, a) =
      went (m\<lparr>m_file_sharing := m_file_sharing m0\<rparr>) a"
    and "m_chat_event m = None \<Longrightarrow>
      each_field (read_field env) (pack_of (part mf_chat_event chat_event_fields (m_chat_event m0))) (m, a) =
      went (m\<lparr>m_chat_event := map_option (chat_event_stored (junk env)) (m_chat_event m0)\<rparr>) a"
    and "m_shared_contact m = None \<Longrightarrow>
      each_field (read_field env) (pack_of (part mf_shared_contact contact_fields (m_shared_contact m0))) (m, a) =
      went (m\<lparr>m_shared_contact := m_shared_contact m0\<rparr>) a"
    and "m_geo m = None \<Longrightarrow>
      each_field (read_field env) (pack_of (part mf_geo geo_fields (m_geo m0))) (m, a) =
      went (m\<lparr>m_geo := m_geo m0\<rparr>) a"
    and "m_poll m = None \<Longrightarrow>
      each_field (read_field env) (pack_of (part mf_poll poll_fields (m_poll m0))) (m, a) =
      went (m\<lparr>m_poll := map_option poll_stored (m_poll m0)\<rparr>) a"
    and "m_task m = None \<Longrightarrow>
      each_field (read_field env) (pack_of (part mf_task task_fields (m_task m0))) (m, a) =
      went (m\<lparr>m_task := map_option task_stored (m_task m0)\<rparr>) a"
    and "m_description_format m = None \<Longrightarrow>
      each_field (read_field env) (pack_of (part mf_description_format format_fields (m_description_format m0))) (m, a) =
      went (m\<lparr>m_description_format := m_description_format m0\<rparr>) a"
proof -
  show "each_field (read_field env) (pack_of (part mf_format format_fields (m_format m0))) (m, a) =
      went (m\<lparr>m_format := m_format m0\<rparr>) a" if "m_format m = None"
    using assms that
    by (subst read_optional [where upd = m_format_update and h = "\<lambda>f. f"])
      (auto simp: is_part_def tail_fields_def message_ok_def read_part_def format_unserialize_fields option.map_ident)
  show "each_field (read_field env) (pack_of (part mf_chat (chat_fields jk) (m_chat m0))) (m, a) =
      went (m\<lparr>m_chat := map_option (chat_stored jk) (m_chat m0)\<rparr>) a" if "m_chat m = None"
    using assms that
    by (subst read_optional [where upd = m_chat_update and h = "chat_stored jk"])
      (auto simp: is_part_def tail_fields_def message_ok_def read_part_def )
  show "each_field (read_field env) (pack_of (part mf_sticker sticker_fields (m_sticker m0))) (m, a) =
      went (m\<lparr>m_sticker := m_sticker m0\<rparr>) a" if "m_sticker m = None"
    using assms that
    by (subst read_optional [where upd = m_sticker_update and h = "\<lambda>f. f"])
      (auto simp: is_part_def tail_fields_def message_ok_def read_part_def option.map_ident)
  show "each_field (read_field env) (pack_of (part mf_mult (\<lambda>_. []) (m_mult m0))) (m, a) =
      went (m\<lparr>m_mult := m_mult m0\<rparr>) a" if "m_mult m = None"
    using assms that
    by (subst read_optional [where upd = m_mult_update and h = "\<lambda>f. f"])
      (auto simp: is_part_def tail_fields_def message_ok_def read_part_def map_option_unit)
  show "each_field (read_field env) (pack_of (part mf_voip voip_fields (m_voip m0))) (m, a) =
      went (m\<lparr>m_voip := m_voip m0\<rparr>) a" if "m_voip m = None"
    using assms that
    by (subst read_optional [where upd = m_voip_update and h = "\<lambda>f. f"])
      (auto simp: is_part_def tail_fields_def message_ok_def read_part_def voip_unserialize_fields option.map_ident)
  show "each_field (read_field env) (pack_of (part mf_file_sharing file_sharing_fields (m_file_sharing m0))) (m, a) =
      went (m\<lparr>m_file_sharing := m_file_sharing m0\<rparr>) a" if "m_file_sharing m = None"
    using assms that
    by (subst read_optional [where upd = m_file_sharing_update and h = "\<lambda>f. f"])
      (auto simp: is_part_def tail_fields_def message_ok_def read_part_def file_sharing_unserialize_fields option.map_ident)
  show "each_field (read_field env) (pack_of (part mf_chat_event chat_event_fields (m_chat_event m0))) (m, a) =
      went (m\<lparr>m_chat_event := map_option (chat_event_stored (junk env)) (m_chat_event m0)\<rparr>) a" if "m_chat_event m = None"
    using assms that
    by (subst read_optional [where upd = m_chat_event_update and h = "chat_event_stored (junk env)"])
      (auto simp: is_part_def tail_fields_def message_ok_def read_part_def chat_event_unserialize_fields)
  show "each_field (read_field env) (pack_of (part mf_shared_contact contact_fields (m_shared_contact m0))) (m, a) =
      went (m\<lparr>m_shared_contact := m_shared_contact m0\<rparr>) a" if "m_shared_contact m = None"
    using assms that
    by (subst read_optional [where upd = m_shared_contact_update and h = "\<lambda>f. f"])
      (auto simp: is_part_def tail_fields_def message_ok_def read_part_def read_contact_def option.map_ident)
  show "each_field (read_field env) (pack_of (part mf_geo geo_fields (m_geo m0))) (m, a) =
      went (m\<lparr>m_geo := m_geo m0\<rparr>) a" if "m_geo m = None"
    using assms that
    by (subst read_optional [where upd = m_geo_update and h = "\<lambda>f. f"])
      (auto simp: is_part_def tail_fields_def message_ok_def read_part_def read_geo_def option.map_ident)
  show "each_field (read_field env) (pack_of (part mf_poll poll_fields (m_poll m0))) (m, a) =
      went (m\<lparr>m_poll := map_option poll_stored (m_poll m0)\<rparr>) a" if "m_poll m = None"
    using assms that
    by (subst read_optional [where upd = m_poll_update and h = "poll_stored"])
      (auto simp: is_part_def tail_fields_def message_ok_def read_part_def )
  show "each_field (read_field env) (pack_of (part mf_task task_fields (m_task m0))) (m, a) =
      went (m\<lparr>m_task := map_option task_stored (m_task m0)\<rparr>) a" if "m_task m = None"
    using assms that
    by (subst read_optional [where upd = m_task_update and h = "task_stored"])
      (auto simp: is_part_def tail_fields_def message_ok_def read_part_def )
  show "each_field (read_field env) (pack_of (part mf_description_format format_fields (m_description_format m0))) (m, a) =
      went (m\<lparr>m_description_format := m_description_format m0\<rparr>) a" if "m_description_format m = None"
    using assms that
    by (subst read_optional [where upd = m_description_format_update and h = "\<lambda>f. f"])
      (auto simp: is_part_def tail_fields_def message_ok_def read_part_def format_unserialize_fields option.map_ident)
qed

lemma read_tail_fields:
  assumes "message_ok m0" and "length (pack_bytes (tail_fields jk m0 aimid)) < 2 ^ 32"
    and "m = message_new\<lparr>m_msgid := m_msgid m0, m_prev_msg_id := m_prev_msg_id m0, m_flags := m_flags m0,
      m_time := m_time m0, m_text := m_text m0, m_internal_id := m_internal_id m0,
      m_sender_friendly := m_sender_friendly m0, m_update_patch_version := m_update_patch_version m0,
      m_description := m_description m0, m_url := m_url m0, m_json := m_json m0,
      m_sender_aimid := m_sender_aimid m0\<rparr>"
  shows "each_field (read_field env) (pack_of (tail_fields jk m0 aimid)) (m, a) =
    went (message_stored jk env m0) aimid"
proof -
  have lists: "list_all quote_ok (m_quotes m0)" "om_wf (m_mentions m0)" "list_all snippet_ok (m_snippets m0)"
    using assms(1) by (simp_all add: message_ok_def)
  have sizes: "length (pack_bytes (each_part mf_quote quote_fields (m_quotes m0))) < 2 ^ 32"
      "length (pack_bytes (each_part mf_mention mention_fields (m_mentions m0))) < 2 ^ 32"
      "length (pack_bytes (each_part mf_snippet snippet_fields (m_snippets m0))) < 2 ^ 32"
    using assms(2) by (simp_all add: tail_fields_def)
  have scalars: "each_field (read_field env) (pack_of [(mf_buttons, v), (mf_hide_edit, bool_bytes b)]) (m, a) =
        went (m\<lparr>m_buttons_json := v, m_buttons := buttons_of env v, m_hide_edit := b\<rparr>) a"
      "each_field (read_field env) (pack_of (field_if (v \<noteq> []) mf_thread_id v)) (m, a) =
        went (m\<lparr>m_thread_id := if v = [] then m_thread_id m else v\<rparr>) a"
      "each_field (read_field env) (pack_of [(mf_call_aimid, v)]) (m, a) = went m v" for m a v b
    by (simp_all add: each_field_pack_of read_scalar_defs field_if_def)
  note stages = scalars read_parts [OF assms(1,2)] read_quotes [OF lists(1) sizes(1)]
    read_mentions [OF lists(2) sizes(2)] read_snippets [OF lists(3) sizes(3)] read_reactions_field
  show ?thesis
    unfolding tail_fields_def each_field_append
    by (simp add: stages assms(3) message_new_def del: append_Cons) (cases m0, auto simp: message_stored_def)
qed

lemma serialize_call_bytes:
  assumes "bs_wf s"
  shows "bs_wf (serialize_call jk m aimid s)"
    and "bs_pending (serialize_call jk m aimid s) = bs_pending s @ pack_bytes (message_fields jk m aimid)"
  using tlvpack_serialize_ready [OF message_pack_fields(2) assms] by (simp_all add: serialize_call_def message_pack_fields(1))

lemma unserialize_call_fields:
  assumes "bs_wf s" and "bs_pending s = pack_bytes fs" and "length (pack_bytes fs) < 2 ^ 32"
  shows "unserialize_call env s m a = Option.bind (each_field (read_field env) (pack_of fs) (m, a))
    (\<lambda>r. Some (case r of Inl (m, aimid) \<Rightarrow> (0, m, aimid) | Inr x \<Rightarrow> x, bs_skip (length (pack_bytes fs)) s))"
  using tlvpack_unserialize_pack_of [OF assms(1,3,2)] by (simp add: unserialize_call_def)

lemma message_storable_dest:
  assumes "message_storable jk m aimid"
  shows "message_ok m" and "length (pack_bytes (message_fields jk m aimid)) < 2 ^ 32"
    and "length (pack_bytes (tail_fields jk m aimid)) < 2 ^ 32"
  using assms by (simp_all add: message_storable_def message_fields_def)

lemma read_message_head:
  assumes "message_ok m"
  shows "each_field (read_field env) (pack_of (message_fields jk m aimid)) (message_new, a) =
    Option.bind (reparse env (message_new\<lparr>m_msgid := m_msgid m, m_prev_msg_id := m_prev_msg_id m, m_flags := m_flags m,
      m_time := m_time m, m_text := m_text m, m_internal_id := m_internal_id m,
      m_sender_friendly := m_sender_friendly m, m_update_patch_version := m_update_patch_version m,
      m_description := m_description m, m_url := m_url m, m_json := m_json m,
      m_sender_aimid := m_sender_aimid m\<rparr>, a)) (\<lambda>r. case r of Inr x \<Rightarrow> Some (Inr x)
    | Inl st \<Rightarrow> each_field (read_field env) (pack_of (tail_fields jk m aimid)) st)"
  using assms read_head_fields [of m env a] by (simp add: message_fields_def each_field_append message_ok_def)


text \<open>Any stream that holds the bytes of a message gives the message, and is used up.\<close>

lemma unserialize_message_bytes:
  assumes "message_storable jk m aimid" and "m_json m = [] \<or> m_sender_aimid m = []"
    and "bs_wf s" and "bs_pending s = pack_bytes (message_fields jk m aimid)"
  shows "unserialize_call env s message_new a = Some ((0, message_stored jk env m, aimid),
    bs_skip (length (pack_bytes (message_fields jk m aimid))) s)"
proof -
  note ok = message_storable_dest [OF assms(1)]
  have "each_field (read_field env) (pack_of (message_fields jk m aimid)) (message_new, a) =
      went (message_stored jk env m) aimid"
    using assms(2) read_tail_fields [OF ok(1,3) refl, of env a]
    by (auto simp: read_message_head [OF ok(1)] reparse_def)
  then show ?thesis using unserialize_call_fields [OF assms(3,4) ok(2)] by simp
qed

lemma serialized_message_read:
  assumes "message_storable jk m aimid" and "m_json m = [] \<or> m_sender_aimid m = []"
    and "bs_wf s" and "bs_pending s = []"
  shows "\<exists>s'. unserialize_call env (serialize_call jk m aimid s) message_new a =
      Some ((0, message_stored jk env m, aimid), s') \<and> bs_pending s' = []"
  using unserialize_message_bytes [OF assms(1,2) serialize_call_bytes(1) [OF assms(3)]]
    serialize_call_bytes [OF assms(3), of jk m aimid] assms(4) by simp

subsection \<open>Properties\<close>

text \<open>
  C9: a message with all its parts survives its serialization: read into a new object it gives code 0,
  the name of the call that was written, and the message itself up to what the code is known to drop
  (\<open>message_stored\<close>: the state of a poll or of a task the server knows, the members of a chat event its
  type does not call for, mentions without a name, and, when there are reactions, the text it could be
  read from again).
\<close>

theorem message_roundtrip:
  assumes "message_storable jk m aimid" and "m_json m = [] \<or> m_sender_aimid m = []"
    and "bs_wf s" and "bs_pending s = []"
  shows "\<exists>s'. unserialize_call env (serialize_call jk m aimid s) message_new a =
      Some ((0, message_stored jk env m, aimid), s') \<and> bs_pending s' = []"
  using assms by (rule serialized_message_read)

definition sample_message :: history_message where
  "sample_message = message_new\<lparr>m_msgid := 7, m_text := ''hi @ann'', m_time := 1600000000,
     m_update_patch_version := Patch_Version ''12'' 1,
     m_quotes := [quote_new\<lparr>q_text := ''old'', q_msg_id := 3, q_format :=
       Some [\<lparr>rf_type = ft_bold, rf_offset = 0, rf_size = 3, rf_data = None\<rparr>]\<rparr>],
     m_mentions := [(''ann'', ''Ann''), (''bob'', ''Bob'')],
     m_snippets := [snippet_new ''http://a.b''],
     m_chat := Some \<lparr>cd_sender = ''ann'', cd_friendly = \<lparr>person_friendly = ''Ann'', person_nick = ''a'',
       person_official = Some True\<rparr>, cd_name = ''club''\<rparr>,
     m_chat_event := Some ((make_simple_event False cet_mchat_invite)\<lparr>ce_members := [''x'', ''y''],
       ce_members_friendly := [''X'', ''Y''], ce_sender_aimid := ''ann''\<rparr>),
     m_file_sharing := Some \<lparr>fs_uri = ''http://f'', fs_local_path = [], fs_duration = Some 5, fs_base_content_type = Some 2\<rparr>,
     m_reactions := Some \<lparr>reactions_exist = True\<rparr>, m_thread_id := ''t1''\<rparr>"

lemmas storable_eval = message_storable_def message_ok_def message_fields_def head_fields_def tail_fields_def
  each_part_def range_ok_def quote_ok_def snippet_ok_def voip_ok_def file_sharing_ok_def chat_event_ok_def
  in_signed_def om_wf_def quote_new_def snippet_new_def make_simple_event_def chat_event_raw_def
  task_change_new_def pv_new_def chat_fields_def optional_bool_bytes_def file_sharing_fields_def
  chat_event_fields_def mchat_fields_def has_sender_aimid_def has_mchat_members_def
  has_chat_modifications_def has_generic_text_def is_status_reply_def type_has_sender_aimid_def
  type_has_mchat_members_def type_has_chat_modifications_def quote_fields_def format_fields_def
  range_fields_def mention_fields_def snippet_fields_def reactions_fields_def sticker_fields_def

definition echo_env :: message_env where
  "echo_env = \<lparr>junk = False, buttons_of = (\<lambda>_. []), from_json = (\<lambda>json sn m. (0, m\<lparr>m_text := json\<rparr>))\<rparr>"

lemma sample_message_storable: "message_storable False sample_message ''me''"
  by (simp add: sample_message_def storable_eval less_char_def)

theorem message_roundtrip_witness:
  "\<exists>s'. unserialize_call echo_env (serialize_call False sample_message ''me'' bs_new) message_new [] =
    Some ((0, message_stored False echo_env sample_message, ''me''), s') \<and> bs_pending s' = []"
proof -
  have "m_json sample_message = []" by (simp add: sample_message_def message_new_def)
  then show ?thesis using message_roundtrip [OF sample_message_storable, of bs_new echo_env "[]"] by simp
qed

text \<open>
  A message that was kept as the text of the server's answer, with the name of its sender, is read
  from that text again: nothing behind these two fields of the pack is looked at, neither the parts nor
  the name of the call, whatever was written there.
\<close>

theorem message_reparse:
  assumes "message_storable jk m aimid" and "m_json m \<noteq> []" and "m_sender_aimid m \<noteq> []"
    and "bs_wf s" and "bs_pending s = []"
  shows "\<exists>head s'. unserialize_call env (serialize_call jk m aimid s) message_new a =
      (case from_json env (m_json m) (m_sender_aimid m) head of (code, m') \<Rightarrow> Some ((code, m', a), s')) \<and>
    m_text head = m_text m \<and> m_msgid head = m_msgid m \<and> m_thread_id head = [] \<and> m_quotes head = [] \<and>
    m_chat head = None \<and> m_reactions head = None"
proof -
  note ok = message_storable_dest [OF assms(1)] and bytes = serialize_call_bytes [OF assms(4), of jk m aimid]
  let ?head = "message_new\<lparr>m_msgid := m_msgid m, m_prev_msg_id := m_prev_msg_id m, m_flags := m_flags m,
      m_time := m_time m, m_text := m_text m, m_internal_id := m_internal_id m,
      m_sender_friendly := m_sender_friendly m, m_update_patch_version := m_update_patch_version m,
      m_description := m_description m, m_url := m_url m, m_json := m_json m,
      m_sender_aimid := m_sender_aimid m\<rparr>"
  let ?fs = "message_fields jk m aimid"
  obtain code m' where j: "from_json env (m_json m) (m_sender_aimid m) ?head = (code, m')" by fastforce
  have "reparse env (?head, a) = Some (Inr (code, m', a))"
    using assms(2,3) j by (simp add: reparse_def)
  then have "each_field (read_field env) (pack_of ?fs) (message_new, a) = Some (Inr (code, m', a))"
    by (simp add: read_message_head [OF ok(1)])
  then have "unserialize_call env (serialize_call jk m aimid s) message_new a =
      Some ((code, m', a), bs_skip (length (pack_bytes ?fs)) (serialize_call jk m aimid s))"
    using unserialize_call_fields [OF bytes(1) _ ok(2), of env message_new a] bytes(2) assms(5) by simp
  then show ?thesis
    by (intro exI [of _ ?head] exI [of _ "bs_skip (length (pack_bytes ?fs)) (serialize_call jk m aimid s)"])
      (simp add: j)
qed

theorem message_reparse_witness:
  "\<exists>m' s'. unserialize_call echo_env (serialize_call False
      (sample_message\<lparr>m_json := ''{}'', m_sender_aimid := ''ann''\<rparr>) ''me'' bs_new) message_new [] =
    Some ((0, m', []), s') \<and> m_text m' = ''{}''"
proof -
  let ?m = "sample_message\<lparr>m_json := ''{}'', m_sender_aimid := ''ann''\<rparr>"
  have ok: "message_storable False ?m ''me''" by (simp add: sample_message_def storable_eval less_char_def)
  from message_reparse [OF ok _ _ bs_new_wf bs_new_pending, of echo_env "[]"]
  show ?thesis by (auto simp: echo_env_def)
qed

end
