(* ===== verification/Message_Ops.thy ===== *)
theory Message_Ops
  imports Message_Facts
begin

text \<open>
  What the archive does with messages: flags and patches, the copy and the merge, the modifications of
  later patches (\<open>apply_modifications\<close>), the comparison of contents, and the functions that look for one
  field in the bytes of a message without reading the rest (\<open>get_id_field\<close>, \<open>is_sticker\<close>,
  \<open>jump_to_text_field\<close>).
\<close>

subsection \<open>Flags and patches\<close>

definition message_set_flag :: "nat \<Rightarrow> bool \<Rightarrow> history_message \<Rightarrow> history_message" where
  "message_set_flag n b m = m\<lparr>m_flags := put_flag n b (m_flags m)\<rparr>"

definition set_deleted :: "bool \<Rightarrow> history_message \<Rightarrow> history_message" where
  "set_deleted = message_set_flag flag_deleted"

definition set_restored_patch :: "bool \<Rightarrow> history_message \<Rightarrow> history_message" where
  "set_restored_patch = message_set_flag flag_restored_patch"

definition set_modified :: "bool \<Rightarrow> history_message \<Rightarrow> history_message" where
  "set_modified = message_set_flag flag_modified"

definition message_set_updated :: "bool \<Rightarrow> history_message \<Rightarrow> history_message" where
  "message_set_updated = message_set_flag flag_updated"

definition set_clear :: "bool \<Rightarrow> history_message \<Rightarrow> history_message" where
  "set_clear = message_set_flag flag_clear"

definition set_patch :: "bool \<Rightarrow> history_message \<Rightarrow> history_message" where
  "set_patch = message_set_flag flag_patch"

definition message_set_outgoing :: "bool \<Rightarrow> history_message \<Rightarrow> history_message" where
  "message_set_outgoing = message_set_flag flag_outgoing"

definition message_is_outgoing :: "history_message \<Rightarrow> bool" where
  "message_is_outgoing m = (case m_voip m of
     Some v \<Rightarrow> \<not> voip_is_incoming v
   | None \<Rightarrow> bit (m_flags m) flag_outgoing)"

definition message_is_patch :: "history_message \<Rightarrow> bool" where
  "message_is_patch m = bit (m_flags m) flag_patch"

definition message_is_deleted :: "history_message \<Rightarrow> bool" where
  "message_is_deleted m = bit (m_flags m) flag_deleted"

definition message_is_modified :: "history_message \<Rightarrow> bool" where
  "message_is_modified m = bit (m_flags m) flag_modified"

definition message_is_updated :: "history_message \<Rightarrow> bool" where
  "message_is_updated m = bit (m_flags m) flag_updated"

definition message_is_clear :: "history_message \<Rightarrow> bool" where
  "message_is_clear m = bit (m_flags m) flag_clear"

definition message_is_restored_patch :: "history_message \<Rightarrow> bool" where
  "message_is_restored_patch m = bit (m_flags m) flag_restored_patch"

definition is_chat_event_deleted :: "history_message \<Rightarrow> bool" where
  "is_chat_event_deleted m = (case m_chat_event m of None \<Rightarrow> False | Some e \<Rightarrow> is_type_deleted e)"

definition make_patch :: "int \<Rightarrow> cstring \<Rightarrow> history_message" where
  "make_patch archive_id internal_id = message_new\<lparr>m_msgid := archive_id, m_internal_id := internal_id\<rparr>"

definition make_deleted_patch :: "int \<Rightarrow> cstring \<Rightarrow> history_message" where
  "make_deleted_patch archive_id internal_id = set_patch True (set_deleted True (make_patch archive_id internal_id))"

definition make_updated_patch :: "int \<Rightarrow> cstring \<Rightarrow> history_message" where
  "make_updated_patch archive_id internal_id =
    set_patch True (message_set_updated True (make_patch archive_id internal_id))"

definition make_modified_patch :: "bool \<Rightarrow> int \<Rightarrow> cstring \<Rightarrow> chat_event_data option \<Rightarrow> history_message" where
  "make_modified_patch jk archive_id internal_id event =
    (set_modified True (make_updated_patch archive_id internal_id))\<lparr>m_chat_event :=
      Some (case event of Some e \<Rightarrow> e | None \<Rightarrow> make_simple_event jk cet_message_deleted)\<rparr>"

definition make_updated :: "int \<Rightarrow> cstring \<Rightarrow> history_message" where
  "make_updated archive_id internal_id =
    set_patch False (message_set_updated True (make_patch archive_id internal_id))"

definition make_clear_patch :: "int \<Rightarrow> cstring \<Rightarrow> history_message" where
  "make_clear_patch archive_id internal_id = set_patch True (set_clear True (make_patch archive_id internal_id))"

definition make_set_reactions_patch :: "int \<Rightarrow> cstring \<Rightarrow> history_message" where
  "make_set_reactions_patch archive_id internal_id = make_updated_patch archive_id internal_id"

definition make_deleted :: "history_message \<Rightarrow> history_message" where
  "make_deleted m = set_patch True (set_deleted True m)"

definition make_modified :: "bool \<Rightarrow> history_message \<Rightarrow> history_message" where
  "make_modified jk m = (set_patch True (set_modified True m))
     \<lparr>m_chat_event := Some (make_simple_event jk cet_message_deleted)\<rparr>"

definition apply_header_flags :: "message_header \<Rightarrow> history_message \<Rightarrow> history_message" where
  "apply_header_flags h m = set_restored_patch (is_restored_patch h) (set_deleted (is_deleted h) m)"

subsection \<open>Members\<close>

definition message_has_msgid :: "history_message \<Rightarrow> bool" where
  "message_has_msgid m = (0 < m_msgid m)"

definition get_text :: "history_message \<Rightarrow> cstring" where
  "get_text m = (case m_sticker m of Some st \<Rightarrow> st | None \<Rightarrow> m_text m)"

definition has_text :: "history_message \<Rightarrow> bool" where
  "has_text m = (m_text m \<noteq> [])"

definition has_shared_contact_with_sn :: "history_message \<Rightarrow> bool" where
  "has_shared_contact_with_sn m = (case m_shared_contact m of None \<Rightarrow> False | Some c \<Rightarrow> sc_sn c \<noteq> [])"

definition has_poll_with_id :: "history_message \<Rightarrow> bool" where
  "has_poll_with_id m = (case m_poll m of None \<Rightarrow> False | Some d \<Rightarrow> poll_id d \<noteq> [])"

definition has_task_with_id :: "history_message \<Rightarrow> bool" where
  "has_task_with_id m = (case m_task m of None \<Rightarrow> False | Some t \<Rightarrow> task_id t \<noteq> [])"

definition has_reactions :: "history_message \<Rightarrow> bool" where
  "has_reactions m = (case m_reactions m of None \<Rightarrow> False | Some r \<Rightarrow> reactions_exist r)"

definition has_thread :: "history_message \<Rightarrow> bool" where
  "has_thread m = (m_thread_id m \<noteq> [])"

definition set_poll_id :: "cstring \<Rightarrow> history_message \<Rightarrow> history_message" where
  "set_poll_id i m = (if i = [] then m else m\<lparr>m_poll := Some (poll_new\<lparr>poll_id := i\<rparr>)\<rparr>)"

definition set_task_id :: "cstring \<Rightarrow> history_message \<Rightarrow> history_message" where
  "set_task_id i m =
    (if i = [] then m
     else case m_task m of
       Some t \<Rightarrow> m\<lparr>m_task := Some (t\<lparr>task_id := i\<rparr>)\<rparr>
     | None \<Rightarrow> m\<lparr>m_task := Some (task_new\<lparr>task_id := i\<rparr>)\<rparr>)"

datatype message_type = mt_base | mt_file_sharing | mt_sms | mt_sticker | mt_chat_event | mt_voip_event

definition message_get_type :: "history_message \<Rightarrow> message_type" where
  "message_get_type m =
    (if m_sticker m \<noteq> None then mt_sticker
     else if m_file_sharing m \<noteq> None then mt_file_sharing
     else if m_chat_event m \<noteq> None then mt_chat_event
     else if m_voip m \<noteq> None then mt_voip_event
     else mt_base)"

definition file_sharing_contents_equal :: "file_sharing_data \<Rightarrow> file_sharing_data \<Rightarrow> bool" where
  "file_sharing_contents_equal f rhs =
    (if fs_local_path f = fs_local_path rhs then True
     else if fs_uri f = fs_uri rhs then True
     else False)"

definition contents_equal :: "history_message \<Rightarrow> history_message \<Rightarrow> bool" where
  "contents_equal m msg =
    (if message_get_type m \<noteq> message_get_type msg then False
     else case message_get_type m of
       mt_base \<Rightarrow> get_text m = get_text msg
     | mt_file_sharing \<Rightarrow> file_sharing_contents_equal (the (m_file_sharing m)) (the (m_file_sharing msg))
     | mt_chat_event \<Rightarrow> chat_event_contents_equal (the (m_chat_event m)) (the (m_chat_event msg))
     | _ \<Rightarrow> True)"

subsection \<open>Copies, merges, modifications\<close>

definition message_copy :: "history_message \<Rightarrow> history_message \<Rightarrow> history_message" where
  "message_copy this other = this\<lparr>
     m_msgid := m_msgid other, m_prev_msg_id := m_prev_msg_id other,
     m_internal_id := m_internal_id other, m_update_patch_version := m_update_patch_version other,
     m_time := m_time other, m_text := m_text other, m_format := m_format other,
     m_data_offset := m_data_offset other, m_data_size := m_data_size other, m_flags := m_flags other,
     m_sender_friendly := m_sender_friendly other, m_quotes := m_quotes other,
     m_mentions := m_mentions other, m_snippets := m_snippets other, m_url := m_url other,
     m_description := m_description other, m_description_format := m_description_format other,
     m_unsupported := m_unsupported other, m_hide_edit := m_hide_edit other,
     m_thread_id := m_thread_id other, m_sticker := m_sticker other, m_mult := m_mult other,
     m_voip := m_voip other, m_chat := m_chat other, m_file_sharing := m_file_sharing other,
     m_chat_event := m_chat_event other, m_shared_contact := m_shared_contact other,
     m_geo := m_geo other, m_poll := m_poll other, m_task := m_task other\<rparr>"

definition message_merge :: "history_message \<Rightarrow> history_message \<Rightarrow> history_message" where
  "message_merge this other = this\<lparr>
     m_text := m_text other, m_quotes := m_quotes other, m_mentions := m_mentions other,
     m_snippets := m_snippets other, m_update_patch_version := m_update_patch_version other,
     m_url := m_url other, m_description := m_description other,
     m_description_format := (case m_description_format other of
        Some f \<Rightarrow> Some f | None \<Rightarrow> m_description_format this),
     m_hide_edit := m_hide_edit other, m_thread_id := m_thread_id other,
     m_sticker := m_sticker other, m_mult := m_mult other, m_voip := m_voip other,
     m_chat := m_chat other, m_file_sharing := m_file_sharing other,
     m_chat_event := m_chat_event other, m_shared_contact := m_shared_contact other,
     m_geo := m_geo other, m_poll := m_poll other, m_task := m_task other, m_format := m_format other\<rparr>"

definition reset_extended_data :: "history_message \<Rightarrow> history_message" where
  "reset_extended_data m = m\<lparr>m_sticker := None, m_mult := None, m_voip := None,
     m_file_sharing := None, m_chat_event := None\<rparr>"

fun apply_modifications :: "history_message list \<Rightarrow> history_message \<Rightarrow> history_message" where
  "apply_modifications [] m = m"
| "apply_modifications (d # ds) m =
    (if has_text d then apply_modifications ds ((reset_extended_data m)\<lparr>m_text := get_text d\<rparr>)
     else case m_chat_event d of
       Some e \<Rightarrow> apply_modifications ds ((reset_extended_data m)\<lparr>m_chat_event := Some e\<rparr>)
     | None \<Rightarrow> apply_modifications ds m)"


subsection \<open>Names of persons\<close>

type_synonym persons_map = "(cstring, person) omap"

definition find_person :: "cstring \<Rightarrow> persons_map \<Rightarrow> cstring" where
  "find_person aimid ps = (case map_of ps aimid of Some p \<Rightarrow> person_friendly p | None \<Rightarrow> aimid)"

text \<open>\<open>boost::replace_last\<close> with the empty string.\<close>

fun erase_last :: "cstring \<Rightarrow> cstring \<Rightarrow> cstring option" where
  "erase_last sub [] = (if sub = [] then Some [] else None)"
| "erase_last sub (c # cs) = (case erase_last sub cs of
     Some r \<Rightarrow> Some (c # r)
   | None \<Rightarrow> if take (length sub) (c # cs) = sub then Some (drop (length sub) (c # cs)) else None)"

definition replace_last :: "cstring \<Rightarrow> cstring \<Rightarrow> cstring" where
  "replace_last s sub = (case erase_last sub s of Some r \<Rightarrow> r | None \<Rightarrow> s)"

definition voip_apply_persons :: "persons_map \<Rightarrow> voip_data \<Rightarrow> voip_data" where
  "voip_apply_persons ps v = v\<lparr>v_sender_friendly := find_person (v_sender_aimid v) ps\<rparr>"

definition chat_apply_persons :: "persons_map \<Rightarrow> chat_data \<Rightarrow> chat_data" where
  "chat_apply_persons ps c = (case map_of ps (cd_sender c) of Some p \<Rightarrow> c\<lparr>cd_friendly := p\<rparr> | None \<Rightarrow> c)"

definition chat_event_apply_persons :: "persons_map \<Rightarrow> chat_event_data \<Rightarrow> chat_event_data" where
  "chat_event_apply_persons ps e =
    (let e = (if has_sender_aimid e then e\<lparr>ce_sender_friendly := find_person (ce_sender_aimid e) ps\<rparr> else e)
     in if has_mchat_members e
        then let members = map (\<lambda>m. replace_last m ''@uin.icq'') (ce_members e);
                 e = e\<lparr>ce_members := members,
                        ce_members_friendly := ce_members_friendly e @ map (\<lambda>m. find_person m ps) members\<rparr>
             in if ce_requested_by e \<noteq> []
                then e\<lparr>ce_requested_by_friendly := find_person (ce_requested_by e) ps\<rparr> else e
        else e)"

definition named_person :: "cstring \<Rightarrow> person" where
  "named_person friendly = \<lparr>person_friendly = friendly, person_nick = [], person_official = None\<rparr>"

definition emplace_person :: "cstring \<Rightarrow> cstring \<Rightarrow> persons_map \<Rightarrow> persons_map" where
  "emplace_person sn friendly ps =
    (if map_of ps sn = None then om_put sn (named_person friendly) ps else ps)"

definition get_persons :: "chat_event_data \<Rightarrow> persons_map" where
  "get_persons e =
    (let ps = [];
         ps = (if has_mchat_members e
               then let ps = (if length (ce_members e) = length (ce_members_friendly e)
                              then foldl (\<lambda>ps (sn, friendly). emplace_person sn friendly ps) ps
                                     (zip (ce_members e) (ce_members_friendly e))
                              else ps)
                    in if ce_requested_by e \<noteq> []
                       then emplace_person (ce_requested_by e) (ce_requested_by_friendly e) ps else ps
               else ps)
     in if has_sender_aimid e then emplace_person (ce_sender_aimid e) (ce_sender_friendly e) ps else ps)"

definition apply_persons_to_quotes :: "persons_map \<Rightarrow> history_message \<Rightarrow> history_message" where
  "apply_persons_to_quotes ps m = m\<lparr>m_quotes := map (\<lambda>q. case map_of ps (q_sender q) of
     Some p \<Rightarrow> q\<lparr>q_sender_friendly := person_friendly p\<rparr> | None \<Rightarrow> q) (m_quotes m)\<rparr>"

definition apply_persons_to_mentions :: "persons_map \<Rightarrow> history_message \<Rightarrow> history_message" where
  "apply_persons_to_mentions ps m = m\<lparr>m_mentions := map (\<lambda>(sn, friendly). (sn, case map_of ps sn of
     Some p \<Rightarrow> person_friendly p | None \<Rightarrow> friendly)) (m_mentions m)\<rparr>"

definition apply_persons_to_voip :: "persons_map \<Rightarrow> history_message \<Rightarrow> history_message" where
  "apply_persons_to_voip ps m = m\<lparr>m_voip := map_option (voip_apply_persons ps) (m_voip m)\<rparr>"

subsection \<open>Looking for one field\<close>

text \<open>
  The loop the four functions share: the entries of a pack are skipped until one of the type has a
  value; the result is whether it was found, and the length of its value, which is then next in the
  stream.
\<close>

partial_function (option) find_field :: "u32 \<Rightarrow> binary_stream \<Rightarrow> u32 \<Rightarrow> (bool \<times> u32 \<times> binary_stream) option" where
  "find_field wanted s len =
    (if bs_available s = 0 then Some (False, len, s)
     else Option.bind (try_get_field_with_type wanted s) (\<lambda>(ok, len, s).
       if \<not> ok then Some (False, len, s)
       else if len \<noteq> 0 then Some (True, len, s)
       else find_field wanted s len))"

declare find_field.simps [code]

definition jump_to_text_field :: "binary_stream \<Rightarrow> u32 \<Rightarrow> (u32 \<times> binary_stream) option" where
  "jump_to_text_field s len = map_option snd (find_field mf_text s len)"

definition is_sticker_field :: "binary_stream \<Rightarrow> (bool \<times> binary_stream) option" where
  "is_sticker_field s = map_option (\<lambda>(found, _, s). (found, s)) (find_field mf_sticker s 0)"

definition is_chat_event_field :: "binary_stream \<Rightarrow> (bool \<times> binary_stream) option" where
  "is_chat_event_field s = map_option (\<lambda>(found, _, s). (found, s)) (find_field mf_chat_event s 0)"

definition get_id_field :: "binary_stream \<Rightarrow> (int \<times> binary_stream) option" where
  "get_id_field s = Option.bind (find_field mf_msg_id s 0) (\<lambda>(found, _, s).
     if found then bs_read_i64 s else Some (-1, s))"

lemma try_get_field:
  assumes "bs_wf s" and "field_ok f" and "bs_pending s = tlv_enc f @ rest"
  shows "try_get_field_with_type wanted s = Some
    (if snd f = [] then (True, 0, bs_skip 8 s)
     else if fst f = wanted then (True, word_of_nat (length (snd f)), bs_skip 8 s)
     else (True, 0, bs_skip (8 + length (snd f)) s))"
proof -
  obtain ty v where f: "f = (ty, v)" by (cases f)
  let ?n = "word_of_nat (length v) :: u32"
  have n: "unat ?n = length v" using assms(2) f by (simp add: field_ok_def)
  then have z: "?n = 0 \<longleftrightarrow> v = []" using unat_eq_zero [of ?n] by simp
  have p: "bs_pending s = word_bytes 4 ty @ word_bytes 4 ?n @ v @ rest"
    using assms(3) f by (simp add: tlv_enc_def)
  have w: "bs_wf (bs_skip 4 s)" "bs_wf (bs_skip 8 s)" using assms(1) p by simp_all
  show ?thesis
    using assms(1) w p n z f
    by (simp add: try_get_field_with_type_def bs_available_pending bs_typed_reads bs_read_eq)
qed

lemma find_field_fields:
  assumes "bs_wf s" and "list_all field_ok fs" and "bs_pending s = pack_bytes fs"
  shows "\<exists>len' s'. find_field wanted s len =
      Some (\<exists>f \<in> set fs. fst f = wanted \<and> snd f \<noteq> [], len', s') \<and> bs_wf s' \<and>
    (case find (\<lambda>f. fst f = wanted \<and> snd f \<noteq> []) fs of
       None \<Rightarrow> (fs \<noteq> [] \<longrightarrow> len' = 0) \<and> bs_pending s' = []
     | Some f \<Rightarrow> unat len' = length (snd f) \<and> (\<exists>rest. bs_pending s' = snd f @ rest))"
  using assms
proof (induction fs arbitrary: s len)
  case Nil
  then show ?case by (simp add: find_field.simps bs_available_pending)
next
  case (Cons f fs)
  have av: "bs_available s \<noteq> 0" using Cons.prems by (simp add: bs_available_pending)
  note step = try_get_field [OF Cons.prems(1), of f "pack_bytes fs" wanted]
  have ok: "field_ok f" "list_all field_ok fs" using Cons.prems by simp_all
  then have n: "unat (word_of_nat (length (snd f)) :: u32) = length (snd f)" by (simp add: field_ok_def)
  then have z: "(word_of_nat (length (snd f)) :: u32) = 0 \<longleftrightarrow> snd f = []"
    using unat_eq_zero [of "word_of_nat (length (snd f)) :: u32"] by simp
  show ?case
  proof (cases "fst f = wanted \<and> snd f \<noteq> []")
    case True
    then have "find_field wanted s len = Some (True, word_of_nat (length (snd f)), bs_skip 8 s)"
      using av step ok Cons.prems(3) z by (subst find_field.simps) simp
    moreover have "bs_pending (bs_skip 8 s) = snd f @ pack_bytes fs" using Cons.prems(3) by (simp add: tlv_enc_def)
    moreover have "bs_wf (bs_skip 8 s)" using Cons.prems by simp
    ultimately show ?thesis using True n by auto
  next
    case False
    let ?s = "bs_skip (8 + length (snd f)) s"
    have s: "bs_wf ?s" "bs_pending ?s = pack_bytes fs" using Cons.prems by simp_all
    have eq: "find_field wanted s len = find_field wanted ?s 0"
      using av step ok Cons.prems(3) False by (subst find_field.simps) auto
    note IH = Cons.IH [OF s(1) ok(2) s(2), of 0]
    have stop: "find_field wanted ?s 0 = Some (False, 0, ?s)" if "fs = []"
      using that s by (subst find_field.simps) (simp add: bs_available_pending)
    show ?thesis
    proof (cases "fs = []")
      case True
      then show ?thesis using eq stop s False by auto
    next
      case more: False
      show ?thesis
        using IH False more unfolding eq by (cases "find (\<lambda>f. fst f = wanted \<and> snd f \<noteq> []) fs") (auto simp only: list.set find.simps ball_simps bex_simps if_False option.case simp_thms more)
    qed
  qed
qed

subsection \<open>The fields found without reading the message\<close>

lemma find_append: "find P (xs @ ys) = (case find P xs of Some x \<Rightarrow> Some x | None \<Rightarrow> find P ys)"
  by (induction xs) simp_all

lemma find_skip: "find P xs = None \<Longrightarrow> find P (xs @ ys) = find P ys"
  by (simp add: find_append)

lemma find_part_other: "ty \<noteq> wanted \<Longrightarrow> find (\<lambda>f. fst f = wanted \<and> snd f \<noteq> []) (part ty g x) = None"
  by (cases x) (simp_all add: part_def opt_field_def)

lemma find_part_here: "(\<And>a. pack_bytes (g a) \<noteq> []) \<Longrightarrow>
    find (\<lambda>f. fst f = ty \<and> snd f \<noteq> []) (part ty g x @ ys) =
      (case x of Some a \<Rightarrow> Some (ty, pack_bytes (g a)) | None \<Rightarrow> find (\<lambda>f. fst f = ty \<and> snd f \<noteq> []) ys)"
  by (cases x) (simp_all add: part_def opt_field_def)

lemma find_each_part: "ty \<noteq> wanted \<Longrightarrow> find (\<lambda>f. fst f = wanted \<and> snd f \<noteq> []) (each_part ty g xs) = None"
  by (induction xs) (simp_all add: each_part_def)

lemma find_field_if: "find (\<lambda>f. fst f = wanted \<and> snd f \<noteq> []) (field_if c ty v) =
    (if c \<and> ty = wanted \<and> v \<noteq> [] then Some (ty, v) else None)"
  by (simp add: field_if_def)

lemmas find_simps = find_skip find_part_other find_part_here find_each_part find_field_if

lemma part_bytes_nonempty [simp]:
  "pack_bytes (sticker_fields st) \<noteq> []" "pack_bytes (chat_event_fields e) \<noteq> []" "i64_bytes i \<noteq> []"
  by (simp_all add: sticker_fields_def chat_event_fields_def tlv_enc_def flip: length_0_conv)

lemma found_fields:
  "find (\<lambda>f. fst f = mf_msg_id \<and> snd f \<noteq> []) (message_fields jk m aimid) = Some (mf_msg_id, i64_bytes (m_msgid m))"
  "find (\<lambda>f. fst f = mf_text \<and> snd f \<noteq> []) (message_fields jk m aimid) =
    (if m_text m = [] then None else Some (mf_text, m_text m))"
  "find (\<lambda>f. fst f = mf_sticker \<and> snd f \<noteq> []) (message_fields jk m aimid) =
    map_option (\<lambda>st. (mf_sticker, pack_bytes (sticker_fields st))) (m_sticker m)"
  "find (\<lambda>f. fst f = mf_chat_event \<and> snd f \<noteq> []) (message_fields jk m aimid) =
    map_option (\<lambda>e. (mf_chat_event, pack_bytes (chat_event_fields e))) (m_chat_event m)"
proof -
  show "find (\<lambda>f. fst f = mf_msg_id \<and> snd f \<noteq> []) (message_fields jk m aimid) = Some (mf_msg_id, i64_bytes (m_msgid m))"
    by (simp add: message_fields_def head_fields_def)
  show "find (\<lambda>f. fst f = mf_text \<and> snd f \<noteq> []) (message_fields jk m aimid) =
      (if m_text m = [] then None else Some (mf_text, m_text m))"
    by (simp add: message_fields_def head_fields_def tail_fields_def find_simps)
  show "find (\<lambda>f. fst f = mf_sticker \<and> snd f \<noteq> []) (message_fields jk m aimid) =
      map_option (\<lambda>st. (mf_sticker, pack_bytes (sticker_fields st))) (m_sticker m)"
    by (cases "m_sticker m") (simp_all add: message_fields_def head_fields_def tail_fields_def find_simps)
  show "find (\<lambda>f. fst f = mf_chat_event \<and> snd f \<noteq> []) (message_fields jk m aimid) =
      map_option (\<lambda>e. (mf_chat_event, pack_bytes (chat_event_fields e))) (m_chat_event m)"
    by (cases "m_chat_event m") (simp_all add: message_fields_def head_fields_def tail_fields_def find_simps)
qed

lemma pack_bytes_field_ok:
  assumes "length (pack_bytes fs) < 2 ^ 32"
  shows "list_all field_ok fs"
  using assms by (induction fs) (auto simp: field_ok_def)

lemma find_in_message:
  assumes "message_storable jk m aimid" and "bs_wf s" and "bs_pending s = []"
  obtains len' s' where "find_field wanted (serialize_call jk m aimid s) 0 =
      Some (find (\<lambda>f. fst f = wanted \<and> snd f \<noteq> []) (message_fields jk m aimid) \<noteq> None, len', s')"
    and "bs_wf s'"
    and "case find (\<lambda>f. fst f = wanted \<and> snd f \<noteq> []) (message_fields jk m aimid) of
       None \<Rightarrow> len' = 0 | Some f \<Rightarrow> unat len' = length (snd f) \<and> (\<exists>rest. bs_pending s' = snd f @ rest)"
proof -
  note bytes = serialize_call_bytes [OF assms(2), of jk m aimid] and ok = message_storable_dest [OF assms(1)]
  have ne: "message_fields jk m aimid \<noteq> []" by (simp add: message_fields_def head_fields_def)
  have pend: "bs_pending (serialize_call jk m aimid s) = pack_bytes (message_fields jk m aimid)"
    using bytes(2) assms(3) by simp
  have found: "(\<exists>f\<in>set fs. P f) \<longleftrightarrow> find P fs \<noteq> None" for fs :: "field list" and P
    by (auto simp: find_None_iff)
  from find_field_fields [OF bytes(1) pack_bytes_field_ok [OF ok(2)] pend, of wanted 0]
  obtain len' s' where 1: "find_field wanted (serialize_call jk m aimid s) 0 =
      Some (find (\<lambda>f. fst f = wanted \<and> snd f \<noteq> []) (message_fields jk m aimid) \<noteq> None, len', s')"
    and 2: "bs_wf s'" and 3: "case find (\<lambda>f. fst f = wanted \<and> snd f \<noteq> []) (message_fields jk m aimid) of
       None \<Rightarrow> (message_fields jk m aimid \<noteq> [] \<longrightarrow> len' = 0) \<and> bs_pending s' = []
     | Some f \<Rightarrow> unat len' = length (snd f) \<and> (\<exists>rest. bs_pending s' = snd f @ rest)"
    unfolding found by blast
  from 3 ne have "case find (\<lambda>f. fst f = wanted \<and> snd f \<noteq> []) (message_fields jk m aimid) of
       None \<Rightarrow> len' = 0 | Some f \<Rightarrow> unat len' = length (snd f) \<and> (\<exists>rest. bs_pending s' = snd f @ rest)"
    by (auto split: option.splits)
  with 1 2 show thesis by (rule that)
qed

end
