(* ===== verification/Message_Safety.thy ===== *)
theory Message_Safety
  imports Message_Ops
begin

text \<open>
  What reading a message from arbitrary bytes can do: the members stay in the ranges of their types
  (\<open>message_typed\<close>), and the only inputs on which it is undefined are the packs of a file or of a chat
  event that lack an item their constructors dereference.
\<close>

subsection \<open>Entries read from bytes\<close>

definition tlv_live :: "tlv \<Rightarrow> bool" where
  "tlv_live t \<longleftrightarrow> bs_wf (value_stream t)"

definition pack_live :: "tlvpack \<Rightarrow> bool" where
  "pack_live p \<longleftrightarrow> list_all tlv_live (tlvlist p)"

lemma bs_new_live: "bs_wf (value_stream tlv_new)"
  by (simp add: tlv_new_def)

lemma tlv_unserialize_live:
  "tlv_unserialize t0 s = Some (ok, t, s') \<Longrightarrow> bs_wf (value_stream t0) \<Longrightarrow> tlv_live t"
  by (auto simp: tlv_unserialize_def tlv_live_def tlv_set_type_def Let_def
      split: if_splits option.splits Option.bind_splits)

lemma tlvpack_unserialize_live:
  assumes "tlvpack_unserialize p s = Some (ok, q, s')" and "pack_live p"
  shows "pack_live q"
proof -
  have "pack_live p \<longrightarrow> pack_live (fst (snd r))" if "tlvpack_unserialize p s = Some r" for r
    using that
    by (rule tlvpack_unserialize.raw_induct [rotated])
      (auto split: if_splits Option.bind_splits prod.splits
        simp: pack_live_def tlvpack_push_child_def tlv_unserialize_live bs_new_live)
  from this [OF assms(1)] assms(2) show ?thesis by simp
qed

lemma pack_new_live [simp]: "pack_live tlvpack_new"
  by (simp add: pack_live_def tlvpack_new_def)

lemma get_pack_live:
  assumes "tlv_live t"
  obtains q where "get_pack t = Some q" and "pack_live q"
proof -
  from tlvpack_unserialize_returns [of "value_stream t" tlvpack_new] assms
  obtain ok q s' where q: "tlvpack_unserialize tlvpack_new (value_stream t) = Some (ok, q, s')"
    by (auto simp: tlv_live_def)
  with tlvpack_unserialize_live [OF q] show thesis
    by (intro that [of q]) (simp_all add: get_pack_def tlv_get_pack_def)
qed

lemma get_item_live: "pack_live p \<Longrightarrow> tlvpack_get_item ty p = Some t \<Longrightarrow> tlv_live t"
  by (auto simp: pack_live_def tlvpack_get_item_def list_all_iff find_Some_iff)

lemma scalar_range:
  assumes "tlv_live t" and "P zero" and "\<And>bs. length bs = n \<Longrightarrow> P (conv bs)"
  shows "P (fst (tlv_get_scalar n conv zero t))"
proof -
  have "length bs = n" if "bs_read n s = (Some bs, s')" and "bs_wf s" for s s' bs
    using that by (auto simp: bs_read_def bs_wf_def bs_available_def split: if_splits)
  then show ?thesis
    using assms by (cases "bs_read n (value_stream t)") (auto simp: tlv_get_scalar_def tlv_live_def split: option.splits)
qed

lemma scalar_default: "0 < n \<Longrightarrow> tlv_get_scalar_default n conv zero d t = tlv_get_scalar n conv zero t"
  by (auto simp: tlv_get_scalar_default_def tlv_get_scalar_def bs_read_def split: option.splits)

lemma int32_of_bytes [simp]: "length bs = 4 \<Longrightarrow> int32 (i32_of_bytes bs)"
  using le_nat_less [of bs] by (simp add: i32_of_bytes_def in_signed_to_signed)

lemma zero_in_range [simp]: "int32 0" "int64 0" "int32 (-1)" "int64 (-1)"
  by (simp_all add: in_signed_def)

lemma get_range:
  assumes "tlv_live t"
  shows "int32 (get_i32 t)" "int32 (get_i32_or d t)" "int64 (get_i64 t)" "int64 (get_i64_or d t)"
  using assms by (auto simp: get_i32_def get_i32_or_def get_i64_def get_i64_or_def scalar_default intro: scalar_range)

lemma item_or_range:
  assumes "pack_live p" and "P x" and "\<And>t. tlv_live t \<Longrightarrow> P (g t)"
  shows "P (item_or ty g x p)"
  using assms get_item_live by (auto simp: item_or_def split: option.split)

lemma item_or_int:
  assumes "pack_live p"
  shows "int32 x \<Longrightarrow> int32 (item_or ty get_i32 x p)"
    and "int32 x \<Longrightarrow> int32 (item_or ty (get_i32_or d) x p)"
    and "int64 x \<Longrightarrow> int64 (item_or ty (get_i64_or d) x p)"
    and "opt_all int32 (item_or ty (\<lambda>t. Some (get_i32 t)) None p)"
    and "opt_all int64 (item_or ty (\<lambda>t. Some (get_i64 t)) None p)"
    and "int64 x \<Longrightarrow> int64 (item_or ty (\<lambda>t. from_seconds (get_i64 t)) x p)"
    and "opt_all int64 y \<Longrightarrow> opt_all int64 (item_or ty (\<lambda>t. Some (from_seconds (get_i64 t))) y p)"
proof -
  have tick: "int64 (from_seconds i)" for i
    using in_signed_to_signed [of 64 "of_signed 64 (i * ticks_per_second)"] by (simp add: from_seconds_def of_signed_def nat_less_iff)
  note r = item_or_range [OF assms]
  show "int32 x \<Longrightarrow> int32 (item_or ty get_i32 x p)" by (rule r) (simp_all add: get_range)
  show "int32 x \<Longrightarrow> int32 (item_or ty (get_i32_or d) x p)" by (rule r) (simp_all add: get_range)
  show "int64 x \<Longrightarrow> int64 (item_or ty (get_i64_or d) x p)" by (rule r) (simp_all add: get_range)
  show "opt_all int32 (item_or ty (\<lambda>t. Some (get_i32 t)) None p)" by (rule r) (simp_all add: get_range)
  show "opt_all int64 (item_or ty (\<lambda>t. Some (get_i64 t)) None p)" by (rule r) (simp_all add: get_range)
  show "int64 x \<Longrightarrow> int64 (item_or ty (\<lambda>t. from_seconds (get_i64 t)) x p)" by (rule r) (simp_all add: tick)
  show "opt_all int64 y \<Longrightarrow> opt_all int64 (item_or ty (\<lambda>t. Some (from_seconds (get_i64 t))) y p)"
    by (rule r) (simp_all add: tick)
qed

lemma for_fields_inv:
  assumes "pack_live p" and "P st"
    and "\<And>t st. tlv_live t \<Longrightarrow> P st \<Longrightarrow> \<exists>st'. body t st = Some st' \<and> P st'"
  shows "\<exists>st'. for_fields body p st = Some st' \<and> P st'"
proof -
  have "\<exists>st'. visit_all body ts st = Some st' \<and> P st'" if "list_all tlv_live ts" "P st" for ts st
    using that
  proof (induction ts arbitrary: st)
    case (Cons t ts)
    then obtain st' where "body t st = Some st'" "P st'" using assms(3) [of t st] by auto
    with Cons show ?case by simp
  qed simp
  with assms(1,2) show ?thesis by (simp add: for_fields_visit pack_live_def)
qed

subsection \<open>The parts\<close>

definition range_typed :: "range_format \<Rightarrow> bool" where
  "range_typed r \<longleftrightarrow> int32 (rf_offset r) \<and> int32 (rf_size r)"

definition format_typed :: "format_data \<Rightarrow> bool" where
  "format_typed fs = list_all range_typed fs"

lemma format_unserialize_typed:
  assumes "pack_live p"
  obtains b fs where "format_unserialize p = Some (b, fs)" and "format_typed fs"
proof -
  have new: "range_typed range_format_new" by (simp add: range_typed_def range_format_new_def)
  have info: "\<exists>r. read_format_info q = Some r \<and> range_typed r" if "pack_live q" for q
    unfolding read_format_info_def
    by (rule for_fields_inv [OF that, where P = range_typed, OF new]) (auto simp: range_typed_def get_range)
  have "\<exists>fs. for_fields (\<lambda>fld fs. do { q \<leftarrow> get_pack fld; r \<leftarrow> read_format_info q;
      Some (fs @ [r\<lparr>rf_type := from_mf_type (tlv_type fld)\<rparr>]) }) p [] = Some fs \<and> format_typed fs"
  proof (rule for_fields_inv [OF assms])
    fix t fs assume "tlv_live t" and fs: "format_typed fs"
    then obtain q where q: "get_pack t = Some q" "pack_live q" by (blast elim: get_pack_live)
    with info obtain r where "read_format_info q = Some r" "range_typed r" by blast
    with q fs show "\<exists>st'. Option.bind (get_pack t) (\<lambda>q. Option.bind (read_format_info q)
        (\<lambda>r. Some (fs @ [r\<lparr>rf_type := from_mf_type (tlv_type t)\<rparr>]))) = Some st' \<and> format_typed st'"
      by (simp add: format_typed_def range_typed_def)
  qed (simp add: format_typed_def)
  with that show thesis by (auto simp: format_unserialize_def)
qed

definition voip_typed :: "voip_data \<Rightarrow> bool" where
  "voip_typed v \<longleftrightarrow> int32 (v_type v) \<and> int32 (v_duration_sec v) \<and> int32 (v_is_incoming v)"

lemma voip_unserialize_typed:
  assumes "pack_live p" and "voip_typed v"
  obtains ok v' where "voip_unserialize p v = Some (ok, v')" and "voip_typed v'"
proof -
  have "\<exists>ok v'. voip_unserialize p v = Some (ok, v') \<and> voip_typed v'"
  proof (cases "tlvpack_get_item mf_voip_conf_members p")
    case None
    then show ?thesis
      using assms get_item_live [OF assms(1)]
      by (auto simp: voip_unserialize_def voip_typed_def Let_def get_range item_or_int split: option.split)
  next
    case (Some t)
    then obtain q where "get_pack t = Some q" using get_item_live [OF assms(1)] by (blast elim: get_pack_live)
    with Some show ?thesis
      using assms get_item_live [OF assms(1)]
      by (auto simp: voip_unserialize_def voip_typed_def Let_def get_range item_or_int split: option.split)
  qed
  with that show thesis by blast
qed

definition file_sharing_typed :: "file_sharing_data \<Rightarrow> bool" where
  "file_sharing_typed f \<longleftrightarrow> opt_all int64 (fs_duration f) \<and> opt_all int32 (fs_base_content_type f)"

lemma file_sharing_unserialize_typed:
  "pack_live p \<Longrightarrow> file_sharing_unserialize p = Some f \<Longrightarrow> file_sharing_typed f"
  by (auto simp: file_sharing_unserialize_def file_sharing_typed_def item_or_int split: option.splits Option.bind_splits)

definition task_typed :: "task_data \<Rightarrow> bool" where
  "task_typed t \<longleftrightarrow> int64 (task_end_time t)"

lemma unserialize_task_typed: "pack_live p \<Longrightarrow> task_typed (unserialize_task p)"
  by (simp add: unserialize_task_def task_typed_def Let_def item_or_int task_new_def)

definition snippet_typed :: "url_snippet \<Rightarrow> bool" where
  "snippet_typed s \<longleftrightarrow> int32 (sn_preview_width s) \<and> int32 (sn_preview_height s)"

lemma snippet_unserialize_typed: "pack_live p \<Longrightarrow> snippet_typed (snippet_unserialize p (snippet_new url))"
  by (simp add: snippet_unserialize_def snippet_typed_def item_or_int snippet_new_def)

definition chat_event_typed :: "chat_event_data \<Rightarrow> bool" where
  "chat_event_typed e \<longleftrightarrow> int32 (ce_type e) \<and> opt_all int64 (tc_end_time (ce_task_change e))"

lemma chat_event_unserialize_typed:
  assumes "pack_live p" and "chat_event_unserialize jk p = Some e"
  shows "chat_event_typed e"
proof -
  have mchat: "chat_event_typed r'" if "read_mchat p r = Some r'" and "chat_event_typed r" for r r'
    using that by (auto simp: read_mchat_def deserialize_mchat_members_def deserialize_mchat_members_aimids_def
        chat_event_typed_def split: option.splits Option.bind_splits)
  have mods: "chat_event_typed r'" if "deserialize_chat_modifications p r = Some r'" and "chat_event_typed r" for r r'
    using that by (auto simp: deserialize_chat_modifications_def chat_event_typed_def split: if_splits Option.bind_splits)
  have task: "chat_event_typed (deserialize_task_change p r)" if "chat_event_typed r" for r
    using that assms(1) by (auto simp: deserialize_task_change_def chat_event_typed_def Let_def item_or_int)
  have other: "chat_event_typed (read_sender p r) = chat_event_typed r" "chat_event_typed (read_generic p r) = chat_event_typed r"
    "chat_event_typed (deserialize_status_reply p r) = chat_event_typed r" for r
    by (simp_all add: read_sender_def read_generic_def deserialize_status_reply_def chat_event_typed_def)
  have raw: "chat_event_typed ((chat_event_raw jk (get_i32 t))\<lparr>ce_is_channel := a, ce_is_captcha_present := b\<rparr>)"
    if "tlvpack_get_item mf_chat_event_type p = Some t" for t a b
    using get_item_live [OF assms(1) that] by (simp add: chat_event_typed_def chat_event_raw_def get_range task_change_new_def)
  show ?thesis
    using assms(2) raw
    by (auto simp: chat_event_unserialize_def Let_def other split: Option.bind_splits if_splits
        intro!: task dest!: mods mchat)
qed

lemma unserialize_poll_defined: "pack_live p \<Longrightarrow> \<exists>d. unserialize_poll p = Some d"
  using for_fields_inv [where P = "\<lambda>_. True" and p = p] by (fastforce simp: unserialize_poll_def)

definition quote_typed :: "quote \<Rightarrow> bool" where
  "quote_typed q \<longleftrightarrow> int32 (q_time q) \<and> int64 (q_msg_id q) \<and> int32 (q_set_id q) \<and> int32 (q_sticker_id q) \<and>
    opt_all task_typed (q_task q) \<and> opt_all format_typed (q_format q) \<and> opt_all format_typed (q_description_format q)"

lemma item_pack_inv:
  assumes "pack_live p" and "P x" and "\<And>q. pack_live q \<Longrightarrow> \<exists>y. g q x = Some y \<and> P y"
  shows "\<exists>y. item_pack ty g x p = Some y \<and> P y"
proof (cases "tlvpack_get_item ty p")
  case (Some t)
  then obtain q where "get_pack t = Some q" "pack_live q" using get_item_live [OF assms(1)] by (blast elim: get_pack_live)
  with Some assms(3) show ?thesis by (auto simp: item_pack_def)
qed (use assms(2) in \<open>simp add: item_pack_def\<close>)

lemma quote_unserialize_typed:
  assumes "pack_live p" and "quote_typed q"
  obtains q' where "quote_unserialize p q = Some q'" and "quote_typed q'"
proof -
  note inv = item_pack_inv [OF assms(1)]
  have fmt: "\<exists>y. item_pack ty (\<lambda>r x. map_option (Some \<circ> snd) (format_unserialize r)) x p = Some y \<and> opt_all format_typed y"
    if "opt_all format_typed x" for x ty
    by (rule inv [where P = "opt_all format_typed", OF that]) (auto elim: format_unserialize_typed)
  obtain contact where 1: "item_pack mf_shared_contact (\<lambda>r x. Some (read_contact r x)) (q_shared_contact q) p = Some contact"
    using inv [where P = "\<lambda>_. True" and g = "\<lambda>r x. Some (read_contact r x)"] by blast
  obtain place where 2: "item_pack mf_geo (\<lambda>r x. Some (read_geo r x)) (q_geo q) p = Some place"
    using inv [where P = "\<lambda>_. True" and g = "\<lambda>r x. Some (read_geo r x)"] by blast
  obtain poll where 3: "item_pack mf_poll (\<lambda>r x. map_option Some (unserialize_poll r)) (q_poll q) p = Some poll"
    using inv [where P = "\<lambda>_. True" and g = "\<lambda>r x. map_option Some (unserialize_poll r)"] unserialize_poll_defined by fastforce
  obtain task where 4: "item_pack mf_task (\<lambda>r x. Some (Some (unserialize_task r))) (q_task q) p = Some task"
      "opt_all task_typed task"
    using inv [where P = "opt_all task_typed" and g = "\<lambda>r x. Some (Some (unserialize_task r))" and x = "q_task q" and ty = mf_task]
      unserialize_task_typed assms(2) by (auto simp: quote_typed_def)
  obtain f where 5: "item_pack mf_format (\<lambda>r x. map_option (Some \<circ> snd) (format_unserialize r)) (q_format q) p = Some f"
      "opt_all format_typed f" using fmt assms(2) by (auto simp: quote_typed_def)
  obtain g where 6: "item_pack mf_description_format (\<lambda>r x. map_option (Some \<circ> snd) (format_unserialize r))
        (q_description_format q) p = Some g" "opt_all format_typed g" using fmt assms(2) by (auto simp: quote_typed_def)
  show thesis
    by (rule that, simp add: quote_unserialize_def 1 2 3 4 5 6)
      (use assms 4 5 6 in \<open>simp add: quote_typed_def item_or_int\<close>)
qed

subsection \<open>The message\<close>

definition message_typed :: "history_message \<Rightarrow> bool" where
  "message_typed m \<longleftrightarrow> int64 (m_msgid m) \<and> int64 (m_prev_msg_id m) \<and> int64 (m_time m) \<and> int64 (m_data_offset m) \<and>
    int32 (offline_version (m_update_patch_version m)) \<and>
    opt_all format_typed (m_format m) \<and> opt_all format_typed (m_description_format m) \<and>
    opt_all voip_typed (m_voip m) \<and> opt_all file_sharing_typed (m_file_sharing m) \<and>
    opt_all chat_event_typed (m_chat_event m) \<and> list_all quote_typed (m_quotes m) \<and>
    om_wf (m_mentions m) \<and> list_all snippet_typed (m_snippets m) \<and> opt_all task_typed (m_task m)"

definition env_typed :: "message_env \<Rightarrow> bool" where
  "env_typed env \<longleftrightarrow> (\<forall>json sn m. message_typed m \<longrightarrow> message_typed (snd (from_json env json sn m)))"

text \<open>The two entries the code does not check.\<close>

definition unguarded :: "message_env \<Rightarrow> tlv \<Rightarrow> bool" where
  "unguarded env t \<longleftrightarrow> (\<exists>q. get_pack t = Some q \<and>
     (tlv_type t = mf_file_sharing \<and> tlvpack_get_item mf_file_sharing_uri q = None \<and>
        tlvpack_get_item mf_file_sharing_local_path q = None \<or>
      tlv_type t = mf_chat_event \<and> chat_event_unserialize (junk env) q = None))"

definition reading_typed :: "reading_state + answer \<Rightarrow> bool" where
  "reading_typed r = (case r of Inl (m, _) \<Rightarrow> message_typed m | Inr (_, m, _) \<Rightarrow> message_typed m)"

lemma message_new_typed: "message_typed message_new"
  by (simp add: message_typed_def pv_new_def om_wf_def)

lemma read_scalar_typed: "tlv_live t \<Longrightarrow> message_typed m \<Longrightarrow> message_typed (read_scalar env t m)"
  by (simp add: read_scalar_def message_typed_def Let_def get_range set_version_def set_offline_version_def)

lemma read_mention_wf: "om_wf ms \<Longrightarrow> om_wf (read_mention q ms)"
  by (auto simp: read_mention_def Let_def split: option.split)

lemma read_part_typed:
  assumes "pack_live q" and "message_typed m"
  shows "(\<exists>m'. read_part env ty q m = Some m' \<and> message_typed m') \<or>
    (ty = mf_file_sharing \<and> file_sharing_unserialize q = None) \<or>
    (ty = mf_chat_event \<and> chat_event_unserialize (junk env) q = None)"
proof -
  obtain b fs where f: "format_unserialize q = Some (b, fs)" "format_typed fs"
    using format_unserialize_typed [OF assms(1)] .
  obtain ok v where v: "voip_unserialize q voip_new = Some (ok, v)" "voip_typed v"
    using voip_unserialize_typed [OF assms(1), of voip_new] by (auto simp: voip_typed_def voip_new_def)
  obtain x where x: "quote_unserialize q quote_new = Some x" "quote_typed x"
    using quote_unserialize_typed [OF assms(1), of quote_new] by (auto simp: quote_typed_def quote_new_def)
  obtain d where d: "unserialize_poll q = Some d" using unserialize_poll_defined [OF assms(1)] ..
  have fs: "file_sharing_typed g" if "file_sharing_unserialize q = Some g" for g
    using file_sharing_unserialize_typed [OF assms(1) that] .
  have ev: "chat_event_typed e" if "chat_event_unserialize jk q = Some e" for jk e
    using chat_event_unserialize_typed [OF assms(1) that] .
  show ?thesis
    using assms(2) unserialize_task_typed [OF assms(1)] snippet_unserialize_typed [OF assms(1), of "[]"]
    by (cases "file_sharing_unserialize q"; cases "chat_event_unserialize (junk env) q")
      (simp_all add: read_part_def f v x d fs ev message_typed_def read_mention_wf)
qed

lemma reparse_typed:
  assumes "env_typed env" and "message_typed m"
  shows "\<exists>r. reparse env (m, a) = Some r \<and> reading_typed r"
  using assms by (auto simp: reparse_def reading_typed_def env_typed_def split: prod.split)
    (metis snd_conv)

lemma read_field_typed:
  assumes "env_typed env" and "tlv_live t" and "message_typed m"
  shows "(\<exists>r. read_field env t (m, a) = Some r \<and> reading_typed r) \<or> read_field env t (m, a) = None \<and> unguarded env t"
proof -
  obtain q where q: "get_pack t = Some q" "pack_live q" using get_pack_live [OF assms(2)] .
  have update: "message_typed (m\<lparr>m_json := j\<rparr>) = message_typed m"
      "message_typed (m\<lparr>m_sender_aimid := j\<rparr>) = message_typed m"
      "message_typed (m\<lparr>m_reactions := r\<rparr>) = message_typed m" for j r m
    by (simp_all add: message_typed_def)
  have json: "\<exists>r. read_json env u (m', a) = Some r \<and> reading_typed r" if "message_typed m'" for u m'
    using reparse_typed [OF assms(1)] that by (simp add: read_json_def update)
  have sender: "\<exists>r. read_sender_aimid env t (m, a) = Some r \<and> reading_typed r"
    using reparse_typed [OF assms(1)] assms(3) by (simp add: read_sender_aimid_def update)
  have reactions: "\<exists>r. read_reactions env t (m, a) = Some r \<and> reading_typed r"
  proof -
    from q(1) obtain u where "tlv_get_pack t = Some (q, u)" by (auto simp: get_pack_def)
    then show ?thesis using json assms(3)
      by (simp add: read_reactions_def Let_def update split: prod.split)
  qed
  have pathless: "file_sharing_unserialize q = None \<longleftrightarrow> tlvpack_get_item mf_file_sharing_uri q = None \<and>
      tlvpack_get_item mf_file_sharing_local_path q = None"
    by (simp add: file_sharing_unserialize_def split: option.split)
  show ?thesis
  proof (cases "is_part (tlv_type t)")
    case True
    then have eq: "read_field env t (m, a) = Option.bind (read_part env (tlv_type t) q m) (\<lambda>m. Some (Inl (m, a)))"
      using q by (simp add: read_field_def Let_def)
    show ?thesis
    proof (cases "read_part env (tlv_type t) q m")
      case None
      then show ?thesis using read_part_typed [OF q(2) assms(3), of env "tlv_type t"] q(1) pathless eq
        by (auto simp: unguarded_def)
    next
      case (Some m')
      then have "message_typed m'"
        using read_part_typed [OF q(2) assms(3), of env "tlv_type t"] by (auto simp: read_part_def)
      with Some eq show ?thesis by (simp add: reading_typed_def)
    qed
  next
    case False
    then show ?thesis
      using json [OF assms(3), of t] sender reactions read_scalar_typed [OF assms(2,3), of env] assms(3)
      by (auto simp: read_field_def Let_def reading_typed_def)
  qed
qed

lemma each_field_typed:
  assumes "env_typed env" and "pack_live p" and "message_typed m"
  shows "(\<exists>r. each_field (read_field env) p (m, a) = Some r \<and> reading_typed r) \<or>
    each_field (read_field env) p (m, a) = None \<and> (\<exists>t \<in> set (tlvlist p). unguarded env t)"
proof -
  have "(\<exists>r. visit (read_field env) ts st = Some r \<and> reading_typed r) \<or>
      visit (read_field env) ts st = None \<and> (\<exists>t \<in> set ts. unguarded env t)"
    if "list_all tlv_live ts" and "message_typed (fst st)" for ts st
    using that
  proof (induction ts arbitrary: st)
    case (Cons t ts)
    obtain m a where st: "st = (m, a)" by (cases st)
    show ?case
    proof (cases "read_field env t st")
      case None
      then show ?thesis using read_field_typed [OF assms(1), of t m a] Cons.prems st by auto
    next
      case (Some r)
      then have "reading_typed r" using read_field_typed [OF assms(1), of t m a] Cons.prems st by auto
      with Some Cons.IH [of "projl r"] Cons.prems(1) show ?thesis
        by (cases r) (simp_all add: reading_typed_def split_beta, blast)
    qed
  qed (auto simp: reading_typed_def split: prod.split)
  from this [of "tlvlist p" "(m, a)"] assms(2,3) show ?thesis by (simp add: each_field_visit pack_live_def)
qed

subsection \<open>Properties\<close>




lemma bare_part_undefined:
  assumes "ty = mf_file_sharing \<or> ty = mf_chat_event"
  shows "unserialize_call env (bs_write (tlv_enc (ty, [])) bs_new) m a = None"
proof -
  have bytes: "bs_wf (bs_write (tlv_enc (ty, [])) bs_new)"
      "bs_pending (bs_write (tlv_enc (ty, [])) bs_new) = pack_bytes [(ty, [])]"
    by simp_all
  have "read_part env ty (pack_of []) m = None"
    using assms by (auto simp: read_part_def file_sharing_unserialize_def chat_event_unserialize_def)
  moreover have "is_part ty" using assms by (auto simp: is_part_def)
  ultimately have "each_field (read_field env) (pack_of [(ty, [])]) (m, a) = None"
    using get_pack_canon [of "[]" ty] by (simp add: each_field_pack_of read_field_def Let_def)
  then show ?thesis using unserialize_call_fields [OF bytes, of env m a] by simp
qed


text \<open>
  The functions that look for one field agree with the whole message: the id, whether it is a
  sticker or a chat event, and the place of the text in the bytes.
\<close>

theorem fast_fields:
  assumes "message_storable jk m aimid" and "bs_wf s" and "bs_pending s = []"
  shows "map_option fst (get_id_field (serialize_call jk m aimid s)) = Some (m_msgid m) \<and>
    map_option fst (is_sticker_field (serialize_call jk m aimid s)) = Some (m_sticker m \<noteq> None) \<and>
    map_option fst (is_chat_event_field (serialize_call jk m aimid s)) = Some (m_chat_event m \<noteq> None) \<and>
    (\<exists>n s'. jump_to_text_field (serialize_call jk m aimid s) 0 = Some (n, s') \<and> unat n = length (m_text m) \<and>
       take (unat n) (bs_pending s') = m_text m)"
proof (intro conjI)
  note found = find_in_message [OF assms]
  have id64: "int64 (m_msgid m)" using message_storable_dest [OF assms(1)] by (simp add: message_ok_def)
  show "map_option fst (get_id_field (serialize_call jk m aimid s)) = Some (m_msgid m)"
    by (rule found [of mf_msg_id]) (use id64 in \<open>auto simp: found_fields get_id_field_def bs_typed_reads\<close>)
  show "map_option fst (is_sticker_field (serialize_call jk m aimid s)) = Some (m_sticker m \<noteq> None)"
    by (rule found [of mf_sticker]) (simp add: found_fields is_sticker_field_def)
  show "map_option fst (is_chat_event_field (serialize_call jk m aimid s)) = Some (m_chat_event m \<noteq> None)"
    by (rule found [of mf_chat_event]) (simp add: found_fields is_chat_event_field_def)
  show "\<exists>n s'. jump_to_text_field (serialize_call jk m aimid s) 0 = Some (n, s') \<and> unat n = length (m_text m) \<and>
      take (unat n) (bs_pending s') = m_text m"
    by (rule found [of mf_text]) (auto simp: found_fields jump_to_text_field_def split: if_splits)
qed

theorem fast_fields_witness:
  "map_option fst (get_id_field (serialize_call False sample_message ''me'' bs_new)) = Some 7 \<and>
   map_option fst (is_chat_event_field (serialize_call False sample_message ''me'' bs_new)) = Some True"
  using fast_fields [OF sample_message_storable bs_new_wf bs_new_pending] by (simp add: sample_message_def)

end
