(* ===== verification/Message_Changes.thy ===== *)
theory Message_Changes
  imports Message_Safety
begin

text \<open>
  How messages change: the message that is stored is stable under further rounds of writing and reading,
  the modifications of later patches leave the last of each kind, and what a copy, a comparison of
  contents and the names of persons do to the parts.
\<close>

subsection \<open>What is stored is stable\<close>

lemma stored_seconds:
  assumes "int64 t"
  shows "from_seconds (to_seconds (from_seconds (to_seconds t))) = from_seconds (to_seconds t)"
proof -
  have "int64 (to_seconds t * ticks_per_second)"
    using assms by (simp add: in_signed_def to_seconds_def) linarith
  then show ?thesis by (simp add: seconds_roundtrip)
qed

lemma parts_stored_stored [simp]:
  "chat_stored jk (chat_stored jk c) = chat_stored jk c"
  "poll_stored (poll_stored d) = poll_stored d"
  "int64 (task_end_time t) \<Longrightarrow> task_stored (task_stored t) = task_stored t"
  by (simp_all add: chat_stored_def poll_stored_def task_stored_def poll_new_def poll_answer_new_def
      task_new_def stored_seconds comp_def)

lemma quote_stored_stored [simp]: "quote_ok q \<Longrightarrow> quote_stored (quote_stored q) = quote_stored q"
  by (cases "q_task q"; cases "q_poll q") (simp_all add: quote_stored_def quote_ok_def)

lemma change_stored_stored:
  "opt_all int64 (tc_end_time c) \<Longrightarrow> change_stored (change_stored c) = change_stored c"
  by (cases "tc_end_time c"; cases "tc_status c") (simp_all add: change_stored_def stored_seconds)

lemma chat_event_stored_stored:
  assumes "chat_event_ok e"
  shows "chat_event_stored jk (chat_event_stored jk e) = chat_event_stored jk e"
proof -
  have ty: "ce_type (chat_event_stored jk e) = ce_type e"
    by (simp add: chat_event_stored_def keep_defs chat_event_raw_def)
  have kinds: "has_sender_aimid (chat_event_stored jk e) = has_sender_aimid e"
      "has_mchat_members (chat_event_stored jk e) = has_mchat_members e"
      "has_chat_modifications (chat_event_stored jk e) = has_chat_modifications e"
      "has_generic_text (chat_event_stored jk e) = has_generic_text e"
      "is_status_reply (chat_event_stored jk e) = is_status_reply e"
    by (simp_all add: ty has_sender_aimid_def has_mchat_members_def has_chat_modifications_def
        has_generic_text_def is_status_reply_def)
  show ?thesis
    unfolding chat_event_stored_def [of jk "chat_event_stored jk e"] keep_defs kinds ty
    using assms
    by (simp add: chat_event_stored_def keep_defs chat_event_raw_def chat_event_ok_def change_stored_stored)
qed

lemma message_stored_stored:
  assumes "message_ok m"
  shows "message_stored jk env (message_stored jk env m) = message_stored jk env m"
proof -
  have quotes: "map quote_stored (map quote_stored (m_quotes m)) = map quote_stored (m_quotes m)"
    using assms by (simp add: message_ok_def list_all_iff)
  have event: "map_option (chat_event_stored (junk env)) (map_option (chat_event_stored (junk env)) (m_chat_event m)) =
      map_option (chat_event_stored (junk env)) (m_chat_event m)"
    using assms by (cases "m_chat_event m") (simp_all add: message_ok_def chat_event_stored_stored)
  have rest: "map_option task_stored (map_option task_stored (m_task m)) = map_option task_stored (m_task m)"
      "map_option (chat_stored jk) (map_option (chat_stored jk) (m_chat m)) = map_option (chat_stored jk) (m_chat m)"
      "map_option poll_stored (map_option poll_stored (m_poll m)) = map_option poll_stored (m_poll m)"
    using assms by (cases "m_task m"; cases "m_chat m"; cases "m_poll m"; simp add: message_ok_def)+
  show ?thesis
    by (rule history_message.equality)
      (simp_all add: message_stored_def quotes event rest del: map_map)
qed

lemma in_range_from_seconds: "int64 (from_seconds s)"
  using in_signed_to_signed [of 64 "of_signed 64 (s * ticks_per_second)"]
  by (simp add: from_seconds_def of_signed_def nat_less_iff)

lemma message_ok_stored:
  assumes "message_ok m"
  shows "message_ok (message_stored jk env m)"
proof -
  have quotes: "quote_ok (quote_stored q)" if "quote_ok q" for q
    using that in_range_from_seconds
    by (cases "q_task q") (simp_all add: quote_ok_def quote_stored_def task_stored_def task_new_def)
  have event: "chat_event_ok (chat_event_stored jk' e)" if "chat_event_ok e" for e jk'
    using that by (cases "tc_end_time (ce_task_change e)")
      (use in_range_from_seconds in \<open>simp_all add: chat_event_ok_def chat_event_stored_def keep_defs chat_event_raw_def change_stored_def task_change_new_def in_signed_def\<close>)
  have task: "int64 (task_end_time (task_stored t))" for t
    using in_range_from_seconds by (simp add: task_stored_def task_new_def)
  have mentions: "om_wf (filter P xs)" if "om_wf xs" for P and xs :: "(cstring \<times> cstring) list"
    using that by (induction xs) (auto simp: om_wf_def sorted_wrt_filter)
  show ?thesis
    using assms quotes event
    by (cases "m_chat_event m"; cases "m_task m")
      (auto simp: message_ok_def message_stored_def task mentions list_all_iff)
qed


lemma sample_stored: "length (pack_bytes (message_fields False (message_stored False echo_env sample_message) ''me'')) < 2 ^ 32"
  by (simp add: sample_message_def storable_eval message_stored_def echo_env_def chat_stored_def quote_stored_def
      chat_event_stored_def keep_defs)


subsection \<open>Modifications, copies, comparisons\<close>

definition modifies :: "history_message \<Rightarrow> bool" where
  "modifies d \<longleftrightarrow> has_text d \<or> m_chat_event d \<noteq> None"

lemma reset_twice: "reset_extended_data ((reset_extended_data m)\<lparr>m_text := t\<rparr>) = (reset_extended_data m)\<lparr>m_text := t\<rparr>"
  "reset_extended_data ((reset_extended_data m)\<lparr>m_chat_event := e\<rparr>) = reset_extended_data m"
  by (simp_all add: reset_extended_data_def)

lemma reset_fields:
  "m_text (reset_extended_data m) = m_text m" "m_chat_event (reset_extended_data m) = None"
  "(reset_extended_data m)\<lparr>m_text := t, m_chat_event := None\<rparr> = (reset_extended_data m)\<lparr>m_text := t\<rparr>"
  "(reset_extended_data m)\<lparr>m_text := m_text m, m_chat_event := e\<rparr> = (reset_extended_data m)\<lparr>m_chat_event := e\<rparr>"
  by (simp_all add: reset_extended_data_def)


text \<open>
  two files the server knows are always equal in their contents: their local paths are both empty,
  which is enough for the comparison, whatever their addresses.
\<close>

theorem server_files_always_equal:
  assumes "m_sticker m = None" and "m_sticker msg = None"
    and "m_file_sharing m = Some f" and "m_file_sharing msg = Some g"
    and "file_sharing_ok f" and "file_sharing_ok g" and "fs_uri f \<noteq> []" and "fs_uri g \<noteq> []"
  shows "contents_equal m msg"
  using assms by (simp add: contents_equal_def message_get_type_def file_sharing_contents_equal_def file_sharing_ok_def)

definition server_file :: "cstring \<Rightarrow> history_message" where
  "server_file uri = message_new\<lparr>m_file_sharing :=
     Some \<lparr>fs_uri = uri, fs_local_path = [], fs_duration = None, fs_base_content_type = None\<rparr>\<rparr>"

theorem server_files_always_equal_witness:
  "contents_equal (server_file ''http://one'') (server_file ''http://two'')"
  using server_files_always_equal [of "server_file ''http://one''" "server_file ''http://two''"]
  by (simp add: server_file_def file_sharing_ok_def)

text \<open>
  a copy of a message is the message without its reactions, its keyboard and the text it would be
  read from again, with the name of the sender that goes with it.
\<close>

theorem copy_drops:
  "message_copy message_new m =
    m\<lparr>m_json := [], m_sender_aimid := [], m_buttons := [], m_buttons_json := [], m_reactions := None\<rparr>"
  by (cases m) (simp add: message_copy_def message_new_def)

lemma merge_keeps_old_description_format:
  "m_description_format other = None \<Longrightarrow>
    m_description_format (message_merge this other) = m_description_format this \<and>
    m_description (message_merge this other) = m_description other"
  by (simp add: message_merge_def)

lemma merge_again: "message_merge (message_merge m other) other = message_merge m other"
  by (simp add: message_merge_def split: option.split)

lemma members_named_twice:
  assumes "has_mchat_members e"
  shows "length (ce_members_friendly (chat_event_apply_persons ps e)) =
    length (ce_members_friendly e) + length (ce_members e)"
  using assms by (simp add: chat_event_apply_persons_def Let_def has_mchat_members_def)

lemma unknown_becomes_official:
  "person_official (cd_friendly (chat_stored jk c)) = Some (case person_official (cd_friendly c) of None \<Rightarrow> jk | Some b \<Rightarrow> b)"
  by (simp add: chat_stored_def)

lemma mode_of_chat_lost:
  "ce_new_join_moderation (chat_event_stored jk e) = jk \<and> ce_new_public (chat_event_stored jk e) = jk \<and>
   ce_new_trust_required (chat_event_stored jk e) = jk"
  by (simp add: chat_event_stored_def keep_defs chat_event_raw_def)

end
