(* ===== verification/Message_Store.thy ===== *)
theory Message_Store
  imports Message_Changes Storage_Log
begin

text \<open>
  The file of the messages of a contact (\<open>class messages_data\<close> in \<open>core/archive/messages_data.cpp\<close>):
  \<open>update\<close> appends the messages to the log and notes where they are, \<open>get_messages\<close> reads them back
  through their headers, with the modifications the headers have collected. The stream \<open>message_data\<close>
  is reused between the blocks, as in the code.
\<close>

type_synonym history_block = "history_message list"
type_synonym error_vector = "(int \<times> int) list"

subsection \<open>Reading\<close>

definition data_offset :: "message_header \<Rightarrow> int" where
  "data_offset h = h_data_offset (hfields h)"

definition make_fake_message :: "message_header \<Rightarrow> history_message" where
  "make_fake_message h =
    (let msg = apply_header_flags h message_new
     in msg\<lparr>m_msgid := get_id h, m_prev_msg_id := get_prev_msgid h,
            m_time := to_signed 64 (unat (get_time h)),
            m_text := ''Invalid message data. Will be updated soon''\<rparr>)"

fun read_modifications ::
  "message_env \<Rightarrow> message_header list \<Rightarrow> binary_stream \<Rightarrow> storage \<Rightarrow> (history_block \<times> storage) option" where
  "read_modifications env [] data st = Some ([], st)"
| "read_modifications env (h # hs) data st = do {
     (ok, data, st) \<leftarrow> read_data_block (data_offset h) data st;
     if \<not> ok then read_modifications env hs data st
     else do {
       (code, m, data) \<leftarrow> message_unserialize env data message_new;
       if code \<noteq> 0 \<or> m_msgid m \<noteq> get_id h then read_modifications env hs data st
       else do { (ms, st) \<leftarrow> read_modifications env hs data st; Some (m # ms, st) } } }"

definition get_message_modifications ::
  "message_env \<Rightarrow> message_header \<Rightarrow> storage \<Rightarrow> (history_block \<times> storage) option" where
  "get_message_modifications env h st =
    (if \<not> is_modified h \<and> \<not> is_updated h then Some ([], st)
     else read_modifications env (modifications h) bs_new st)"

text \<open>One round of the loop: the code of the error, or 0, and the message that is added.\<close>

definition read_message ::
  "message_env \<Rightarrow> message_header \<Rightarrow> binary_stream \<Rightarrow> storage \<Rightarrow>
     (int \<times> history_message \<times> binary_stream \<times> storage) option" where
  "read_message env h data st = do {
     (ok, data, st) \<leftarrow> read_data_block (data_offset h) data st;
     if \<not> ok then Some (1, make_fake_message h, data, st)
     else do {
       (code, msg, data) \<leftarrow> message_unserialize env data message_new;
       if code \<noteq> 0 then Some (2, make_fake_message h, data, st)
       else if m_msgid msg \<noteq> get_id h then Some (3, make_fake_message h, data, st)
       else do {
         let msg = apply_header_flags h msg;
         (mods, st) \<leftarrow> get_message_modifications env h st;
         Some (0, apply_modifications mods msg, data, st) } } }"

fun read_messages ::
  "message_env \<Rightarrow> message_header list \<Rightarrow> binary_stream \<Rightarrow> storage \<Rightarrow>
     (error_vector \<times> history_block \<times> storage) option" where
  "read_messages env [] data st = Some ([], [], st)"
| "read_messages env (h # hs) data st = do {
     (e, msg, data, st) \<leftarrow> read_message env h (bs_reset data) st;
     (es, msgs, st) \<leftarrow> read_messages env hs data st;
     Some ((if e = 0 then es else (get_id h, e) # es), msg # msgs, st) }"

definition data_get_messages ::
  "message_env \<Rightarrow> message_header list \<Rightarrow> history_block \<Rightarrow> storage \<Rightarrow>
     (error_vector \<times> history_block \<times> storage) option" where
  "data_get_messages env hs msgs st =
    (let (ok, st) = st_open (no_mode\<lparr>mode_read := True, mode_append := True\<rparr>) st
     in if \<not> ok then Some ([(-1, -1)], msgs, st)
        else do {
          (es, ms, st) \<leftarrow> read_messages env hs bs_new st;
          let msgs = msgs @ ms;
          Some (es @ (if length msgs \<noteq> length hs then [(-1, 4)] else []), msgs, st_close st) })"

subsection \<open>Writing\<close>

fun write_messages ::
  "message_env \<Rightarrow> history_block \<Rightarrow> binary_stream \<Rightarrow> storage \<Rightarrow> result_type \<times> history_block \<times> storage" where
  "write_messages env [] data st = ((True, 0), [], st)"
| "write_messages env (m # ms) data st =
    (let data = message_serialize (junk env) m (bs_reset data);
         data_size = bs_available data;
         (res, offset, data, st) = write_data_block data 0 st
     in if \<not> fst res then (res, m # ms, st)
        else let m = m\<lparr>m_data_offset := offset, m_data_size := word_of_int data_size\<rparr>;
                 (res, ms, st) = write_messages env ms data st
             in (res, m # ms, st))"

definition data_update :: "message_env \<Rightarrow> history_block \<Rightarrow> storage \<Rightarrow> result_type \<times> history_block \<times> storage" where
  "data_update env ms st =
    (let (ok, st) = st_open (no_mode\<lparr>mode_write := True, mode_append := True\<rparr>) st
     in if \<not> ok then ((False, 0), ms, st)
        else let (res, ms, st) = write_messages env ms bs_new st in (res, ms, st_close st))"

definition data_drop :: "storage \<Rightarrow> storage" where
  "data_drop st = st_close (snd (st_open (no_mode\<lparr>mode_write := True, mode_truncate := True\<rparr>) st))"

text \<open>The header \<open>archive_index::update\<close> makes for a message.\<close>

definition header_of_message :: "history_message \<Rightarrow> message_header" where
  "header_of_message m = make_header (m_flags m) (word_of_int (m_time m)) (m_msgid m) (m_prev_msg_id m)
     (m_data_offset m) (m_data_size m) (m_update_patch_version m) (has_shared_contact_with_sn m)
     (has_poll_with_id m) (has_task_with_id m) (has_reactions m) (has_thread m)"

subsection \<open>What was written is read\<close>

definition message_bytes :: "message_env \<Rightarrow> history_message \<Rightarrow> byte list" where
  "message_bytes env m = pack_bytes (message_fields (junk env) m [])"

definition archivable :: "message_env \<Rightarrow> history_message \<Rightarrow> bool" where
  "archivable env m \<longleftrightarrow> message_ok m \<and> length (message_bytes env m) \<le> max_data_block_size \<and>
     (m_json m = [] \<or> m_sender_aimid m = [])"

lemma archivable_dest:
  assumes "archivable env m"
  shows "message_storable (junk env) m []" and "length (message_bytes env m) < 2 ^ 32"
    and "message_bytes env m \<noteq> []" and "length (message_bytes env m) \<le> max_data_block_size"
proof -
  show "message_bytes env m \<noteq> []" by (simp add: message_bytes_def message_fields_def head_fields_def tlv_enc_def flip: length_0_conv)
qed (use assms in \<open>auto simp: archivable_def message_storable_def message_bytes_def max_data_block_size_def\<close>)

lemma message_serialize_bytes:
  shows "bs_wf (message_serialize (junk env) m (bs_reset s))"
    and "bs_pending (message_serialize (junk env) m (bs_reset s)) = message_bytes env m"
  using serialize_call_bytes [of "bs_reset s" "junk env" m "[]"]
  by (simp_all add: message_serialize_def message_bytes_def)

lemma message_unserialize_bytes:
  assumes "archivable env m" and "bs_wf s" and "bs_pending s = message_bytes env m"
  shows "message_unserialize env s message_new =
    Some (0, message_stored (junk env) env m, bs_skip (length (message_bytes env m)) s)"
proof -
  have j: "m_json m = [] \<or> m_sender_aimid m = []" using assms(1) by (simp add: archivable_def)
  show ?thesis
    using unserialize_message_bytes [OF archivable_dest(1) [OF assms(1)] j assms(2), of env "[]"] assms(3)
    by (simp add: message_bytes_def message_unserialize_def)
qed

definition placed :: "message_env \<Rightarrow> nat \<Rightarrow> history_message \<Rightarrow> history_message" where
  "placed env n m = m\<lparr>m_data_offset := int n, m_data_size := word_of_nat (length (message_bytes env m))\<rparr>"

fun place :: "message_env \<Rightarrow> nat \<Rightarrow> history_block \<Rightarrow> history_block" where
  "place env n [] = []"
| "place env n (m # ms) = placed env n m # place env (n + 16 + length (message_bytes env m)) ms"

definition log_of :: "message_env \<Rightarrow> history_block \<Rightarrow> byte list" where
  "log_of env ms = concat (map (\<lambda>m. frame (message_bytes env m)) ms)"

lemma log_of_simps [simp]: "log_of env [] = []" "log_of env (m # ms) = frame (message_bytes env m) @ log_of env ms"
  by (simp_all add: log_of_def)

lemma write_messages_appends:
  assumes "list_all (archivable env) ms" and "appending st" and "folder_ok st" and "open_ok st" and "disk_file st \<noteq> None"
    and "length (log_of env ms) \<le> room st"
  shows "\<exists>st'. write_messages env ms data st = ((True, 0), place env (length (contents st)) ms, st') \<and>
    contents st' = contents st @ log_of env ms \<and> room st' = room st - length (log_of env ms) \<and>
    folder_ok st' \<and> open_ok st' \<and> disk_file st' \<noteq> None"
  using assms
proof (induction ms arbitrary: data st)
  case (Cons m ms)
  let ?d = "message_serialize (junk env) m (bs_reset data)"
  have m: "archivable env m" "list_all (archivable env) ms" using Cons.prems(1) by simp_all
  note a = archivable_dest [OF m(1)] and d = message_serialize_bytes [of env m data]
  from write_data_block_appending(1) [OF Cons.prems(2) d(1), of 0] d(2) a Cons.prems(6)
  obtain data' st' where w: "write_data_block ?d 0 st = ((True, 0), int (length (contents st)), data', st')"
    and st': "contents st' = contents st @ frame (message_bytes env m)"
      "room st' = room st - (16 + length (message_bytes env m))" "appending st'" "disk_file st' \<noteq> None"
    by auto
  have env': "folder_ok st'" "open_ok st'"
    using write_data_block_env [of ?d 0 st] w Cons.prems(3,4) by simp_all
  have size: "word_of_int (bs_available ?d) = (word_of_nat (length (message_bytes env m)) :: u32)"
    using d by (simp add: bs_available_pending)
  have room: "length (log_of env ms) \<le> room st'" using st'(2) Cons.prems(6) by simp
  from Cons.IH [OF m(2) st'(3) env' st'(4) room, of data']
  obtain st'' where r: "write_messages env ms data' st' = ((True, 0), place env (length (contents st')) ms, st'')"
      "contents st'' = contents st' @ log_of env ms" "room st'' = room st' - length (log_of env ms)"
      "folder_ok st''" "open_ok st''" "disk_file st'' \<noteq> None" by blast
  show ?case
    by (intro exI [of _ st'']) (use r st' w size in \<open>simp add: Let_def placed_def add.assoc\<close>)
qed auto

lemma st_open_append:
  assumes "disk_ready st"
  shows "\<exists>st'. st_open (no_mode\<lparr>mode_write := True, mode_append := True\<rparr>) st = (True, st') \<and> appending st' \<and>
    contents st' = contents st \<and> room st' = room st \<and> folder_ok st' \<and> open_ok st' \<and> disk_file st' \<noteq> None"
  using assms
  by (auto simp: disk_ready_def st_open_def no_mode_def fopen_def appending_def contents_def fs_good_def split: option.split)

definition readable :: "storage \<Rightarrow> byte list \<Rightarrow> bool" where
  "readable st c \<longleftrightarrow> (\<exists>rest. reading st rest) \<and> contents st = c"

lemma st_open_read_append:
  assumes "disk_ready st" and "disk_file st = Some c"
  shows "\<exists>st'. st_open (no_mode\<lparr>mode_read := True, mode_append := True\<rparr>) st = (True, st') \<and> readable st' c"
  using assms
  by (auto simp: disk_ready_def st_open_def no_mode_def fopen_def readable_def reading_def contents_def fs_good_def)

lemma read_at_frame:
  assumes "readable st (pre @ frame d @ post)" and "length d \<le> max_data_block_size" and "bs_wf data"
  shows "\<exists>data' st'. read_data_block (int (length pre)) data st = Some (True, data', st') \<and>
    bs_wf data' \<and> bs_pending data' = bs_pending data @ d \<and> readable st' (pre @ frame d @ post)"
proof -
  let ?c = "pre @ frame d @ post"
  obtain rest where r: "reading st rest" "contents st = ?c" using assms(1) by (auto simp: readable_def)
  then have "reading st (drop (fs_pos (the (active_file_stream st))) ?c)" by (auto simp: reading_def)
  obtain f where f: "active_file_stream st = Some f" "fs_good f" "fs_in f" using r(1) by (auto simp: reading_def)
  let ?st = "st\<lparr>active_file_stream := Some (f\<lparr>fs_pos := length pre\<rparr>)\<rparr>"
  have seek: "fs_seekp (int (length pre)) f = f\<lparr>fs_pos := length pre\<rparr>" using f by (simp add: fs_seekp_def fs_good_def)
  have peek: "fs_peek_eof (f\<lparr>fs_pos := length pre\<rparr>) ?st = fs_peek_eof (f\<lparr>fs_pos := length pre\<rparr>) st"
    by (simp add: fs_peek_eof_def fs_good_def)
  have "read_data_block (int (length pre)) data st = read_data_block (-1) data ?st"
    using f(1) by (simp add: read_data_block_def seek peek case_prod_beta)
  moreover have "reading ?st (frame d @ post)" using f r(2) by (auto simp: reading_def fs_good_def)
  from read_data_block_frame [OF this assms(2,3)]
  obtain data' st' where "read_data_block (-1) data ?st = Some (True, data', st')" "bs_wf data'"
      "bs_pending data' = bs_pending data @ d" "reading st' post" "same_file ?st st'" by blast
  ultimately show ?thesis
    using r(2) by (auto simp: readable_def same_file_def contents_def)
qed

lemma put_flag_same: "put_flag n (bit w n) w = w"
  by (rule bit_word_eqI) (auto simp: bit_put_flag)

lemma same_header_flags: "apply_header_flags (header_of_message m') m = m"
  if "m_flags m' = m_flags m"
  using that by (cases m) (simp add: apply_header_flags_def set_restored_patch_def set_deleted_def message_set_flag_def
      header_of_message_def make_header_def is_restored_patch_def is_deleted_def put_flag_same)

lemma read_message_placed:
  assumes "archivable env m" and "readable st (pre @ frame (message_bytes env m) @ post)" and "n = length pre"
  shows "\<exists>data' st'. read_message env (header_of_message (placed env n m)) (bs_reset data) st =
      Some (0, message_stored (junk env) env m, data', st') \<and> readable st' (pre @ frame (message_bytes env m) @ post)"
proof -
  let ?h = "header_of_message (placed env n m)"
  have h: "data_offset ?h = int (length pre)" "get_id ?h = m_msgid m" "modifications ?h = []"
    using assms(3) by (simp_all add: data_offset_def header_of_message_def make_header_def placed_def get_id_def)
  obtain data' st' where r: "read_data_block (int (length pre)) (bs_reset data) st = Some (True, data', st')"
      "bs_wf data'" "bs_pending data' = message_bytes env m" "readable st' (pre @ frame (message_bytes env m) @ post)"
    using read_at_frame [OF assms(2) archivable_dest(4) [OF assms(1)], of "bs_reset data"] by auto
  obtain data'' where u: "message_unserialize env data' message_new = Some (0, message_stored (junk env) env m, data'')"
    using message_unserialize_bytes [OF assms(1) r(2,3)] by blast
  have flags: "apply_header_flags ?h (message_stored (junk env) env m) = message_stored (junk env) env m"
    by (rule same_header_flags) (simp add: placed_def message_stored_def)
  have mods: "get_message_modifications env ?h st' = Some ([], st')"
    by (simp add: get_message_modifications_def h(3))
  have "m_msgid (message_stored (junk env) env m) = m_msgid m" by (simp add: message_stored_def)
  then show ?thesis using r u flags mods h by (simp add: read_message_def)
qed

lemma read_messages_placed:
  assumes "list_all (archivable env) ms" and "readable st (pre @ log_of env ms @ post)" and "n = length pre"
  shows "\<exists>st'. read_messages env (map header_of_message (place env n ms)) data st =
    Some ([], map (message_stored (junk env) env) ms, st') \<and> readable st' (pre @ log_of env ms @ post)"
  using assms
proof (induction ms arbitrary: n pre data st)
  case (Cons m ms)
  have m: "archivable env m" "list_all (archivable env) ms" using Cons.prems(1) by simp_all
  have here: "readable st (pre @ frame (message_bytes env m) @ log_of env ms @ post)" using Cons.prems(2) by simp
  obtain data' st' where r: "read_message env (header_of_message (placed env n m)) (bs_reset data) st =
      Some (0, message_stored (junk env) env m, data', st')"
      "readable st' (pre @ frame (message_bytes env m) @ log_of env ms @ post)"
    using read_message_placed [OF m(1) here Cons.prems(3), of data] by blast
  have there: "readable st' ((pre @ frame (message_bytes env m)) @ log_of env ms @ post)" using r(2) by simp
  obtain st'' where "read_messages env (map header_of_message (place env (n + 16 + length (message_bytes env m)) ms)) data' st' =
      Some ([], map (message_stored (junk env) env) ms, st'')"
      "readable st'' ((pre @ frame (message_bytes env m)) @ log_of env ms @ post)"
    using Cons.IH [OF m(2) there, of "n + 16 + length (message_bytes env m)" data'] Cons.prems(3) by auto
  with r show ?case by simp
qed simp

subsection \<open>A read that failed\<close>

text \<open>
  The stream of a file whose end was reached is not good any more, and \<open>seekp\<close> does not change that.
\<close>

definition stuck :: "storage \<Rightarrow> bool" where
  "stuck st \<longleftrightarrow> (\<exists>f. active_file_stream st = Some f \<and> \<not> fs_good f)"

lemma read_behind_end:
  assumes "readable st c" and "int (length c) \<le> off"
  shows "\<exists>st'. read_data_block off data st = Some (False, data, st') \<and> stuck st'"
proof -
  obtain f where f: "active_file_stream st = Some f" "fs_good f" "fs_in f" and c: "contents st = c"
    using assms(1) by (auto simp: readable_def reading_def)
  have "length c \<le> nat off" using assms(2) by simp
  then show ?thesis
    using f c assms(2) by (auto simp: read_data_block_def fs_seekp_def fs_peek_eof_def fs_good_def stuck_def Let_def)
qed

lemma read_stuck:
  assumes "stuck st"
  shows "\<exists>st'. read_data_block off data st = Some (False, data, st') \<and> stuck st'"
proof -
  obtain f where f: "active_file_stream st = Some f" "\<not> fs_good f" using assms by (auto simp: stuck_def)
  have bad: "\<not> fs_good (fs_seekp off f)" using f(2) by (auto simp: fs_seekp_def fs_good_def)
  have "\<not> fs_good (if off \<noteq> -1 then fs_seekp off f else f)" using bad f(2) by simp
  then show ?thesis
    using f(1) by (auto simp: read_data_block_def fs_peek_eof_def Let_def stuck_def fs_good_def)
qed

lemma read_messages_stuck:
  assumes "stuck st"
  shows "\<exists>st'. read_messages env hs data st =
    Some (map (\<lambda>h. (get_id h, 1)) hs, map make_fake_message hs, st')"
  using assms
proof (induction hs arbitrary: data st)
  case (Cons h hs)
  obtain st' where r: "read_data_block (data_offset h) (bs_reset data) st = Some (False, bs_reset data, st')" "stuck st'"
    using read_stuck [OF Cons.prems] by blast
  with Cons.IH [OF r(2), of "bs_reset data"] show ?case by (auto simp: read_message_def)
qed simp

subsection \<open>Properties\<close>

text \<open>
  C10: messages that \<open>update\<close> has appended to the file of a contact are read back through the headers
  the index makes for them: \<open>update\<close> notes an offset in every message, and \<open>get_messages\<close> with these
  headers gives the messages in their order, without an error, whatever the file held before and
  whatever has been appended since. What is read is the message as it is stored.
\<close>

theorem messages_read_back:
  assumes "disk_ready st" and "list_all (archivable env) ms" and "length (log_of env ms) \<le> room st"
    and "data_update env ms st = (res, ms', st1)"
    and "disk_ready st2" and "disk_file st2 = Some (contents st1 @ later)"
  shows "res = (True, 0) \<and> map m_msgid ms' = map m_msgid ms \<and>
    (\<exists>st3. data_get_messages env (map header_of_message ms') [] st2 =
      Some ([], map (message_stored (junk env) env) ms, st3))"
proof -
  obtain st0 where st0: "st_open (no_mode\<lparr>mode_write := True, mode_append := True\<rparr>) st = (True, st0)" "appending st0"
      "contents st0 = contents st" "room st0 = room st" "folder_ok st0" "open_ok st0" "disk_file st0 \<noteq> None"
    using st_open_append [OF assms(1)] by blast
  obtain st' where w: "write_messages env ms bs_new st0 = ((True, 0), place env (length (contents st)) ms, st')"
      "contents st' = contents st @ log_of env ms"
    using write_messages_appends [OF assms(2) st0(2,5-7)] assms(3) st0(3,4) by auto
  have eq: "res = (True, 0)" "ms' = place env (length (contents st)) ms" "st1 = st_close st'"
    using assms(4) st0(1) w(1) by (simp_all add: data_update_def)
  have ids: "map m_msgid (place env n ms) = map m_msgid ms" for n
    by (induction env n ms rule: place.induct) (simp_all add: placed_def)
  have "disk_file st2 = Some (contents st @ log_of env ms @ later)"
    using assms(6) eq(3) w(2) by (simp add: st_close_def)
  then obtain st3 where st3: "st_open (no_mode\<lparr>mode_read := True, mode_append := True\<rparr>) st2 = (True, st3)"
      "readable st3 (contents st @ log_of env ms @ later)"
    using st_open_read_append [OF assms(5)] by blast
  obtain st4 where "read_messages env (map header_of_message (place env (length (contents st)) ms)) bs_new st3 =
      Some ([], map (message_stored (junk env) env) ms, st4)"
    using read_messages_placed [OF assms(2) st3(2) refl] by blast
  moreover have "length (place env (length (contents st)) ms) = length ms" using ids by (metis length_map)
  ultimately show ?thesis using st3(1) eq ids by (simp add: data_get_messages_def)
qed

text \<open>
  C16: one header that points behind the end of the file takes all headers after it with it. The read
  at the end leaves the stream in a state no later read recovers from, so every further message of the
  same call is reported as damaged and replaced by a placeholder, although its data are intact. A
  header that was invalidated, to be fetched again, is such a header.
\<close>

theorem invalid_header_hides_rest:
  assumes "disk_ready st" and "disk_file st = Some c" and "int (length c) \<le> data_offset h"
  shows "\<exists>st'. data_get_messages env (h # hs) [] st =
    Some ((get_id h, 1) # map (\<lambda>h. (get_id h, 1)) hs, make_fake_message h # map make_fake_message hs, st')"
proof -
  obtain st0 where st0: "st_open (no_mode\<lparr>mode_read := True, mode_append := True\<rparr>) st = (True, st0)" "readable st0 c"
    using st_open_read_append [OF assms(1,2)] by blast
  obtain st1 where st1: "read_data_block (data_offset h) (bs_reset bs_new) st0 = Some (False, bs_reset bs_new, st1)" "stuck st1"
    using read_behind_end [OF st0(2) assms(3)] by blast
  then show ?thesis
    using read_messages_stuck [OF st1(2), of env hs "bs_reset bs_new"] st0(1)
    by (auto simp: data_get_messages_def read_message_def)
qed

definition plain_message :: "int \<Rightarrow> cstring \<Rightarrow> history_message" where
  "plain_message i t = message_new\<lparr>m_msgid := i, m_text := t, m_time := 1600000000\<rparr>"

definition fresh_disk :: "byte list \<Rightarrow> storage" where
  "fresh_disk c = \<lparr>disk_file = Some c, active_file_stream = None, last_error = error_ok, folder_ok = True,
     open_ok = True, room = 10000, os_errno = 28\<rparr>"

lemma fresh_disk_ready: "disk_ready (fresh_disk c)" "disk_file (fresh_disk c) = Some c" "room (fresh_disk c) = 10000"
  "contents (fresh_disk c) = c"
  by (simp_all add: fresh_disk_def disk_ready_def contents_def)

lemma plain_messages_archivable:
  "list_all (archivable echo_env) [plain_message 7 ''hello'', plain_message 9 ''world'']"
  "length (log_of echo_env [plain_message 7 ''hello'', plain_message 9 ''world'']) \<le> 10000"
  by (simp_all add: archivable_def plain_message_def message_bytes_def max_data_block_size_def storable_eval part_def)

theorem messages_read_back_witness:
  "\<exists>ms' st1 st3.
    data_update echo_env [plain_message 7 ''hello'', plain_message 9 ''world''] (fresh_disk ''old'') = ((True, 0), ms', st1) \<and>
    data_get_messages echo_env (map header_of_message ms') [] (fresh_disk (contents st1 @ ''new'')) =
      Some ([], map (message_stored False echo_env) [plain_message 7 ''hello'', plain_message 9 ''world''], st3)"
proof -
  let ?ms = "[plain_message 7 ''hello'', plain_message 9 ''world'']"
  obtain res ms' st1 where u: "data_update echo_env ?ms (fresh_disk ''old'') = (res, ms', st1)"
    by (metis prod.collapse)
  from messages_read_back [OF fresh_disk_ready(1) plain_messages_archivable(1) _ u fresh_disk_ready(1,2)]
  show ?thesis using plain_messages_archivable(2) u by (simp add: fresh_disk_ready echo_env_def)
qed

theorem invalid_header_hides_rest_witness:
  "\<exists>st'. data_get_messages echo_env [invalidate_data_offset header_new, header_of_message (placed echo_env 0 (plain_message 7 ''x''))]
     [] (fresh_disk (frame (message_bytes echo_env (plain_message 7 ''x'')))) =
   Some ([(-1, 1), (7, 1)], [make_fake_message (invalidate_data_offset header_new),
     make_fake_message (header_of_message (placed echo_env 0 (plain_message 7 ''x'')))], st')"
proof -
  let ?c = "frame (message_bytes echo_env (plain_message 7 ''x''))"
  have "length (message_bytes echo_env (plain_message 7 ''x'')) \<le> 1000"
    by (simp add: plain_message_def message_bytes_def storable_eval part_def)
  then have "int (length ?c) \<le> data_offset (invalidate_data_offset header_new)"
    by (simp add: data_offset_def invalidate_data_offset_def set_data_offset_def)
  from invalid_header_hides_rest [OF fresh_disk_ready(1,2) this, of echo_env "[header_of_message (placed echo_env 0 (plain_message 7 ''x''))]"]
  show ?thesis
    by (simp add: get_id_def invalidate_data_offset_def set_data_offset_def header_new_def default_fields_def
        header_of_message_def make_header_def placed_def plain_message_def)
qed

end
