(* ===== verification/Url_Types.thy ===== *)
theory Url_Types
  imports Prelude
begin

text \<open>
  The data of the link recogniser (\<open>common.shared/url_parser/url_parser.h\<close> and the first part of
  \<open>url_parser.cpp\<close>): recognised links, the states of the automaton, and the parser object as a
  record.

  What the repository generates or configures is a parameter, collected in \<open>url_env\<close>: the decision
  tree of top level domains (\<open>domain_parser.in\<close>, printed by a script), the URL schemes of the
  configuration and the feature switch for FTP links.
\<close>

datatype url_type =
  Type_undefined | Type_image | Type_video | Type_filesharing | Type_site | Type_email | Type_ftp
  | Type_icqprotocol | Type_profile

datatype protocol =
  Proto_undefined | Proto_http | Proto_ftp | Proto_https | Proto_ftps | Proto_sftp | Proto_ssh
  | Proto_vnc | Proto_rdp | Proto_icq | Proto_agent | Proto_biz | Proto_dit

datatype extension =
  Ext_undefined | Ext_3gp | Ext_avi | Ext_bmp | Ext_flv | Ext_gif | Ext_jpeg | Ext_jpg | Ext_mkv
  | Ext_mov | Ext_mpeg4 | Ext_svg | Ext_png | Ext_tiff | Ext_webm | Ext_wmv

record url =
  url_type :: url_type
  url_protocol :: protocol
  url_extension :: extension
  url_url :: cstring
  url_original :: cstring

record url_env =
  is_valid_domain :: "cstring \<Rightarrow> bool"
  supported_schemes :: "cstring list"
  url_ftp_protocols_allowed :: bool

definition type_to_string :: "url_type \<Rightarrow> cstring" where
  "type_to_string v = (case v of
     Type_undefined \<Rightarrow> ''undefined'' | Type_image \<Rightarrow> ''image'' | Type_video \<Rightarrow> ''video''
   | Type_filesharing \<Rightarrow> ''filesharing'' | Type_site \<Rightarrow> ''site'' | Type_email \<Rightarrow> ''email''
   | Type_ftp \<Rightarrow> ''ftp'' | _ \<Rightarrow> ''#unknown'')"

definition protocol_to_string :: "protocol \<Rightarrow> cstring" where
  "protocol_to_string v = (case v of
     Proto_undefined \<Rightarrow> ''undefined'' | Proto_http \<Rightarrow> ''http'' | Proto_ftp \<Rightarrow> ''ftp''
   | Proto_https \<Rightarrow> ''https'' | Proto_ftps \<Rightarrow> ''ftps'' | Proto_sftp \<Rightarrow> ''sftp''
   | Proto_rdp \<Rightarrow> ''rdp'' | Proto_vnc \<Rightarrow> ''vnc'' | Proto_ssh \<Rightarrow> ''ssh'' | Proto_icq \<Rightarrow> ''icq''
   | Proto_agent \<Rightarrow> ''magent'' | Proto_biz \<Rightarrow> ''myteam-messenger''
   | Proto_dit \<Rightarrow> ''itd-messenger'')"

definition extension_to_string :: "extension \<Rightarrow> cstring" where
  "extension_to_string v = (case v of
     Ext_undefined \<Rightarrow> ''undefined'' | Ext_avi \<Rightarrow> ''avi'' | Ext_bmp \<Rightarrow> ''bmp'' | Ext_flv \<Rightarrow> ''flv''
   | Ext_gif \<Rightarrow> ''gif'' | Ext_jpeg \<Rightarrow> ''jpeg'' | Ext_jpg \<Rightarrow> ''jpg'' | Ext_mkv \<Rightarrow> ''mkv''
   | Ext_mov \<Rightarrow> ''mov'' | Ext_mpeg4 \<Rightarrow> ''mpeg4'' | Ext_png \<Rightarrow> ''png'' | Ext_tiff \<Rightarrow> ''tiff''
   | Ext_webm \<Rightarrow> ''webm'' | Ext_wmv \<Rightarrow> ''wmv'' | Ext_3gp \<Rightarrow> ''3gp'' | Ext_svg \<Rightarrow> ''svg'')"

definition make_url_same :: "cstring \<Rightarrow> url_type \<Rightarrow> protocol \<Rightarrow> extension \<Rightarrow> url" where
  "make_url_same u ty pr ex = \<lparr>url_type = ty, url_protocol = pr, url_extension = ex,
     url_url = u, url_original = u\<rparr>"

definition make_url_original :: "cstring \<Rightarrow> cstring \<Rightarrow> url_type \<Rightarrow> protocol \<Rightarrow> extension \<Rightarrow> url" where
  "make_url_original orig u ty pr ex = \<lparr>url_type = ty, url_protocol = pr, url_extension = ex,
     url_url = u, url_original = orig\<rparr>"

definition ascii_upper :: "byte \<Rightarrow> bool" where
  "ascii_upper c = (65 \<le> (of_char c :: nat) \<and> (of_char c :: nat) \<le> 90)"

definition ascii_lower :: "byte \<Rightarrow> bool" where
  "ascii_lower c = (97 \<le> (of_char c :: nat) \<and> (of_char c :: nat) \<le> 122)"

definition ascii_digit :: "byte \<Rightarrow> bool" where
  "ascii_digit c = (48 \<le> (of_char c :: nat) \<and> (of_char c :: nat) \<le> 57)"

definition ctolower :: "byte \<Rightarrow> byte" where
  "ctolower c = (if ascii_upper c then char_of ((of_char c :: nat) + 32) else c)"

definition has_prtocol :: "url \<Rightarrow> bool" where
  "has_prtocol u = (map ctolower (take 4 (url_original u)) = ''http'')"

definition has_prohibited_protocols :: "url_env \<Rightarrow> url \<Rightarrow> bool" where
  "has_prohibited_protocols env u =
    (if \<not> url_ftp_protocols_allowed env
     then url_protocol u = Proto_ftp \<or> url_protocol u = Proto_ftps \<or> url_protocol u = Proto_sftp
     else False)"

definition url_eq :: "url \<Rightarrow> url \<Rightarrow> bool" where
  "url_eq a b = (url_type a = url_type b \<and> url_protocol a = url_protocol b \<and>
     url_extension a = url_extension b \<and> url_url a = url_url b)"

datatype (plugins only: code) states =
  S_lookup | S_lookup_without_fixed_urls | S_protocol_t1 | S_protocol_t2 | S_protocol_p
  | S_protocol_s | S_protocol_f | S_protocol_c | S_protocol_q | S_protocol_a | S_protocol_g
  | S_protocol_e | S_protocol_h | S_protocol_n | S_protocol_t | S_protocol_v | S_protocol_y
  | S_protocol_r | S_protocol_s1 | S_protocol_m | S_protocol_m1 | S_protocol_d | S_check_www
  | S_www_2 | S_www_3 | S_www_4 | S_compare | S_compare_safe | S_delimeter_colon
  | S_delimeter_slash1 | S_delimeter_slash2 | S_delimeter_dash | S_filesharing_id | S_profile_id
  | S_check_filesharing | S_password | S_host | S_host_n | S_host_at | S_host_dot | S_host_colon
  | S_host_slash | S_port | S_port_dot | S_port_slash | S_path | S_path_dot | S_path_slash
  | S_jpg_p | S_jpg_g | S_jpg_e | S_png_n | S_png_g | S_gif_i | S_gif_f | S_bmp_m | S_bmp_p
  | S_tiff_i | S_tiff_f1 | S_tiff_f2 | S_avi_v | S_avi_i | S_mkv_k | S_mkv_v | S_mov_v
  | S_mpeg4_e | S_mpeg4_g | S_mpeg4_4 | S_flv_l | S_flv_v | S_3gp_g | S_3gp_p | S_svg_s
  | S_svg_v | S_svg_g | S_webm_e | S_webm_b | S_webm_m | S_wmv_v | S_query_or_end | S_query

record compare_item =
  ci_str :: cstring
  ci_ok_state :: states
  ci_match :: bool
  ci_safe_pos :: int

text \<open>
  The parser object. \<open>compare_starts\<close> is not a member of the class: it counts the calls of
  \<open>start_fixed_urls_compare\<close>, which clears the buffer that \<open>fallback\<close> may be iterating over.
\<close>

record url_parser =
  up_state :: states
  up_protocol :: protocol
  buf :: cstring
  domain :: cstring
  compare_buf :: cstring
  compare_pos :: nat
  num_processed :: int
  fixed_urls :: "compare_item list"
  compare_set :: "byte list"
  ok_state :: states
  fallback_state :: states
  safe_position :: int
  up_extension :: extension
  is_not_email :: bool
  up_is_email :: bool
  has_protocol_prefix :: bool
  domain_segments :: int
  ipv4_segments :: int
  id_length :: int
  char_buf :: "byte list"
  char_pos :: nat
  char_size :: nat
  is_utf8 :: bool
  found_url :: url
  need_to_check_domain :: bool
  tail_size :: int
  files_urls :: "cstring list"
  compare_starts :: nat

definition min_filesharing_id_length :: int where "min_filesharing_id_length = 33"
definition min_profile_id_length :: int where "min_profile_id_length = 1"

definition utf8_char_size :: "byte \<Rightarrow> nat" where
  "utf8_char_size c =
    (let b = (of_char c :: nat)
     in if 192 \<le> b \<and> b < 224 then 2
        else if 224 \<le> b \<and> b < 240 then 3
        else if 240 \<le> b \<and> b < 248 then 4
        else if 248 \<le> b \<and> b < 252 then 5
        else if 252 \<le> b \<and> b < 254 then 6
        else 1)"

subsection \<open>Character classes\<close>

definition cur_char :: "url_parser \<Rightarrow> byte" where
  "cur_char p = char_buf p ! 0"

definition is_nbsp :: "url_parser \<Rightarrow> bool" where
  "is_nbsp p = (char_size p = 2 \<and> char_buf p ! 0 = CHR 0xC2 \<and> char_buf p ! 1 = CHR 0xA0)"

definition is_space :: "url_parser \<Rightarrow> bool" where
  "is_space p = (is_nbsp p \<or> (\<not> is_utf8 p \<and> cur_char p \<in> {CHR 0x09, CHR 0x0A, CHR 0x0B, CHR 0x0C, CHR 0x0D, CHR '' ''}))"

definition is_digit :: "url_parser \<Rightarrow> bool" where
  "is_digit p = (\<not> is_utf8 p \<and> ascii_digit (cur_char p))"

definition is_letter :: "url_parser \<Rightarrow> bool" where
  "is_letter p = (is_utf8 p \<or> ascii_upper (cur_char p) \<or> ascii_lower (cur_char p))"

definition is_letter_or_digit :: "url_parser \<Rightarrow> bool" where
  "is_letter_or_digit p = (is_letter p \<or> ascii_digit (cur_char p))"

definition is_allowable_char :: "url_parser \<Rightarrow> bool" where
  "is_allowable_char p = (is_letter_or_digit p \<or>
     List.member ([CHR ''-'', CHR ''.'', CHR ''_'', CHR ''~'', CHR ''!'', CHR ''$'', CHR ''&'', CHR 0x27,
      CHR ''('', CHR '')'', CHR ''*'', CHR ''+'', CHR '','', CHR '';'', CHR ''='', CHR '':'',
      CHR ''%'', CHR ''?'', CHR ''#'', CHR ''@'', CHR ''{'', CHR ''}'', CHR ''/'', CHR ''['',
      CHR '']'', CHR 0x22]) (cur_char p))"

definition is_allowable_query_char :: "url_parser \<Rightarrow> bool" where
  "is_allowable_query_char p = (is_allowable_char p \<or> cur_char p = CHR ''/'' \<or> cur_char p = CHR ''?'')"

definition is_ending_char :: "byte \<Rightarrow> bool" where
  "is_ending_char c = List.member [CHR ''.'', CHR '','', CHR ''!'', CHR ''?'', CHR 0x22, CHR 0x27, CHR 0x60,
     CHR ''>'', CHR '']'', CHR '')'', CHR ''}'', CHR '';''] c"

definition is_allowed_profile_id_char :: "url_parser \<Rightarrow> bool" where
  "is_allowed_profile_id_char p = (is_letter_or_digit p \<or> cur_char p = CHR ''.'' \<or>
     cur_char p = CHR ''_'' \<or> cur_char p = CHR ''@'' \<or> cur_char p = CHR ''-'')"

definition is_valid_top_level_domain :: "url_env \<Rightarrow> url_parser \<Rightarrow> cstring \<Rightarrow> bool" where
  "is_valid_top_level_domain env p name =
    (if name = [] then False
     else if up_protocol p \<noteq> Proto_undefined then True
     else if domain_segments p = 4 \<and> ipv4_segments p = 4 then True
     else is_valid_domain env name)"

definition is_ipv4_segment :: "cstring \<Rightarrow> bool" where
  "is_ipv4_segment name = (length name \<in> {1, 2, 3} \<and> list_all ascii_digit name)"

definition is_black_list_email_host :: "cstring \<Rightarrow> bool" where
  "is_black_list_email_host s =
     list_ex (\<lambda>c. c = CHR '']'' \<or> c = CHR ''['' \<or> c = CHR ''}'' \<or> c = CHR ''{'') s"

definition is_supported_scheme :: "url_env \<Rightarrow> cstring \<Rightarrow> bool" where
  "is_supported_scheme env scheme = List.member (supported_schemes env) scheme"

definition is_bytes :: "cstring \<Rightarrow> url_parser \<Rightarrow> bool" where
  "is_bytes s p = (char_size p = length s \<and> take (length s) (char_buf p) = s)"

definition left_double_quote :: cstring where "left_double_quote = [CHR 0xC2, CHR 0xAB]"
definition right_double_quote :: cstring where "right_double_quote = [CHR 0xC2, CHR 0xBB]"
definition left_quote :: cstring where "left_quote = [CHR 0xE2, CHR 0x80, CHR 0x98]"
definition right_quote :: cstring where "right_quote = [CHR 0xE2, CHR 0x80, CHR 0x99]"

text \<open>\<open>letter l p\<close>: the character is the lower case letter \<open>l\<close> or its upper case.\<close>

definition letter :: "byte \<Rightarrow> url_parser \<Rightarrow> bool" where
  "letter l p = (ctolower (cur_char p) = l)"

definition char_is :: "byte \<Rightarrow> url_parser \<Rightarrow> bool" where
  "char_is c p = (cur_char p = c)"

end
