(* ===== verification/Text_Search.thy ===== *)
theory Text_Search
  imports Url_Types "HOL-Library.Sublist"
begin

text \<open>
  The search of a term in the text of the stored messages: the preparation of the term
  (\<open>core/tools/strings.cpp\<close>, \<open>get_char_index\<close>, \<open>convert_string_to_vector\<close>; \<open>strings.h\<close>, \<open>build_prefix\<close>)
  and the search itself (\<open>core/archive/messages_data.cpp\<close>, \<open>is_equal\<close>, \<open>kmp_strstr\<close>), which is the
  algorithm of Knuth, Morris and Pratt over UTF-8 characters that match in either case.

  The conversion of the case of a character is a service of the system, so \<open>to_lower\<close> and \<open>to_upper\<close> are
  parameters. A loop that can only be seen to end from the contents of a table is a partial function;
  \<open>None\<close> is a loop that does not end, an index outside a vector or a read outside a string.
\<close>

subsection \<open>The table of the borders\<close>

partial_function (option) fall :: "(nat \<Rightarrow> bool) \<Rightarrow> nat list \<Rightarrow> nat \<Rightarrow> nat option" where
  "fall matches tab j =
    (if 0 < j \<and> \<not> matches j then fall matches tab (tab ! (j - 1)) else Some j)"

declare fall.simps [code]

function build_loop :: "int list \<Rightarrow> nat \<Rightarrow> nat list \<Rightarrow> nat list option" where
  "build_loop pat i tab =
    (if i < length pat
     then Option.bind (fall (\<lambda>j. pat ! j = pat ! i) tab (tab ! (i - 1))) (\<lambda>j.
            let j = (if pat ! j = pat ! i then j + 1 else j)
            in build_loop pat (i + 1) (tab[i := j]))
     else Some tab)"
  by pat_completeness auto
termination by (relation "measure (\<lambda>(pat, i, _). length pat - i)") auto

declare build_loop.simps [simp del]

definition build_prefix :: "int list \<Rightarrow> nat list option" where
  "build_prefix pat = build_loop pat 1 (replicate (length pat) 0)"

subsection \<open>The coded term\<close>

record case_env =
  to_lower :: "cstring \<Rightarrow> cstring"
  to_upper :: "cstring \<Rightarrow> cstring"

record coding =
  symb_table :: "(cstring \<times> int) list"
  symbs :: cstring
  symb_indexes :: "nat list"
  last_symb_id :: int

definition coding_new :: coding where
  "coding_new = \<lparr>symb_table = [], symbs = [], symb_indexes = [], last_symb_id = 0\<rparr>"

definition get_char_index :: "case_env \<Rightarrow> cstring \<Rightarrow> coding \<Rightarrow> int \<times> coding" where
  "get_char_index env str cd =
    (let lower = to_lower env str; upper = to_upper env str;
         lower = (if lower = [] \<or> lower = [NUL] then str else lower);
         indexes = symb_indexes cd @ [length (symbs cd)];
         symbols = symbs cd @ lower;
         indexes = indexes @ [length symbols];
         symbols = symbols @ upper;
         cd' = cd\<lparr>symbs := symbols, symb_indexes := indexes\<rparr>
     in case map_of (symb_table cd) lower of
          Some i \<Rightarrow> (i, cd')
        | None \<Rightarrow> (last_symb_id cd + 1,
                   cd'\<lparr>last_symb_id := last_symb_id cd + 1,
                       symb_table := symb_table cd @ [(lower, last_symb_id cd + 1)]\<rparr>))"

text \<open>The character at \<open>i\<close>; the string ends with a zero byte, which can be read but nothing behind it.\<close>

definition char_at :: "cstring \<Rightarrow> nat \<Rightarrow> cstring option" where
  "char_at str i =
    (let len = utf8_char_size (str ! i)
     in if i + len \<le> length str + 1 then Some (take len (drop i (str @ [NUL]))) else None)"

lemma utf8_char_size_pos [simp]: "0 < utf8_char_size c"
  by (simp add: utf8_char_size_def Let_def)

function convert_loop :: "case_env \<Rightarrow> cstring \<Rightarrow> nat \<Rightarrow> coding \<Rightarrow> int list \<Rightarrow> (int list \<times> coding) option" where
  "convert_loop env str i cd result =
    (if i < length str
     then Option.bind (char_at str i) (\<lambda>c.
            case get_char_index env c cd of
              (k, cd) \<Rightarrow> convert_loop env str (i + utf8_char_size (str ! i)) cd (result @ [k]))
     else Some (result, cd))"
  by pat_completeness auto
termination by (relation "measure (\<lambda>(_, str, i, _, _). length str - i)") (auto simp: diff_less_mono2)

declare convert_loop.simps [simp del]

definition convert_string_to_vector :: "case_env \<Rightarrow> cstring \<Rightarrow> (int list \<times> coding) option" where
  "convert_string_to_vector env str = convert_loop env str 0 coding_new []"

subsection \<open>The search\<close>

text \<open>
  \<open>memcmp\<close>, as far as its result is determined: the bytes are compared one after the other up to the first
  difference, and reading behind the end of a string before that is undefined.
\<close>

fun same_bytes :: "nat \<Rightarrow> cstring \<Rightarrow> cstring \<Rightarrow> bool option" where
  "same_bytes n (x # xs) (y # ys) =
    (if n = 0 then Some True else if x = y then same_bytes (n - 1) xs ys else Some False)"
| "same_bytes n [] ys = (if n = 0 then Some True else None)"
| "same_bytes n (x # xs) [] = (if n = 0 then Some True else None)"

definition is_equal :: "cstring \<Rightarrow> cstring \<Rightarrow> nat \<Rightarrow> nat \<Rightarrow> bool option" where
  "is_equal str1 str2 b l = same_bytes l (str1 @ [NUL]) (drop b str2)"

definition symbol_at :: "coding \<Rightarrow> nat \<Rightarrow> cstring option" where
  "symbol_at cd k = (if k < length (symb_indexes cd) then Some (drop (symb_indexes cd ! k) (symbs cd)) else None)"

text \<open>The condition on a symbol of the term and the character of the text at \<open>i\<close>: either case is equal.\<close>

definition symbol_matches :: "coding \<Rightarrow> cstring \<Rightarrow> nat \<Rightarrow> nat \<Rightarrow> nat \<Rightarrow> bool option" where
  "symbol_matches cd str i len j =
    Option.bind (symbol_at cd (2 * j)) (\<lambda>s.
    Option.bind (is_equal s str i len) (\<lambda>eq.
      if eq then Some True
      else Option.bind (symbol_at cd (2 * j + 1)) (\<lambda>s. is_equal s str i len)))"

partial_function (option) fall_back :: "(nat \<Rightarrow> bool option) \<Rightarrow> nat list \<Rightarrow> nat \<Rightarrow> nat option" where
  "fall_back matches tab j =
    (if 0 < j
     then Option.bind (matches j) (\<lambda>m.
            if m then Some j
            else if j - 1 < length tab then fall_back matches tab (tab ! (j - 1)) else None)
     else Some j)"

declare fall_back.simps [code]

function kmp_loop :: "cstring \<Rightarrow> nat \<Rightarrow> int list \<Rightarrow> nat list \<Rightarrow> coding \<Rightarrow> nat \<Rightarrow> nat \<Rightarrow> int option" where
  "kmp_loop str str_sz pat tab cd i j =
    (if i < str_sz
     then (if length str \<le> i then None
           else let len = utf8_char_size (str ! i); matches = symbol_matches cd str i len
                in Option.bind (fall_back matches tab j) (\<lambda>j.
                   Option.bind (matches j) (\<lambda>m.
                     let j = (if m then j + 1 else j)
                     in if j = length pat then Some (int i - int j + 1)
                        else kmp_loop str str_sz pat tab cd (i + len) j)))
     else Some (-1))"
  by pat_completeness auto
termination by (relation "measure (\<lambda>(_, n, _, _, _, i, _). n - i)") (auto simp: diff_less_mono2)

declare kmp_loop.simps [simp del]

text \<open>A null pointer is \<open>None\<close>.\<close>

definition kmp_strstr :: "cstring option \<Rightarrow> nat \<Rightarrow> int list \<Rightarrow> nat list \<Rightarrow> coding \<Rightarrow> int option" where
  "kmp_strstr str str_sz pat tab cd =
    (case str of None \<Rightarrow> Some (-1) | Some s \<Rightarrow> kmp_loop s str_sz pat tab cd 0 0)"

text \<open>The search as \<open>wim_im.cpp\<close> starts it: the term is coded once and searched in a text.\<close>

definition find_term :: "case_env \<Rightarrow> cstring \<Rightarrow> cstring \<Rightarrow> int option" where
  "find_term env pat text =
    Option.bind (convert_string_to_vector env pat) (\<lambda>(codes, cd).
    Option.bind (build_prefix codes) (\<lambda>tab.
      kmp_strstr (Some text) (length text) codes tab cd))"

subsection \<open>The algorithm on lists\<close>

text \<open>\<open>ends k Y\<close>: the first \<open>k\<close> symbols of the term are the last ones of \<open>Y\<close>.\<close>

definition ends :: "'a list \<Rightarrow> nat \<Rightarrow> 'a list \<Rightarrow> bool" where
  "ends pat k Y = (k \<le> length pat \<and> suffix (take k pat) Y)"

definition longest :: "'a list \<Rightarrow> nat \<Rightarrow> 'a list \<Rightarrow> bool" where
  "longest pat j Y = (ends pat j Y \<and> (\<forall>k. ends pat k Y \<longrightarrow> k \<le> j))"

text \<open>The first \<open>n\<close> entries of the table are right.\<close>

definition borders :: "'a list \<Rightarrow> nat list \<Rightarrow> nat \<Rightarrow> bool" where
  "borders pat ps n = (n \<le> length ps \<and> (\<forall>i < n. longest pat (ps ! i) (tl (take (Suc i) pat))))"

lemma ends_0 [simp]: "ends pat 0 Y"
  by (simp add: ends_def)

lemma ends_length: "ends pat k Y \<Longrightarrow> k \<le> length Y"
  by (auto simp: ends_def dest!: suffix_length_le)

lemma ends_snoc: "ends pat (Suc k) (Y @ [c]) \<longleftrightarrow> k < length pat \<and> pat ! k = c \<and> ends pat k Y"
  by (auto simp: ends_def take_Suc_conv_app_nth)

lemma ends_trans: "ends pat j Y \<Longrightarrow> ends pat k (take j pat) \<Longrightarrow> ends pat k Y"
  unfolding ends_def by (meson suffix_order.trans)

lemma ends_shorter:
  assumes "ends pat j Y" and "ends pat k Y" and "k \<le> j"
  shows "ends pat k (take j pat)"
proof -
  have "length (take k pat) \<le> length (take j pat)" using assms(3) by simp
  then have "suffix (take k pat) (take j pat)"
    using assms(1,2) unfolding ends_def by (meson suffix_length_suffix)
  then show ?thesis using assms(2) by (simp add: ends_def)
qed

lemma ends_tl:
  assumes "ends pat k (take j pat)" and "k < j" and "j \<le> length pat"
  shows "ends pat k (tl (take j pat))"
proof -
  obtain x xs where t: "take j pat = x # xs" using assms(2,3) by (cases "take j pat") auto
  then have "length (x # xs) = j" using assms(3) by (metis length_take min.absorb2)
  then have "take k pat \<noteq> x # xs" using assms(2) by (metis length_take less_irrefl min_less_iff_conj)
  then show ?thesis using assms(1) unfolding t ends_def by (auto simp: suffix_Cons)
qed

lemma ends_of_tl: "ends pat k (tl Y) \<Longrightarrow> ends pat k Y"
  unfolding ends_def by (metis suffix_order.trans suffix_tl)

lemma longest_less: "longest pat j (tl (take (Suc i) pat)) \<Longrightarrow> j \<le> i"
  using ends_length [of pat j "tl (take (Suc i) pat)"] by (auto simp: longest_def)

lemma longest_less_length: "longest pat j (tl (take i pat)) \<Longrightarrow> 0 < i \<Longrightarrow> j < i"
  using longest_less [of pat j "i - 1"] by (cases i) auto

text \<open>One symbol: the walk down the borders, then the step.\<close>

definition candidate :: "'a list \<Rightarrow> 'a \<Rightarrow> nat \<Rightarrow> 'a list \<Rightarrow> bool" where
  "candidate pat c k Y = (ends pat k Y \<and> k < length pat \<and> pat ! k = c)"

lemma fall_spec:
  assumes "borders pat tab n" and "j \<le> n" and "j < length pat" and "ends pat j Y"
    and "\<And>k. candidate pat c k Y \<Longrightarrow> k \<le> j"
  shows "\<exists>r. fall (\<lambda>j. pat ! j = c) tab j = Some r \<and> r \<le> j \<and> ends pat r Y \<and> (r = 0 \<or> pat ! r = c) \<and>
    (\<forall>k. candidate pat c k Y \<longrightarrow> k \<le> r)"
  using assms(2-5)
proof (induction j rule: less_induct)
  case (less j)
  show ?case
  proof (cases "0 < j \<and> pat ! j \<noteq> c")
    case False
    then show ?thesis using less.prems by (subst fall.simps) auto
  next
    case True
    let ?b = "tab ! (j - 1)"
    have "longest pat ?b (tl (take (Suc (j - 1)) pat))"
      using assms(1) less.prems(1) True unfolding borders_def by (metis One_nat_def Suc_le_lessD Suc_pred)
    then have b: "longest pat ?b (tl (take j pat))" using True by simp
    then have small: "?b < j" using longest_less_length True by blast
    have "ends pat ?b (take j pat)" using b ends_of_tl by (auto simp: longest_def)
    then have "ends pat ?b Y" using ends_trans [OF less.prems(3)] by simp
    moreover have "k \<le> ?b" if k: "candidate pat c k Y" for k
    proof -
      have "k \<le> j" "k \<noteq> j" using less.prems(4) [OF k] k True by (auto simp: candidate_def)
      then have "ends pat k (tl (take j pat))"
        using ends_tl [of pat k j] ends_shorter [OF less.prems(3), of k] k less.prems(2) by (auto simp: candidate_def)
      then show ?thesis using b by (simp add: longest_def)
    qed
    ultimately obtain r where "fall (\<lambda>j. pat ! j = c) tab ?b = Some r" "r \<le> ?b" "ends pat r Y" "r = 0 \<or> pat ! r = c"
        "\<forall>k. candidate pat c k Y \<longrightarrow> k \<le> r"
      using less.IH [of ?b] small less.prems(1,2) by auto
    then show ?thesis using True small by (subst fall.simps) auto
  qed
qed

lemma longest_step:
  assumes "ends pat r Y" and "r < length pat" and "r = 0 \<or> pat ! r = c"
    and "\<And>k. candidate pat c k Y \<Longrightarrow> k \<le> r"
  shows "longest pat (if pat ! r = c then r + 1 else r) (Y @ [c])"
proof -
  have "k \<le> (if pat ! r = c then r + 1 else r)" if k: "ends pat k (Y @ [c])" for k
  proof (cases k)
    case (Suc i)
    then have "candidate pat c i Y" using k by (simp add: ends_snoc candidate_def)
    then have "i \<le> r" "r = 0 \<longrightarrow> pat ! r = c" using assms(4) by (auto simp: candidate_def)
    then show ?thesis using Suc assms(3) by auto
  qed simp
  moreover have "ends pat (if pat ! r = c then r + 1 else r) (Y @ [c])"
    using assms(1-3) by (auto simp: ends_snoc)
  ultimately show ?thesis by (auto simp: longest_def)
qed

lemma longest_candidate: "longest pat j Y \<Longrightarrow> candidate pat c k Y \<Longrightarrow> k \<le> j"
  by (auto simp: longest_def candidate_def)

lemma build_loop_borders:
  assumes "borders pat tab i" and "0 < i" and "i \<le> length pat" and "length tab = length pat"
  shows "\<exists>tab'. build_loop pat i tab = Some tab' \<and> borders pat tab' (length pat) \<and> length tab' = length pat"
  using assms
proof (induction "length pat - i" arbitrary: i tab)
  case 0
  then show ?case by (subst build_loop.simps) auto
next
  case (Suc m)
  let ?Y = "tl (take i pat)" and ?c = "pat ! i" and ?j = "tab ! (i - 1)"
  have i: "i < length pat" using Suc.hyps(2) by simp
  have j: "longest pat ?j ?Y" using Suc.prems(1,2) unfolding borders_def by (metis One_nat_def Suc_pred diff_less zero_less_one)
  then have small: "?j < i" using longest_less_length Suc.prems(2) by blast
  obtain r where r: "fall (\<lambda>j. pat ! j = ?c) tab ?j = Some r" "r \<le> ?j" "ends pat r ?Y" "r = 0 \<or> pat ! r = ?c"
      "\<forall>k. candidate pat ?c k ?Y \<longrightarrow> k \<le> r"
    using fall_spec [OF Suc.prems(1), of ?j ?Y ?c] small i j longest_candidate [OF j] by (auto simp: longest_def)
  let ?new = "if pat ! r = ?c then r + 1 else r"
  have "tl (take (Suc i) pat) = ?Y @ [?c]"
    using i Suc.prems(2) by (cases "take i pat") (auto simp: take_Suc_conv_app_nth tl_append split: list.splits)
  then have "longest pat ?new (tl (take (Suc i) pat))"
    using longest_step [of pat r ?Y ?c] r small i by simp
  then have "borders pat (tab[i := ?new]) (Suc i)"
    using Suc.prems(1,4) i unfolding borders_def by (auto simp: nth_list_update less_Suc_eq)
  then show ?case
    using Suc.hyps(1) [of "Suc i" "tab[i := ?new]"] Suc.hyps(2) Suc.prems i r(1)
    by (subst build_loop.simps) (auto simp: Let_def)
qed

lemma build_prefix_borders:
  "\<exists>tab. build_prefix pat = Some tab \<and> borders pat tab (length pat) \<and> length tab = length pat"
proof (cases pat)
  case Nil
  then show ?thesis by (simp add: build_prefix_def build_loop.simps borders_def)
next
  case (Cons p ps)
  then have "borders pat (replicate (length pat) 0) 1"
    by (auto simp: borders_def longest_def dest: ends_length)
  then show ?thesis using build_loop_borders [of pat "replicate (length pat) 0" 1] Cons by (simp add: build_prefix_def)
qed

end
