(* ===== verification/Search_Facts.thy ===== *)
theory Search_Facts
  imports Text_Search
begin

text \<open>
  The search of a term finds it exactly where it is: the coded term is what the algorithm on lists needs,
  when the case mapping is regular on the characters of the term; and what happens when it is not.
\<close>

subsection \<open>Characters\<close>

definition utf8_char :: "cstring \<Rightarrow> bool" where
  "utf8_char c = (c \<noteq> [] \<and> length c = utf8_char_size (hd c))"

definition lower_of :: "case_env \<Rightarrow> cstring \<Rightarrow> cstring" where
  "lower_of env c = (if to_lower env c = [] \<or> to_lower env c = [NUL] then c else to_lower env c)"

definition either_case :: "case_env \<Rightarrow> cstring \<Rightarrow> cstring \<Rightarrow> bool" where
  "either_case env c x = (x = lower_of env c \<or> x = to_upper env c)"

text \<open>
  On the characters of the term both cases are single characters, two characters have the same lower case
  exactly when they have the same upper case, and the lower case of one is the upper case of another only
  when the two are the same up to case.
\<close>

definition case_regular :: "case_env \<Rightarrow> cstring list \<Rightarrow> bool" where
  "case_regular env cs =
    ((\<forall>c \<in> set cs. utf8_char (lower_of env c) \<and> utf8_char (to_upper env c)) \<and>
     (\<forall>c \<in> set cs. \<forall>d \<in> set cs.
        (lower_of env c = lower_of env d \<longleftrightarrow> to_upper env c = to_upper env d) \<and>
        (lower_of env c = to_upper env d \<longrightarrow> lower_of env c = lower_of env d)))"

lemma same_bytes_0 [simp]: "same_bytes 0 xs ys = Some True"
  by (cases xs; cases ys) simp_all

lemma same_bytes_same: "length x = length u \<Longrightarrow> same_bytes (length x) (u @ v) (x @ z) = Some (x = u)"
proof (induction x arbitrary: u)
  case (Cons a x)
  then obtain b u' where "u = b # u'" "length x = length u'" by (cases u) auto
  then show ?case using Cons.IH [of u'] by auto
qed simp

lemma same_bytes_char:
  assumes "utf8_char u" and "utf8_char x"
  shows "same_bytes (length x) (u @ v) (x @ z) = Some (x = u)"
proof (cases "hd x = hd u")
  case True
  then show ?thesis using assms by (intro same_bytes_same) (simp add: utf8_char_def)
next
  case False
  obtain a x' b u' where "x = a # x'" "u = b # u'" using assms by (cases x; cases u) (auto simp: utf8_char_def)
  with False show ?thesis by simp
qed

lemma char_at_concat:
  assumes "utf8_char x"
  shows "char_at (concat pre @ x @ rest) (length (concat pre)) = Some x"
    and "utf8_char_size ((concat pre @ x @ rest) ! length (concat pre)) = length x"
proof -
  obtain a y where "x = a # y" using assms by (cases x) (auto simp: utf8_char_def)
  then show "utf8_char_size ((concat pre @ x @ rest) ! length (concat pre)) = length x"
    using assms by (simp add: utf8_char_def nth_append)
  then show "char_at (concat pre @ x @ rest) (length (concat pre)) = Some x"
    by (simp add: char_at_def)
qed

subsection \<open>The coded term\<close>

definition symbols_of :: "case_env \<Rightarrow> cstring list \<Rightarrow> cstring list" where
  "symbols_of env cs = concat (map (\<lambda>c. [lower_of env c, to_upper env c]) cs)"

definition offsets :: "cstring list \<Rightarrow> nat list" where
  "offsets ss = map (\<lambda>k. length (concat (take k ss))) [0..<length ss]"

definition coded :: "case_env \<Rightarrow> cstring list \<Rightarrow> coding \<Rightarrow> bool" where
  "coded env cs cd \<longleftrightarrow>
     symbs cd = concat (symbols_of env cs) \<and> symb_indexes cd = offsets (symbols_of env cs) \<and>
     dom (map_of (symb_table cd)) = lower_of env ` set cs \<and>
     distinct (map snd (symb_table cd)) \<and> (\<forall>k \<in> snd ` set (symb_table cd). 0 < k \<and> k \<le> last_symb_id cd) \<and>
     0 \<le> last_symb_id cd"

definition code_of :: "coding \<Rightarrow> cstring \<Rightarrow> int" where
  "code_of cd l = the (map_of (symb_table cd) l)"

lemma offsets_snoc: "offsets (ss @ [s]) = offsets ss @ [length (concat ss)]"
  by (simp add: offsets_def)

lemma symbols_snoc: "symbols_of env (cs @ [c]) = (symbols_of env cs @ [lower_of env c]) @ [to_upper env c]"
  by (simp add: symbols_of_def)

lemma length_symbols [simp]: "length (symbols_of env cs) = 2 * length cs"
  by (induction cs) (simp_all add: symbols_of_def)

lemma symbols_nth:
  "j < length cs \<Longrightarrow> symbols_of env cs ! (2 * j) = lower_of env (cs ! j) \<and> symbols_of env cs ! (2 * j + 1) = to_upper env (cs ! j)"
proof (induction cs arbitrary: j)
  case (Cons c cs)
  then show ?case by (cases j) (auto simp: symbols_of_def)
qed simp

lemma coded_new: "coded env [] coding_new"
  by (simp add: coded_def coding_new_def symbols_of_def offsets_def)

lemma get_char_index_coded:
  assumes "coded env cs cd"
  shows "\<exists>k cd'. get_char_index env c cd = (k, cd') \<and> coded env (cs @ [c]) cd' \<and> k = code_of cd' (lower_of env c) \<and>
    (\<forall>l \<in> lower_of env ` set cs. code_of cd' l = code_of cd l)"
proof -
  let ?l = "lower_of env c"
  let ?cd = "cd\<lparr>symbs := symbs cd @ ?l @ to_upper env c,
      symb_indexes := symb_indexes cd @ [length (symbs cd), length (symbs cd @ ?l)]\<rparr>"
  have run: "get_char_index env c cd =
      (case map_of (symb_table cd) ?l of
         Some i \<Rightarrow> (i, ?cd)
       | None \<Rightarrow> (last_symb_id cd + 1, ?cd\<lparr>last_symb_id := last_symb_id cd + 1,
             symb_table := symb_table cd @ [(?l, last_symb_id cd + 1)]\<rparr>))"
    unfolding get_char_index_def Let_def lower_of_def [symmetric] append_assoc append_Cons append_Nil
    by (rule refl)
  have laid: "symbs ?cd = concat (symbols_of env (cs @ [c]))" "symb_indexes ?cd = offsets (symbols_of env (cs @ [c]))"
    using assms unfolding coded_def symbols_snoc offsets_snoc by simp_all
  show ?thesis
  proof (cases "map_of (symb_table cd) ?l")
    case None
    have fresh: "last_symb_id cd + 1 \<notin> snd ` set (symb_table cd)" using assms by (force simp: coded_def)
    let ?t = "symb_table cd @ [(?l, last_symb_id cd + 1)]"
    let ?cd' = "?cd\<lparr>last_symb_id := last_symb_id cd + 1, symb_table := ?t\<rparr>"
    have d: "dom (map_of (symb_table cd)) = lower_of env ` set cs" using assms by (simp add: coded_def)
    have "dom (map_of ?t) = lower_of env ` set (cs @ [c])" using d by auto
    moreover have "distinct (map snd ?t)" "\<forall>k \<in> snd ` set ?t. 0 < k \<and> k \<le> last_symb_id cd + 1"
      using assms fresh unfolding coded_def by auto
    ultimately have "coded env (cs @ [c]) ?cd'"
      using laid assms unfolding coded_def by simp
    moreover have "code_of ?cd' ?l = last_symb_id cd + 1" using None by (simp add: code_of_def map_add_def)
    moreover have "code_of ?cd' l = code_of cd l" if l: "l \<in> lower_of env ` set cs" for l
    proof -
      obtain y where "map_of (symb_table cd) l = Some y" using l unfolding d [symmetric] by blast
      then show ?thesis by (simp add: code_of_def)
    qed
    moreover have "get_char_index env c cd = (last_symb_id cd + 1, ?cd')" using run None by simp
    ultimately show ?thesis by metis
  next
    case (Some i)
    then have "?l \<in> dom (map_of (symb_table cd))" by auto
    then show ?thesis using assms laid Some
      by (auto simp: run coded_def code_of_def)
  qed
qed

lemma convert_loop_coded:
  assumes "\<forall>c \<in> set rest. utf8_char c" and "coded env seen cd" and "ks = map (\<lambda>c. code_of cd (lower_of env c)) seen"
  shows "\<exists>cd'. convert_loop env (concat (seen @ rest)) (length (concat seen)) cd ks =
      Some (map (\<lambda>c. code_of cd' (lower_of env c)) (seen @ rest), cd') \<and> coded env (seen @ rest) cd'"
  using assms
proof (induction rest arbitrary: seen cd ks)
  case Nil
  then show ?case by (subst convert_loop.simps) simp
next
  case (Cons c rest)
  obtain k cd' where step: "get_char_index env c cd = (k, cd')" "coded env (seen @ [c]) cd'"
      "k = code_of cd' (lower_of env c)" "\<forall>l \<in> lower_of env ` set seen. code_of cd' l = code_of cd l"
    using get_char_index_coded [OF Cons.prems(2), of c] by blast
  have c: "utf8_char c" "c \<noteq> []" using Cons.prems(1) by (auto simp: utf8_char_def)
  have str: "concat (seen @ c # rest) = concat seen @ c @ concat rest" by simp
  have "convert_loop env (concat (seen @ c # rest)) (length (concat seen)) cd ks =
      convert_loop env (concat ((seen @ [c]) @ rest)) (length (concat (seen @ [c]))) cd' (ks @ [k])"
    using char_at_concat [OF c(1), of seen "concat rest"] c(2) step(1)
    by (subst convert_loop.simps) (simp add: str)
  moreover have "ks @ [k] = map (\<lambda>c. code_of cd' (lower_of env c)) (seen @ [c])"
    using Cons.prems(3) step(3,4) by auto
  ultimately show ?case using Cons.IH [OF _ step(2), of "ks @ [k]"] Cons.prems(1) by simp
qed

lemma convert_coded:
  assumes "\<forall>c \<in> set cs. utf8_char c"
  shows "\<exists>cd. convert_string_to_vector env (concat cs) = Some (map (\<lambda>c. code_of cd (lower_of env c)) cs, cd) \<and> coded env cs cd"
  using convert_loop_coded [OF assms coded_new, of "[]"] by (simp add: convert_string_to_vector_def)

subsection \<open>Symbols and characters\<close>

lemma symbol_at_offset:
  assumes "coded env cs cd" and "k < 2 * length cs"
  shows "\<exists>v. symbol_at cd k = Some (symbols_of env cs ! k @ v)"
proof -
  have "concat ss = concat (take k ss) @ ss ! k @ concat (drop (Suc k) ss)" if "k < length ss" for ss :: "cstring list"
    using that by (metis concat.simps(2) concat_append id_take_nth_drop)
  from this [of "symbols_of env cs"] show ?thesis
    using assms by (auto simp: symbol_at_def coded_def offsets_def)
qed

lemma symbol_matches_char:
  assumes "coded env cs cd" and "case_regular env cs" and "j < length cs" and "utf8_char x"
  shows "symbol_matches cd (concat pre @ x @ rest) (length (concat pre)) (length x) j = Some (either_case env (cs ! j) x)"
proof -
  obtain v v' where v: "symbol_at cd (2 * j) = Some (lower_of env (cs ! j) @ v)"
      "symbol_at cd (2 * j + 1) = Some (to_upper env (cs ! j) @ v')"
    using symbol_at_offset [OF assms(1), of "2 * j"] symbol_at_offset [OF assms(1), of "2 * j + 1"]
      symbols_nth [OF assms(3), of env] assms(3) by auto
  have "utf8_char (lower_of env (cs ! j))" "utf8_char (to_upper env (cs ! j))"
    using assms(2,3) by (auto simp: case_regular_def)
  then have "is_equal (u @ w) (concat pre @ x @ rest) (length (concat pre)) (length x) = Some (x = u)"
    if "u = lower_of env (cs ! j) \<or> u = to_upper env (cs ! j)" for u w
    using that same_bytes_char [of u x "w @ [NUL]" rest] assms(4) by (auto simp: is_equal_def)
  then show ?thesis using v by (auto simp: symbol_matches_def either_case_def)
qed

text \<open>The code of a character of the text: that of the symbols it matches.\<close>

definition char_code :: "case_env \<Rightarrow> cstring list \<Rightarrow> coding \<Rightarrow> cstring \<Rightarrow> int" where
  "char_code env cs cd x =
    (case find (\<lambda>c. either_case env c x) cs of Some c \<Rightarrow> code_of cd (lower_of env c) | None \<Rightarrow> 0)"

lemma code_of_inject:
  assumes "coded env cs cd" and "c \<in> set cs" and "d \<in> set cs"
  shows "code_of cd (lower_of env c) = code_of cd (lower_of env d) \<longleftrightarrow> lower_of env c = lower_of env d"
proof -
  have inj: "a = b" if "distinct (map snd t)" "map_of t a = Some i" "map_of t b = Some i" for t :: "(cstring \<times> int) list" and a b i
    using that by (metis distinct_map inj_onD map_of_SomeD prod.inject snd_conv)
  have "lower_of env c \<in> dom (map_of (symb_table cd))" "lower_of env d \<in> dom (map_of (symb_table cd))"
    using assms by (auto simp: coded_def)
  then obtain i k where "map_of (symb_table cd) (lower_of env c) = Some i" "map_of (symb_table cd) (lower_of env d) = Some k"
    by blast
  then show ?thesis using inj assms(1) by (auto simp: code_of_def coded_def)
qed

lemma code_of_pos:
  assumes "coded env cs cd" and "c \<in> set cs"
  shows "0 < code_of cd (lower_of env c)"
proof -
  have "lower_of env c \<in> dom (map_of (symb_table cd))" using assms by (auto simp: coded_def)
  then obtain i where "map_of (symb_table cd) (lower_of env c) = Some i" by blast
  moreover from this have "i \<in> snd ` set (symb_table cd)" by (metis map_of_SomeD image_eqI snd_conv)
  ultimately show ?thesis using assms(1) unfolding code_of_def coded_def by (metis option.sel)
qed

lemma either_case_same:
  assumes "case_regular env cs" and "c \<in> set cs" and "d \<in> set cs" and "either_case env c x"
  shows "either_case env d x \<longleftrightarrow> lower_of env c = lower_of env d"
  using assms unfolding case_regular_def either_case_def by metis

lemma char_code_iff:
  assumes "coded env cs cd" and "case_regular env cs" and "c \<in> set cs"
  shows "code_of cd (lower_of env c) = char_code env cs cd x \<longleftrightarrow> either_case env c x"
proof (cases "find (\<lambda>c. either_case env c x) cs")
  case None
  moreover from this have "\<not> either_case env c x" using assms(3) by (auto simp: find_None_iff)
  ultimately show ?thesis using code_of_pos [OF assms(1,3)] by (simp add: char_code_def)
next
  case (Some d)
  then have d: "d \<in> set cs" "either_case env d x" by (auto simp: find_Some_iff)
  then show ?thesis
    using Some code_of_inject [OF assms(1,3) d(1)] either_case_same [OF assms(2) d(1) assms(3) d(2)]
    by (auto simp: char_code_def)
qed

subsection \<open>The search finds the term\<close>

lemma fall_back_fall:
  assumes "borders pat tab n" and "j \<le> n" and "\<forall>k \<le> j. matches k = Some (m k)"
  shows "fall_back matches tab j = fall m tab j"
  using assms(2,3)
proof (induction j rule: less_induct)
  case (less j)
  show ?case
  proof (cases "0 < j \<and> \<not> m j")
    case True
    have "longest pat (tab ! (j - 1)) (tl (take j pat))" "j - 1 < length tab"
      using assms(1) less.prems(1) True unfolding borders_def
      by (metis One_nat_def Suc_le_lessD Suc_pred, linarith)
    then have "tab ! (j - 1) < j" using longest_less_length True by blast
    then show ?thesis using less True \<open>j - 1 < length tab\<close>
      by (subst fall_back.simps, subst fall.simps) simp
  next
    case False
    then show ?thesis using less.prems by (subst fall_back.simps, subst fall.simps) auto
  qed
qed

lemma length_concat_chars: "\<forall>x \<in> set pre. utf8_char x \<Longrightarrow> length pre \<le> length (concat pre)"
proof (induction pre)
  case (Cons a pre)
  then have "0 < length a" by (simp add: utf8_char_def)
  with Cons show ?case by (simp, linarith)
qed simp

lemma kmp_loop_finds:
  assumes cd: "coded env cs cd" "case_regular env cs" "cs \<noteq> []"
    and pat: "pat = map (\<lambda>c. code_of cd (lower_of env c)) cs" and tab: "borders pat tab (length pat)"
    and xs: "\<forall>x \<in> set rest. utf8_char x" "\<forall>x \<in> set pre. utf8_char x"
    and j: "longest pat j (map (char_code env cs cd) pre)" "j < length pat"
  shows "\<exists>r. kmp_loop (concat (pre @ rest) @ behind) (length (concat (pre @ rest))) pat tab cd (length (concat pre)) j = Some r \<and>
    (r \<noteq> -1 \<longleftrightarrow> (\<exists>u v. rest = u @ v \<and> u \<noteq> [] \<and> ends pat (length pat) (map (char_code env cs cd) (pre @ u))))"
  using xs j
proof (induction rest arbitrary: pre j)
  case Nil
  then show ?case by (subst kmp_loop.simps) simp
next
  case (Cons x rest)
  let ?str = "concat (pre @ x # rest) @ behind" and ?n = "length (concat (pre @ x # rest))" and ?i = "length (concat pre)" and ?c = "char_code env cs cd x"
  let ?Y = "map (char_code env cs cd) pre" and ?m = "\<lambda>j. pat ! j = ?c"
  have x: "utf8_char x" "x \<noteq> []" using Cons.prems(1) by (auto simp: utf8_char_def)
  have str: "?str = concat pre @ x @ concat rest @ behind" by simp
  have len: "utf8_char_size (?str ! ?i) = length x" unfolding str using char_at_concat(2) [OF x(1)] .
  have hit: "symbol_matches cd ?str ?i (length x) k = Some (?m k)" if "k < length pat" for k
    using symbol_matches_char [OF cd(1,2) _ x(1), of k pre "concat rest @ behind"] char_code_iff [OF cd(1,2), of "cs ! k" x] that
    by (simp add: pat)
  have long: "k \<le> j" if "candidate pat ?c k ?Y" for k using longest_candidate [OF Cons.prems(3) that] .
  obtain r where r: "fall ?m tab j = Some r" "r \<le> j" "ends pat r ?Y" "r = 0 \<or> pat ! r = ?c"
      "\<forall>k. candidate pat ?c k ?Y \<longrightarrow> k \<le> r"
    using fall_spec [OF tab, of j ?Y ?c] Cons.prems(3,4) long by (auto simp: longest_def)
  have backed: "fall_back (symbol_matches cd ?str ?i (length x)) tab j = Some r"
    using fall_back_fall [OF tab, of j _ ?m] hit Cons.prems(4) r(1) by auto
  let ?j = "if pat ! r = ?c then r + 1 else r"
  have step: "longest pat ?j (map (char_code env cs cd) (pre @ [x]))"
    using longest_step [of pat r ?Y ?c] r Cons.prems(4) by simp
  have small: "?j \<le> length pat" using r(2) Cons.prems(4) by simp
  have run: "kmp_loop ?str ?n pat tab cd ?i j =
      (if ?j = length pat then Some (int ?i - int ?j + 1)
       else kmp_loop ?str ?n pat tab cd (?i + length x) ?j)"
    using x(2) hit [of r] r(2) Cons.prems(4)
    by (subst kmp_loop.simps) (simp add: len [unfolded str] backed [unfolded str])
  show ?case
  proof (cases "?j = length pat")
    case True
    then have "ends pat (length pat) (map (char_code env cs cd) (pre @ [x]))" using step by (simp add: longest_def)
    then have found: "\<exists>u v. x # rest = u @ v \<and> u \<noteq> [] \<and> ends pat (length pat) (map (char_code env cs cd) (pre @ u))"
      by (intro exI [of _ "[x]"] exI [of _ rest]) simp
    have "length pat \<le> Suc (length pre)"
      using ends_length [of pat "length pat" "map (char_code env cs cd) (pre @ [x])"] step True by (simp add: longest_def)
    moreover have "length pre \<le> ?i"
      using length_concat_chars Cons.prems(2) by blast
    ultimately have "int ?i - int ?j + 1 \<noteq> -1" using True by linarith
    then show ?thesis using found run True by auto
  next
    case False
    have none: "\<not> ends pat (length pat) (map (char_code env cs cd) (pre @ [x]))"
      using step False small by (auto simp: longest_def)
    obtain s where s: "kmp_loop (concat ((pre @ [x]) @ rest) @ behind) (length (concat ((pre @ [x]) @ rest))) pat tab cd
        (length (concat (pre @ [x]))) ?j = Some s"
      "s \<noteq> -1 \<longleftrightarrow> (\<exists>u v. rest = u @ v \<and> u \<noteq> [] \<and> ends pat (length pat) (map (char_code env cs cd) ((pre @ [x]) @ u)))"
      using Cons.IH [of "pre @ [x]" ?j] Cons.prems(1,2) step False small by auto
    have "(\<exists>u v. x # rest = u @ v \<and> u \<noteq> [] \<and> ends pat (length pat) (map (char_code env cs cd) (pre @ u))) \<longleftrightarrow> s \<noteq> -1"
      unfolding s(2)
    proof (intro iffI; elim exE conjE)
      fix u v assume u: "x # rest = u @ v" "u \<noteq> []" "ends pat (length pat) (map (char_code env cs cd) (pre @ u))"
      then obtain u' where "u = x # u'" "rest = u' @ v" by (cases u) auto
      with u(3) none show "\<exists>u v. rest = u @ v \<and> u \<noteq> [] \<and> ends pat (length pat) (map (char_code env cs cd) ((pre @ [x]) @ u))"
        by (intro exI [of _ u'] exI [of _ v]) auto
    next
      fix u v assume "rest = u @ v" "u \<noteq> []" "ends pat (length pat) (map (char_code env cs cd) ((pre @ [x]) @ u))"
      then show "\<exists>u v. x # rest = u @ v \<and> u \<noteq> [] \<and> ends pat (length pat) (map (char_code env cs cd) (pre @ u))"
        by (intro exI [of _ "x # u"] exI [of _ v]) simp
    qed
    then show ?thesis using run False s(1) by auto
  qed
qed

lemma ends_codes:
  assumes "coded env cs cd" and "case_regular env cs" and "pat = map (\<lambda>c. code_of cd (lower_of env c)) cs"
  shows "ends pat (length pat) (map (char_code env cs cd) ys) \<longleftrightarrow> (\<exists>pre mid. ys = pre @ mid \<and> list_all2 (either_case env) cs mid)"
proof -
  have "pat = map (char_code env cs cd) mid \<longleftrightarrow> list_all2 (either_case env) cs mid" for mid
  proof -
    have "pat = map (char_code env cs cd) mid \<longleftrightarrow>
        length cs = length mid \<and> (\<forall>j < length cs. code_of cd (lower_of env (cs ! j)) = char_code env cs cd (mid ! j))"
      unfolding assms(3) by (auto simp: list_eq_iff_nth_eq)
    then show ?thesis using char_code_iff [OF assms(1,2)] by (auto simp: list_all2_conv_all_nth)
  qed
  then show ?thesis
    by (auto simp: ends_def suffix_def map_eq_append_conv)
qed

text \<open>The coded term, its borders and the search in a text that other bytes follow.\<close>

definition occurs :: "case_env \<Rightarrow> cstring list \<Rightarrow> cstring list \<Rightarrow> bool" where
  "occurs env cs xs \<longleftrightarrow> (\<exists>pre mid post. xs = pre @ mid @ post \<and> list_all2 (either_case env) cs mid)"

lemma coded_term_found:
  assumes "cs \<noteq> []" and "\<forall>c \<in> set cs. utf8_char c" and "case_regular env cs"
  obtains codes cd tab where "convert_string_to_vector env (concat cs) = Some (codes, cd)" and "build_prefix codes = Some tab"
    and "\<And>xs behind. \<forall>x \<in> set xs. utf8_char x \<Longrightarrow>
      \<exists>r. kmp_strstr (Some (concat xs @ behind)) (length (concat xs)) codes tab cd = Some r \<and> (r \<noteq> -1 \<longleftrightarrow> occurs env cs xs)"
proof -
  obtain cd where cd: "convert_string_to_vector env (concat cs) = Some (map (\<lambda>c. code_of cd (lower_of env c)) cs, cd)"
      "coded env cs cd"
    using convert_coded [OF assms(2)] by blast
  let ?pat = "map (\<lambda>c. code_of cd (lower_of env c)) cs"
  obtain tab where tab: "build_prefix ?pat = Some tab" "borders ?pat tab (length ?pat)"
    using build_prefix_borders by blast
  have long: "longest ?pat 0 (map (char_code env cs cd) [])" by (auto simp: longest_def dest: ends_length)
  have "\<exists>r. kmp_strstr (Some (concat xs @ behind)) (length (concat xs)) ?pat tab cd = Some r \<and> (r \<noteq> -1 \<longleftrightarrow> occurs env cs xs)"
    if xs: "\<forall>x \<in> set xs. utf8_char x" for xs behind
  proof -
    obtain r where r: "kmp_loop (concat xs @ behind) (length (concat xs)) ?pat tab cd 0 0 = Some r"
        "r \<noteq> -1 \<longleftrightarrow> (\<exists>u v. xs = u @ v \<and> u \<noteq> [] \<and> ends ?pat (length ?pat) (map (char_code env cs cd) u))"
      using kmp_loop_finds [OF cd(2) assms(3,1) refl tab(2), of xs "[]" 0 behind] long assms(1) xs by auto
    have "(\<exists>u v. xs = u @ v \<and> u \<noteq> [] \<and> ends ?pat (length ?pat) (map (char_code env cs cd) u)) \<longleftrightarrow> occurs env cs xs"
      unfolding occurs_def
    proof (intro iffI; elim exE conjE)
      fix u v assume "xs = u @ v" "ends ?pat (length ?pat) (map (char_code env cs cd) u)"
      then show "\<exists>pre mid post. xs = pre @ mid @ post \<and> list_all2 (either_case env) cs mid"
        unfolding ends_codes [OF cd(2) assms(3) refl] by (metis append.assoc)
    next
      fix pre mid post assume found: "xs = pre @ mid @ post" "list_all2 (either_case env) cs mid"
      then have "mid \<noteq> []" using assms(1) by auto
      moreover have "ends ?pat (length ?pat) (map (char_code env cs cd) (pre @ mid))"
        unfolding ends_codes [OF cd(2) assms(3) refl] using found(2) by blast
      ultimately show "\<exists>u v. xs = u @ v \<and> u \<noteq> [] \<and> ends ?pat (length ?pat) (map (char_code env cs cd) u)"
        using found(1) by (intro exI [of _ "pre @ mid"] exI [of _ post]) simp
    qed
    then have "r \<noteq> -1 \<longleftrightarrow> occurs env cs xs" using r(2) by (rule trans [rotated])
    then show ?thesis using r(1) by (simp add: kmp_strstr_def)
  qed
  with cd(1) tab(1) show ?thesis by (rule that)
qed

text \<open>
  C23: Searching a term in a text of UTF-8 characters ends, reads nothing outside its tables, and finds
  something exactly when the characters of the term occur one after the other in the text, each in lower
  or upper case; the case mapping, which belongs to the system, being regular on the term.
\<close>

theorem find_term_iff:
  assumes "cs \<noteq> []" and "\<forall>c \<in> set cs. utf8_char c" and "\<forall>x \<in> set xs. utf8_char x" and "case_regular env cs"
  shows "\<exists>r. find_term env (concat cs) (concat xs) = Some r \<and>
    (r \<noteq> -1 \<longleftrightarrow> (\<exists>pre mid post. xs = pre @ mid @ post \<and> list_all2 (either_case env) cs mid))"
proof -
  from coded_term_found [OF assms(1,2,4)] obtain codes cd tab where
    "convert_string_to_vector env (concat cs) = Some (codes, cd)" "build_prefix codes = Some tab"
    and found: "\<And>xs behind. \<forall>x \<in> set xs. utf8_char x \<Longrightarrow>
      \<exists>r. kmp_strstr (Some (concat xs @ behind)) (length (concat xs)) codes tab cd = Some r \<and> (r \<noteq> -1 \<longleftrightarrow> occurs env cs xs)"
    by blast
  with found [OF assms(3), of "[]"] show ?thesis by (auto simp: find_term_def occurs_def)
qed

definition ascii_case :: case_env where
  "ascii_case = \<lparr>to_lower = map (\<lambda>c. if ascii_upper c then char_of (of_char c + 32 :: nat) else c),
     to_upper = map (\<lambda>c. if ascii_lower c then char_of (of_char c - 32 :: nat) else c)\<rparr>"

theorem find_term_iff_witness:
  "\<exists>r. find_term ascii_case ''nano'' ''banaNanOs'' = Some r \<and> r \<noteq> -1"
proof -
  have cs: "concat [''n'', ''a'', ''n'', ''o''] = ''nano''"
    "concat [''b'', ''a'', ''n'', ''a'', ''N'', ''a'', ''n'', ''O'', ''s''] = ''banaNanOs''" by simp_all
  have chars: "\<forall>c \<in> set [''n'', ''a'', ''n'', ''o'']. utf8_char c"
    "\<forall>c \<in> set [''b'', ''a'', ''n'', ''a'', ''N'', ''a'', ''n'', ''O'', ''s'']. utf8_char c"
    by (simp_all add: utf8_char_def utf8_char_size_def)
  have reg: "case_regular ascii_case [''n'', ''a'', ''n'', ''o'']"
    by code_simp
  have here: "list_all2 (either_case ascii_case) [''n'', ''a'', ''n'', ''o''] [''N'', ''a'', ''n'', ''O'']"
    by code_simp
  have "[''b'', ''a'', ''n'', ''a'', ''N'', ''a'', ''n'', ''O'', ''s''] =
      [''b'', ''a'', ''n'', ''a''] @ [''N'', ''a'', ''n'', ''O''] @ [''s'']" by simp
  with here find_term_iff [OF _ chars reg] show ?thesis unfolding cs by (metis list.discI)
qed

subsection \<open>A case mapping that is not regular\<close>

text \<open>The dotless i (U+0131), whose upper case is that of the letter i.\<close>

definition dotless_i :: cstring where
  "dotless_i = [CHR 0xC4, CHR 0xB1]"

definition turkish_case :: case_env where
  "turkish_case = \<lparr>to_lower = (\<lambda>c. if c = dotless_i then c else to_lower ascii_case c),
     to_upper = (\<lambda>c. if c = dotless_i then ''I'' else to_upper ascii_case c)\<rparr>"

text \<open>
  When two letters of the term share only their upper case, the search can miss an occurrence: the table
  of borders compares the codes of the symbols, which tell the two letters apart, while the text is
  compared in either case, which does not.
\<close>

theorem find_term_misses:
  "find_term turkish_case (dotless_i @ ''ix'') ''IIix'' = Some (-1) \<and>
   list_all2 (either_case turkish_case) [dotless_i, ''i'', ''x''] [''I'', ''i'', ''x'']"
proof
  show "find_term turkish_case (dotless_i @ ''ix'') ''IIix'' = Some (-1)" by code_simp
  show "list_all2 (either_case turkish_case) [dotless_i, ''i'', ''x''] [''I'', ''i'', ''x'']" by code_simp
qed

text \<open>An empty term is an index outside the vector of the symbols as soon as the text is not empty.\<close>

lemma empty_term_undefined:
  assumes "utf8_char x"
  shows "find_term env [] (x @ text) = None"
proof -
  have "x \<noteq> []" using assms by (simp add: utf8_char_def)
  moreover have "symbol_matches coding_new str 0 len 0 = None" for str len
    by (simp add: symbol_matches_def symbol_at_def coding_new_def)
  moreover have "fall_back matches tab 0 = Some 0" for matches tab by (simp add: fall_back.simps)
  ultimately show ?thesis
    by (simp add: find_term_def convert_string_to_vector_def convert_loop.simps build_prefix_def build_loop.simps
        kmp_strstr_def kmp_loop.simps)
qed

end
