(* ===== verification/Archive_Search.thy ===== *)
theory Archive_Search
  imports Message_Store Search_Facts
begin

text \<open>
  The search of a term in the archives of the contacts (\<open>search_in_archive\<close> in
  \<open>core/archive/messages_data.cpp\<close>): the pieces of the message files lie in one buffer, piece after
  piece, and every message is looked at through its fields before it is read. The set \<open>top_ids\<close> of the
  newest ids, which limits the results, is kept as a descending list. The search by an id is part of the
  debug build only.
\<close>

type_synonym found_messages = "cstring \<Rightarrow> history_message list option"

subsection \<open>The collections\<close>

definition limit_search_results :: nat where
  "limit_search_results = 100"

fun top_insert :: "int \<Rightarrow> int list \<Rightarrow> int list" where
  "top_insert i [] = [i]"
| "top_insert i (k # ks) = (if k < i then i # k # ks else if i = k then k # ks else k # top_insert i ks)"

text \<open>\<open>None\<close> is the \<open>continue\<close> for a message older than all that are kept.\<close>

definition make_room :: "int \<Rightarrow> int list \<Rightarrow> int list option" where
  "make_room mess_id tops =
    (if limit_search_results < length tops
     then if \<exists>k \<in> set tops. k < mess_id then Some (top_insert mess_id (butlast tops)) else None
     else Some tops)"

fun put_message :: "int \<Rightarrow> history_message \<Rightarrow> history_message list \<Rightarrow> history_message list" where
  "put_message i m [] = [m]"
| "put_message i m (x # xs) = (if m_msgid x = i then m # xs else x # put_message i m xs)"

fun erase_message :: "int \<Rightarrow> history_message list \<Rightarrow> history_message list" where
  "erase_message i [] = []"
| "erase_message i (x # xs) = (if m_msgid x = i then xs else x # erase_message i xs)"

definition found_in :: "found_messages \<Rightarrow> cstring \<Rightarrow> history_message list" where
  "found_in found contact = (case found contact of None \<Rightarrow> [] | Some ms \<Rightarrow> ms)"

definition put_found :: "cstring \<Rightarrow> int \<Rightarrow> history_message \<Rightarrow> found_messages \<Rightarrow> found_messages" where
  "put_found contact i m found = found(contact \<mapsto> put_message i m (found_in found contact))"

definition erase_found :: "cstring \<Rightarrow> int \<Rightarrow> found_messages \<Rightarrow> found_messages" where
  "erase_found contact i found =
    (case found contact of None \<Rightarrow> found | Some ms \<Rightarrow> found(contact \<mapsto> erase_message i ms))"

subsection \<open>The search\<close>

record term_coded =
  coded_string :: "int list"
  tc_prefix :: "nat list"
  tc_symbols :: coding

type_synonym search_state = "binary_stream \<times> int list \<times> found_messages"

text \<open>The pointer \<open>read_available\<close> returns: the bytes from the read position to the end of the buffer.\<close>

definition text_pointer :: "binary_stream \<Rightarrow> cstring option \<times> binary_stream" where
  "text_pointer data =
    (if bs_available data = 0 then (None, data)
     else (Some (drop (output_cursor data) (buffer data)), snd (bs_read_available data)))"

text \<open>What is done with one block: the body of the inner loop.\<close>

definition search_block ::
  "message_env \<Rightarrow> term_coded \<Rightarrow> int \<Rightarrow> cstring \<Rightarrow> nat \<Rightarrow> search_state \<Rightarrow> search_state option" where
  "search_block env tc min_id contact begin_of_block st = (case st of (data, tops, found) \<Rightarrow> do {
     (mess_id, data) \<leftarrow> get_id_field (bs_set_output begin_of_block data);
     if mess_id = -1 \<or> mess_id \<le> min_id then Some (data, tops, found)
     else case make_room mess_id tops of
       None \<Rightarrow> Some (data, tops, found)
     | Some tops \<Rightarrow> do {
         (sticker, data) \<leftarrow> is_sticker_field (bs_set_output begin_of_block data);
         if sticker then Some (data, tops, found)
         else do {
           (event, data) \<leftarrow> is_chat_event_field (bs_set_output begin_of_block data);
           if event then Some (data, tops, found)
           else do {
             (text_length, data) \<leftarrow> jump_to_text_field (bs_set_output begin_of_block data) 0;
             if text_length = 0 then Some (data, tops, found)
             else do {
               let (pointer, data) = text_pointer data;
               r \<leftarrow> kmp_strstr pointer (unat text_length) (coded_string tc) (tc_prefix tc) (tc_symbols tc);
               if r \<noteq> -1
               then do {
                 (code, msg, data) \<leftarrow> message_unserialize env (bs_set_output begin_of_block data) message_new;
                 if code = 0 then Some (data, top_insert mess_id tops, put_found contact mess_id msg found)
                 else Some (data, tops, found) }
               else Some (data, tops, erase_found contact mess_id found) } } } } })"

lemma fast_read_moves:
  assumes "fast_read_data_block b pos begin_pos e = (True, b', pos', begin')"
  shows "pos < pos'" and "pos' \<le> e" and "pos < e"
proof -
  show "pos < pos'" "pos' \<le> e"
    using assms fast_scan_found [of "buffer b" e pos]
    by (auto simp: fast_read_data_block_def Let_def split: if_splits prod.splits option.splits)
  then show "pos < e" by simp
qed

function search_contact ::
  "message_env \<Rightarrow> term_coded \<Rightarrow> int \<Rightarrow> cstring \<Rightarrow> nat \<Rightarrow> nat \<Rightarrow> nat \<Rightarrow> search_state \<Rightarrow> (nat \<times> search_state) option" where
  "search_contact env tc min_id contact current_pos begin_of_block end_pos (data, tops, found) =
    (case fast_read_data_block data current_pos begin_of_block end_pos of
       (ok, data, pos, begin_of_block) \<Rightarrow>
         if ok
         then case search_block env tc min_id contact begin_of_block (data, tops, found) of
             None \<Rightarrow> None
           | Some st \<Rightarrow> search_contact env tc min_id contact pos begin_of_block end_pos st
         else Some (pos, data, tops, found))"
  by pat_completeness auto

termination
  by (relation "measure (\<lambda>(_, _, _, _, pos, _, e, _). e - pos)") (auto dest: fast_read_moves [OF sym] intro!: diff_less_mono2)

declare search_contact.simps [simp del]

text \<open>
  The outer loop. A vector without elements makes \<open>size() - 1\<close> wrap around, and a contact without an
  entry among the offsets is an index outside the vector.
\<close>

definition next_offset :: "cstring \<Rightarrow> nat \<Rightarrow> nat \<Rightarrow> int \<Rightarrow> int" where
  "next_offset contact start pos off =
    (let off = (if pos = start \<and> contact \<noteq> [] then -1 else off)
     in if off \<noteq> -1 then off + (int pos - int start) else off)"

fun search_contacts ::
  "message_env \<Rightarrow> term_coded \<Rightarrow> int \<Rightarrow> (cstring \<times> nat) list \<Rightarrow> int list \<Rightarrow> search_state \<Rightarrow> (int list \<times> search_state) option" where
  "search_contacts env tc min_id [] offs st = None"
| "search_contacts env tc min_id [_] offs st = Some (offs, st)"
| "search_contacts env tc min_id (_ # _ # _) [] st = None"
| "search_contacts env tc min_id ((contact, start) # (contact', stop) # rest) (off # offs) st = do {
     (pos, st) \<leftarrow> search_contact env tc min_id contact start 0 stop st;
     (offs, st) \<leftarrow> search_contacts env tc min_id ((contact', stop) # rest) offs st;
     Some (next_offset contact start pos off # offs, st) }"

definition search_in_archive ::
  "message_env \<Rightarrow> term_coded \<Rightarrow> int \<Rightarrow> (cstring \<times> nat) list \<Rightarrow> int list \<Rightarrow> binary_stream \<Rightarrow> found_messages \<Rightarrow>
     (int list \<times> found_messages) option" where
  "search_in_archive env tc min_id arch offs data found =
    map_option (\<lambda>(offs, _, _, found). (offs, found)) (search_contacts env tc min_id arch offs (data, [], found))"

subsection \<open>Texts and terms\<close>

text \<open>A text is split into its characters in one way only.\<close>

lemma characters_unique:
  assumes "\<forall>x \<in> set xs. utf8_char x" and "\<forall>y \<in> set ys. utf8_char y" and "concat xs = concat ys"
  shows "xs = ys"
  using assms
proof (induction xs arbitrary: ys)
  case Nil
  then show ?case by (cases ys) (auto simp: utf8_char_def)
next
  case (Cons x xs)
  from Cons.prems(1) have x: "utf8_char x" "x \<noteq> []" by (auto simp: utf8_char_def)
  with Cons.prems(3) obtain y ys' where ys: "ys = y # ys'" by (cases ys) auto
  with Cons.prems(2) have y: "utf8_char y" "y \<noteq> []" by (auto simp: utf8_char_def)
  have "hd x = hd (concat (x # xs))" "hd y = hd (concat ys)" using x y ys by simp_all
  then have "length x = length y" using x(1) y(1) Cons.prems(3) by (simp add: utf8_char_def)
  then have "x = y" "concat xs = concat ys'" using Cons.prems(3) ys by simp_all
  with Cons.IH [of ys'] Cons.prems(1,2) ys show ?case by simp
qed

definition utf8_text :: "cstring \<Rightarrow> bool" where
  "utf8_text s \<longleftrightarrow> (\<exists>xs. (\<forall>x \<in> set xs. utf8_char x) \<and> s = concat xs)"

text \<open>The term, given by its characters, is in the text, in either case.\<close>

definition text_has :: "case_env \<Rightarrow> cstring list \<Rightarrow> cstring \<Rightarrow> bool" where
  "text_has cenv cs s \<longleftrightarrow> (\<exists>xs. (\<forall>x \<in> set xs. utf8_char x) \<and> s = concat xs \<and> occurs cenv cs xs)"

lemma text_has_concat:
  assumes "\<forall>x \<in> set xs. utf8_char x"
  shows "text_has cenv cs (concat xs) \<longleftrightarrow> occurs cenv cs xs"
  unfolding text_has_def using characters_unique [OF assms] assms by blast

text \<open>\<open>tc\<close> is the term as \<open>wim_im.cpp\<close> prepares it.\<close>

definition coded_of :: "case_env \<Rightarrow> cstring list \<Rightarrow> term_coded \<Rightarrow> bool" where
  "coded_of cenv cs tc \<longleftrightarrow>
    convert_string_to_vector cenv (concat cs) = Some (coded_string tc, tc_symbols tc) \<and>
    build_prefix (coded_string tc) = Some (tc_prefix tc)"

definition term_ok :: "case_env \<Rightarrow> cstring list \<Rightarrow> bool" where
  "term_ok cenv cs \<longleftrightarrow> cs \<noteq> [] \<and> (\<forall>c \<in> set cs. utf8_char c) \<and> case_regular cenv cs"

lemma term_found:
  assumes "term_ok cenv cs" and "coded_of cenv cs tc" and "utf8_text s"
  shows "\<exists>r. kmp_strstr (Some (s @ behind)) (length s) (coded_string tc) (tc_prefix tc) (tc_symbols tc) = Some r \<and>
    (r \<noteq> -1 \<longleftrightarrow> text_has cenv cs s)"
proof -
  obtain xs where xs: "\<forall>x \<in> set xs. utf8_char x" "s = concat xs" using assms(3) by (auto simp: utf8_text_def)
  from assms(1) obtain codes cd tab where "convert_string_to_vector cenv (concat cs) = Some (codes, cd)" "build_prefix codes = Some tab"
    and found: "\<And>xs behind. \<forall>x \<in> set xs. utf8_char x \<Longrightarrow>
      \<exists>r. kmp_strstr (Some (concat xs @ behind)) (length (concat xs)) codes tab cd = Some r \<and> (r \<noteq> -1 \<longleftrightarrow> occurs cenv cs xs)"
    using coded_term_found [of cs cenv] unfolding term_ok_def by metis
  with assms(2) have "codes = coded_string tc" "cd = tc_symbols tc" "tab = tc_prefix tc" by (auto simp: coded_of_def)
  with found [OF xs(1), of behind] show ?thesis by (simp add: xs(2) text_has_concat [OF xs(1)])
qed

lemma term_coded_exists:
  assumes "term_ok cenv cs"
  shows "\<exists>tc. coded_of cenv cs tc"
proof -
  from assms obtain codes cd tab where "convert_string_to_vector cenv (concat cs) = Some (codes, cd)" "build_prefix codes = Some tab"
    using coded_term_found [of cs cenv] unfolding term_ok_def by metis
  then show ?thesis
    by (intro exI [of _ "\<lparr>coded_string = codes, tc_prefix = tab, tc_symbols = cd\<rparr>"]) (simp add: coded_of_def)
qed

subsection \<open>One block\<close>

text \<open>The functions that look for a field move the read position only.\<close>

definition same_bytes_of :: "binary_stream \<Rightarrow> binary_stream \<Rightarrow> bool" where
  "same_bytes_of s s' \<longleftrightarrow> buffer s' = buffer s \<and> input_cursor s' = input_cursor s"

lemma same_bytes_set_output: "same_bytes_of s s' \<Longrightarrow> bs_set_output n s' = bs_set_output n s"
  by (simp add: same_bytes_of_def bs_set_output_def)

lemma bs_read_same: "same_bytes_of s (snd (bs_read n s))"
  by (simp add: bs_read_def same_bytes_of_def)

lemma bs_read_as_same: "bs_read_as n f s = Some (x, s') \<Longrightarrow> same_bytes_of s s'"
  using bs_read_same [of s n] by (auto simp: bs_read_as_def split: option.splits prod.splits)

lemma try_get_field_same: "try_get_field_with_type wanted s = Some (ok, len, s') \<Longrightarrow> same_bytes_of s s'"
  using bs_read_same
  by (auto simp: try_get_field_with_type_def bs_read_u32_def bind_eq_Some_conv same_bytes_of_def
      split: if_splits dest!: bs_read_as_same)

lemma find_field_same:
  assumes "find_field wanted s len = Some (found, len', s')"
  shows "same_bytes_of s s'"
proof -
  have "same_bytes_of s (snd (snd (found, len', s')))"
  proof (rule find_field.raw_induct [where P = "\<lambda>_ s _ r. same_bytes_of s (snd (snd r))", OF _ assms], goal_cases)
    case (1 ff w s len r)
    show ?case
    proof (cases "bs_available s = 0")
      case False
      with 1(2) obtain ok l s1 where t: "try_get_field_with_type w s = Some (ok, l, s1)"
          and r: "(if \<not> ok then Some (False, l, s1) else if l \<noteq> 0 then Some (True, l, s1) else ff w s1 l) = Some r"
        by (auto simp: bind_eq_Some_conv)
      from try_get_field_same [OF t] r 1(1) [of w s1 l r] show ?thesis
        by (auto simp: same_bytes_of_def split: if_splits)
    qed (use 1(2) in \<open>auto simp: same_bytes_of_def\<close>)
  qed
  then show ?thesis by simp
qed

text \<open>A block in the buffer, as \<open>fast_read_data_block\<close> leaves the stream.\<close>

definition at_block :: "binary_stream \<Rightarrow> nat \<Rightarrow> byte list \<Rightarrow> byte list \<Rightarrow> bool" where
  "at_block blk b d behind \<longleftrightarrow> output_cursor blk = b \<and> bs_wf blk \<and> bs_pending blk = d \<and> drop b (buffer blk) = d @ behind"

lemma field_of_block:
  assumes "archivable env m" and "at_block blk b (message_bytes env m) behind" and "same_bytes_of blk s"
  obtains len' s' where "find_field wanted (bs_set_output b s) 0 =
      Some (find (\<lambda>f. fst f = wanted \<and> snd f \<noteq> []) (message_fields (junk env) m []) \<noteq> None, len', s')"
    and "same_bytes_of blk s'" and "bs_wf s'"
    and "case find (\<lambda>f. fst f = wanted \<and> snd f \<noteq> []) (message_fields (junk env) m []) of
       None \<Rightarrow> len' = 0 | Some f \<Rightarrow> unat len' = length (snd f) \<and> (\<exists>rest. bs_pending s' = snd f @ rest)"
proof -
  have here: "bs_set_output b s = blk"
    using assms(2,3) by (simp add: at_block_def same_bytes_of_def bs_set_output_def)
  have ok: "list_all field_ok (message_fields (junk env) m [])"
    using pack_bytes_field_ok message_storable_dest(2) [OF archivable_dest(1) [OF assms(1)]] by blast
  have pend: "bs_wf blk" "bs_pending blk = pack_bytes (message_fields (junk env) m [])"
    using assms(2) by (simp_all add: at_block_def message_bytes_def)
  have found: "(\<exists>f\<in>set fs. P f) \<longleftrightarrow> find P fs \<noteq> None" for fs :: "field list" and P
    by (auto simp: find_None_iff)
  have ne: "message_fields (junk env) m [] \<noteq> []" by (simp add: message_fields_def head_fields_def)
  from find_field_fields [OF pend(1) ok pend(2), of wanted 0] obtain len' s' where
    1: "find_field wanted blk 0 =
      Some (find (\<lambda>f. fst f = wanted \<and> snd f \<noteq> []) (message_fields (junk env) m []) \<noteq> None, len', s')"
    and 2: "bs_wf s'" and 3: "case find (\<lambda>f. fst f = wanted \<and> snd f \<noteq> []) (message_fields (junk env) m []) of
       None \<Rightarrow> (message_fields (junk env) m [] \<noteq> [] \<longrightarrow> len' = 0) \<and> bs_pending s' = []
     | Some f \<Rightarrow> unat len' = length (snd f) \<and> (\<exists>rest. bs_pending s' = snd f @ rest)"
    unfolding found by blast
  show ?thesis
  proof (rule that)
    show "find_field wanted (bs_set_output b s) 0 =
      Some (find (\<lambda>f. fst f = wanted \<and> snd f \<noteq> []) (message_fields (junk env) m []) \<noteq> None, len', s')"
      using 1 here by simp
    show "same_bytes_of blk s'" using find_field_same [OF 1] .
  qed (use 2 3 ne in \<open>auto split: option.splits\<close>)
qed

definition searchable :: "history_message \<Rightarrow> bool" where
  "searchable m \<longleftrightarrow> m_sticker m = None \<and> m_chat_event m = None \<and> m_text m \<noteq> []"

lemma block_fields:
  assumes "archivable env m" and "at_block blk b (message_bytes env m) behind" and "same_bytes_of blk s"
  shows "\<exists>s'. get_id_field (bs_set_output b s) = Some (m_msgid m, s') \<and> same_bytes_of blk s'"
    and "\<exists>s'. is_sticker_field (bs_set_output b s) = Some (m_sticker m \<noteq> None, s') \<and> same_bytes_of blk s'"
    and "\<exists>s'. is_chat_event_field (bs_set_output b s) = Some (m_chat_event m \<noteq> None, s') \<and> same_bytes_of blk s'"
    and "\<exists>n s' rest. jump_to_text_field (bs_set_output b s) 0 = Some (n, s') \<and> same_bytes_of blk s' \<and> unat n = length (m_text m) \<and>
      bs_wf s' \<and> (m_text m \<noteq> [] \<longrightarrow> bs_pending s' = m_text m @ rest)"
proof -
  note fld = field_of_block [OF assms]
  have id64: "int64 (m_msgid m)" using assms(1) by (simp add: archivable_def message_ok_def)
  obtain l s' where i: "find_field mf_msg_id (bs_set_output b s) 0 = Some (True, l, s')" "same_bytes_of blk s'" "bs_wf s'"
      "\<exists>rest. bs_pending s' = i64_bytes (m_msgid m) @ rest"
    by (rule fld [of mf_msg_id]) (auto simp: found_fields)
  then obtain s'' where "bs_read_i64 s' = Some (m_msgid m, s'')" using id64 by (auto simp: bs_typed_reads)
  moreover from this have "same_bytes_of s' s''" by (auto simp: bs_read_i64_def dest: bs_read_as_same)
  ultimately show "\<exists>s'. get_id_field (bs_set_output b s) = Some (m_msgid m, s') \<and> same_bytes_of blk s'"
    using i by (auto simp: get_id_field_def same_bytes_of_def)
  show "\<exists>s'. is_sticker_field (bs_set_output b s) = Some (m_sticker m \<noteq> None, s') \<and> same_bytes_of blk s'"
    by (rule fld [of mf_sticker]) (auto simp: found_fields is_sticker_field_def)
  show "\<exists>s'. is_chat_event_field (bs_set_output b s) = Some (m_chat_event m \<noteq> None, s') \<and> same_bytes_of blk s'"
    by (rule fld [of mf_chat_event]) (auto simp: found_fields is_chat_event_field_def)
  show "\<exists>n s' rest. jump_to_text_field (bs_set_output b s) 0 = Some (n, s') \<and> same_bytes_of blk s' \<and> unat n = length (m_text m) \<and>
      bs_wf s' \<and> (m_text m \<noteq> [] \<longrightarrow> bs_pending s' = m_text m @ rest)"
    by (rule fld [of mf_text]) (auto simp: found_fields jump_to_text_field_def split: if_splits)
qed

lemma pending_in_buffer:
  assumes "bs_wf s" and "bs_pending s = d @ rest"
  shows "\<exists>behind. drop (output_cursor s) (buffer s) = d @ behind"
proof -
  have "drop (output_cursor s) (buffer s) = bs_pending s @ drop (input_cursor s) (buffer s)"
    using assms(1) unfolding bs_wf_def bs_pending_def
    by (metis append_take_drop_id drop_append diff_is_0_eq drop0 length_take min.absorb2)
  then show ?thesis using assms(2) by simp
qed

text \<open>What a message does to the two collections when there is room.\<close>

definition search_step ::
  "message_env \<Rightarrow> case_env \<Rightarrow> cstring list \<Rightarrow> cstring \<Rightarrow> history_message \<Rightarrow> int list \<times> found_messages \<Rightarrow> int list \<times> found_messages" where
  "search_step env cenv cs contact m st = (case st of (tops, found) \<Rightarrow>
     if \<not> searchable m then (tops, found)
     else if text_has cenv cs (m_text m)
     then (top_insert (m_msgid m) tops, put_found contact (m_msgid m) (message_stored (junk env) env m) found)
     else (tops, erase_found contact (m_msgid m) found))"

text \<open>A message with the test for room, and what a search through the messages of a contact does.\<close>

definition limited_step ::
  "message_env \<Rightarrow> case_env \<Rightarrow> cstring list \<Rightarrow> cstring \<Rightarrow> history_message \<Rightarrow> int list \<times> found_messages \<Rightarrow> int list \<times> found_messages" where
  "limited_step env cenv cs contact m st =
    (case make_room (m_msgid m) (fst st) of
       None \<Rightarrow> st
     | Some tops \<Rightarrow> search_step env cenv cs contact m (tops, snd st))"

lemma search_block_message:
  assumes "archivable env m" and "at_block blk b (message_bytes env m) behind"
    and "term_ok cenv cs" and "coded_of cenv cs tc" and "utf8_text (m_text m)"
    and "m_msgid m \<noteq> -1" and "min_id < m_msgid m"
  shows "\<exists>data. same_bytes_of blk data \<and> search_block env tc min_id contact b (blk, tops, found) = Some (data,
    limited_step env cenv cs contact m (tops, found))"
proof -
  note fields = block_fields [OF assms(1,2)]
  have "same_bytes_of blk blk" by (simp add: same_bytes_of_def)
  from fields(1) [OF this] obtain s1 where s1: "get_id_field (bs_set_output b blk) = Some (m_msgid m, s1)" "same_bytes_of blk s1" by blast
  show ?thesis
  proof (cases "make_room (m_msgid m) tops")
    case None
    then show ?thesis using s1 assms(6,7) by (simp add: search_block_def limited_step_def)
  next
    case (Some tops')
    from fields(2) [OF s1(2)] obtain s2 where s2: "is_sticker_field (bs_set_output b s1) = Some (m_sticker m \<noteq> None, s2)" "same_bytes_of blk s2" by blast
    from fields(3) [OF s2(2)] obtain s3 where s3: "is_chat_event_field (bs_set_output b s2) = Some (m_chat_event m \<noteq> None, s3)" "same_bytes_of blk s3" by blast
    from fields(4) [OF s3(2)] obtain n s4 rest where s4: "jump_to_text_field (bs_set_output b s3) 0 = Some (n, s4)" "same_bytes_of blk s4"
        "unat n = length (m_text m)" "bs_wf s4" "m_text m \<noteq> [] \<longrightarrow> bs_pending s4 = m_text m @ rest" by blast
    show ?thesis
    proof (cases "searchable m")
      case False
      moreover have "n = 0 \<longleftrightarrow> m_text m = []" using s4(3) unat_eq_zero [of n] by simp
      ultimately show ?thesis using s1 s2 s3 s4 assms(6,7) Some
        by (auto simp: limited_step_def search_block_def search_step_def searchable_def)
    next
      case True
      then have t: "m_sticker m = None" "m_chat_event m = None" "m_text m \<noteq> []" "bs_pending s4 = m_text m @ rest"
        using s4(5) by (auto simp: searchable_def)
      then have n: "n \<noteq> 0" "bs_available s4 \<noteq> 0" using s4(3,4) by (auto simp: bs_available_pending neq_Nil_conv)
      obtain behind where p: "text_pointer s4 = (Some (m_text m @ behind), snd (bs_read_available s4))"
        using pending_in_buffer [OF s4(4) t(4)] n(2) by (auto simp: text_pointer_def)
      obtain r where r: "kmp_strstr (Some (m_text m @ behind)) (unat n) (coded_string tc) (tc_prefix tc) (tc_symbols tc) = Some r"
          "r \<noteq> -1 \<longleftrightarrow> text_has cenv cs (m_text m)"
        using term_found [OF assms(3-5), of behind] s4(3) by auto
      let ?s5 = "snd (bs_read_available s4)"
      have s5: "same_bytes_of blk ?s5"
        using s4(2) by (simp add: same_bytes_of_def bs_read_available_def Let_def)
      then have "bs_set_output b ?s5 = blk" using assms(2) by (simp add: same_bytes_of_def at_block_def bs_set_output_def)
      moreover have "message_unserialize env blk message_new =
          Some (0, message_stored (junk env) env m, bs_skip (length (message_bytes env m)) blk)"
        using message_unserialize_bytes [OF assms(1)] assms(2) by (simp add: at_block_def)
      moreover have "same_bytes_of blk (bs_skip k blk)" for k by (simp add: same_bytes_of_def bs_skip_def)
      ultimately show ?thesis
        using s1(1) s2(1) s3(1) s4(1) n p r t assms(6,7) Some s5 True
        by (auto simp: limited_step_def search_block_def search_step_def)
    qed
  qed
qed

subsection \<open>The blocks of a contact\<close>

lemma put_found_in [simp]: "found_in (put_found c i m found) c = put_message i m (found_in found c)"
  by (simp add: put_found_def found_in_def)

lemma erase_found_in [simp]: "found_in (erase_found c i found) c = erase_message i (found_in found c)"
  by (simp add: erase_found_def found_in_def split: option.split)

text \<open>The messages a search through \<open>ms\<close> leaves, and the number of ids it notes.\<close>

lemma length_top_insert: "length (top_insert i tops) \<le> length tops + 1"
  by (induction tops) auto

definition to_search :: "message_env \<Rightarrow> int \<Rightarrow> history_message \<Rightarrow> bool" where
  "to_search env min_id m \<longleftrightarrow> archivable env m \<and> utf8_text (m_text m) \<and> m_msgid m \<noteq> -1 \<and> min_id < m_msgid m"

lemma search_contact_run:
  assumes "list_all (to_search env min_id) ms" and "term_ok cenv cs" and "coded_of cenv cs tc"
    and "buffer data = pre @ log_of env ms @ post"
  shows "\<exists>data'. buffer data' = buffer data \<and>
    search_contact env tc min_id contact (length pre) begin_pos (length (pre @ log_of env ms)) (data, tops, found) =
      Some (length (pre @ log_of env ms), data', fold (limited_step env cenv cs contact) ms (tops, found))"
  using assms(1,4)
proof (induction ms arbitrary: pre data tops found begin_pos)
  case Nil
  then have "fast_read_data_block data (length pre) begin_pos (length pre) = (False, data, length pre, begin_pos)"
    by (simp add: fast_read_data_block_def fast_scan.simps)
  then show ?case by (subst search_contact.simps) simp
next
  case (Cons m ms)
  let ?d = "message_bytes env m" and ?e = "length (pre @ log_of env (m # ms))"
  have m: "archivable env m" "utf8_text (m_text m)" "m_msgid m \<noteq> -1" "min_id < m_msgid m"
    using Cons.prems(1) by (simp_all add: to_search_def)
  have ms: "list_all (to_search env min_id) ms" using Cons.prems(1) by simp
  have buf: "buffer data = pre @ frame ?d @ log_of env ms @ post" using Cons.prems(2) by simp
  have ok: "block_ok ?d" using archivable_dest [OF m(1)] by (simp add: block_ok_def)
  have inside: "length pre + 16 + length ?d \<le> ?e" by simp
  let ?blk = "bs_set_input (length pre + 8 + length ?d) (bs_set_output (length pre + 8) data)"
  note read = fast_read_data_block_frame [OF buf ok inside]
  have blk: "at_block ?blk (length pre + 8) ?d (drop (8 + length ?d) (frame ?d) @ log_of env ms @ post)"
    using read(2) by (simp add: at_block_def bs_wf_def bs_set_input_def bs_set_output_def buf frame_def)
  obtain tops1 found1 where st1: "limited_step env cenv cs contact m (tops, found) = (tops1, found1)" by fastforce
  obtain data1 where step: "same_bytes_of ?blk data1"
    "search_block env tc min_id contact (length pre + 8) (?blk, tops, found) = Some (data1, tops1, found1)"
    using search_block_message [OF m(1) blk assms(2,3) m(2-4), of contact tops found] st1 by auto
  have buf1: "buffer data1 = (pre @ frame ?d) @ log_of env ms @ post"
    using step(1) buf by (simp add: same_bytes_of_def bs_set_input_def bs_set_output_def)
  have pos: "length pre + 16 + length ?d = length (pre @ frame ?d)" by simp
  have "search_contact env tc min_id contact (length pre) begin_pos ?e (data, tops, found) =
      search_contact env tc min_id contact (length (pre @ frame ?d)) (length pre + 8) ?e (data1, tops1, found1)"
    using read(1) [of begin_pos] step(2) pos by (subst search_contact.simps) simp
  with Cons.IH [OF ms buf1, of "length pre + 8" tops1 found1] st1 buf buf1 show ?case by auto
qed

lemma search_step_ids: "length (fst (search_step env cenv cs contact m (tops, found))) \<le> length tops + 1"
  using length_top_insert [of "m_msgid m" tops] by (simp add: search_step_def)

lemma limited_fold:
  assumes "length tops + length ms \<le> limit_search_results + 1"
  shows "fold (limited_step env cenv cs contact) ms (tops, found) = fold (search_step env cenv cs contact) ms (tops, found)"
  using assms
proof (induction ms arbitrary: tops found)
  case (Cons m ms)
  obtain t f where tf: "search_step env cenv cs contact m (tops, found) = (t, f)" by fastforce
  have "make_room (m_msgid m) tops = Some tops" using Cons.prems by (simp add: make_room_def)
  with tf have "limited_step env cenv cs contact m (tops, found) = (t, f)" by (simp add: limited_step_def)
  moreover have "length t + length ms \<le> limit_search_results + 1"
    using search_step_ids [of env cenv cs contact m tops found] tf Cons.prems by simp
  ultimately show ?case using Cons.IH tf by simp
qed simp

subsection \<open>What the search leaves\<close>

text \<open>
  The last version of a message among those the search looks at: later blocks of the same id are its
  later versions.
\<close>

definition last_version :: "history_message list \<Rightarrow> history_message \<Rightarrow> bool" where
  "last_version ms m \<longleftrightarrow> searchable m \<and>
    (\<exists>us vs. ms = us @ m # vs \<and> (\<forall>x \<in> set vs. searchable x \<longrightarrow> m_msgid x \<noteq> m_msgid m))"

lemma last_version_Nil [simp]: "\<not> last_version [] m"
  by (simp add: last_version_def)

lemma last_version_snoc:
  "last_version (ms @ [y]) m \<longleftrightarrow>
    searchable y \<and> m = y \<or> last_version ms m \<and> \<not> (searchable y \<and> m_msgid y = m_msgid m)"
proof
  assume "last_version (ms @ [y]) m"
  then obtain us vs where u: "searchable m" "ms @ [y] = us @ m # vs" "\<forall>x \<in> set vs. searchable x \<longrightarrow> m_msgid x \<noteq> m_msgid m"
    by (auto simp: last_version_def)
  show "searchable y \<and> m = y \<or> last_version ms m \<and> \<not> (searchable y \<and> m_msgid y = m_msgid m)"
  proof (cases vs rule: rev_cases)
    case Nil
    with u show ?thesis by simp
  next
    case (snoc vs' z)
    with u(2) have "ms = us @ m # vs'" "z = y" by simp_all
    with u(1,3) snoc show ?thesis unfolding last_version_def by auto
  qed
next
  assume "searchable y \<and> m = y \<or> last_version ms m \<and> \<not> (searchable y \<and> m_msgid y = m_msgid m)"
  then show "last_version (ms @ [y]) m"
  proof
    assume "searchable y \<and> m = y"
    then show ?thesis unfolding last_version_def by (intro conjI exI [of _ ms] exI [of _ "[]"]) auto
  next
    assume l: "last_version ms m \<and> \<not> (searchable y \<and> m_msgid y = m_msgid m)"
    then obtain us vs where "searchable m" "ms = us @ m # vs" "\<forall>x \<in> set vs. searchable x \<longrightarrow> m_msgid x \<noteq> m_msgid m"
      by (auto simp: last_version_def)
    with l show ?thesis unfolding last_version_def by (intro conjI exI [of _ us] exI [of _ "vs @ [y]"]) auto
  qed
qed

lemma put_message_set:
  assumes "distinct (map m_msgid xs)" and "m_msgid m = i"
  shows "set (put_message i m xs) = insert m {x \<in> set xs. m_msgid x \<noteq> i}" and "distinct (map m_msgid (put_message i m xs))"
proof -
  show *: "set (put_message i m xs) = insert m {x \<in> set xs. m_msgid x \<noteq> i}"
    using assms(1) by (induction xs) (auto simp: assms(2), metis image_eqI)
  show "distinct (map m_msgid (put_message i m xs))"
    using assms
  proof (induction xs)
    case (Cons x xs)
    have "set (put_message i m xs) \<subseteq> insert m (set xs)" by (induction xs) auto
    with Cons show ?case by auto
  qed simp
qed

lemma erase_message_set:
  assumes "distinct (map m_msgid xs)"
  shows "set (erase_message i xs) = {x \<in> set xs. m_msgid x \<noteq> i}" and "distinct (map m_msgid (erase_message i xs))"
proof -
  show *: "set (erase_message i xs) = {x \<in> set xs. m_msgid x \<noteq> i}" using assms by (induction xs) (auto, metis image_eqI)
  have "set (erase_message i xs) \<subseteq> set xs" for xs by (induction xs) auto
  then show "distinct (map m_msgid (erase_message i xs))" using assms by (induction xs) fastforce+
qed

lemma stored_id [simp]: "m_msgid (message_stored jk env m) = m_msgid m"
  by (simp add: message_stored_def)

lemma search_fold_found:
  fixes env cenv cs contact tops found
  assumes "found_in found contact = []"
  defines "F ms \<equiv> found_in (snd (fold (search_step env cenv cs contact) ms (tops, found))) contact"
  shows "distinct (map m_msgid (F ms))"
    and "set (F ms) = message_stored (junk env) env ` {m. last_version ms m \<and> text_has cenv cs (m_text m)}"
proof -
  have "distinct (map m_msgid (F ms)) \<and>
    set (F ms) = message_stored (junk env) env ` {m. last_version ms m \<and> text_has cenv cs (m_text m)}"
  proof (induction ms rule: rev_induct)
    case Nil
    then show ?case using assms(1) by (simp add: F_def)
  next
    case (snoc y ms)
    obtain t f where tf: "fold (search_step env cenv cs contact) ms (tops, found) = (t, f)" by fastforce
    have F: "F ms = found_in f contact" by (simp add: F_def tf)
    show ?case
    proof (cases "searchable y")
      case False
      then have "F (ms @ [y]) = F ms" by (simp add: F_def tf search_step_def)
      then show ?thesis using snoc False by (simp add: last_version_snoc)
    next
      case True
      show ?thesis
      proof (cases "text_has cenv cs (m_text y)")
        case has: True
        have "F (ms @ [y]) = put_message (m_msgid y) (message_stored (junk env) env y) (F ms)"
          using True has by (simp add: F_def tf search_step_def)
        moreover note put_message_set [of "F ms" "message_stored (junk env) env y" "m_msgid y"]
        ultimately show ?thesis using snoc True has by (auto simp: last_version_snoc image_iff)
      next
        case no: False
        have "F (ms @ [y]) = erase_message (m_msgid y) (F ms)"
          using True no by (simp add: F_def tf search_step_def)
        moreover note erase_message_set [of "F ms" "m_msgid y"]
        ultimately show ?thesis using snoc True no by (auto simp: last_version_snoc image_iff)
      qed
    qed
  qed
  then show "distinct (map m_msgid (F ms))"
    and "set (F ms) = message_stored (junk env) env ` {m. last_version ms m \<and> text_has cenv cs (m_text m)}" by simp_all
qed

lemma search_fold_other:
  "c \<noteq> contact \<Longrightarrow> found_in (snd (fold (search_step env cenv cs contact) ms (tops, found))) c = found_in found c"
proof (induction ms arbitrary: tops found)
  case (Cons m ms)
  obtain t f where tf: "search_step env cenv cs contact m (tops, found) = (t, f)" by fastforce
  with Cons.prems have "found_in f c = found_in found c"
    by (auto simp: search_step_def put_found_def erase_found_def found_in_def split: if_splits option.splits)
  with Cons tf show ?case by simp
qed simp

lemma search_fold_ids: "length (fst (fold (search_step env cenv cs contact) ms (tops, found))) \<le> length tops + length ms"
proof (induction ms arbitrary: tops found)
  case (Cons m ms)
  obtain t f where tf: "search_step env cenv cs contact m (tops, found) = (t, f)" by fastforce
  have "length t \<le> length tops + 1" using search_step_ids [of env cenv cs contact m tops found] tf by simp
  with Cons.IH [of t f] tf show ?case by simp
qed simp

subsection \<open>Several contacts\<close>

text \<open>The pieces of the contacts one after the other, and where each begins.\<close>

type_synonym pieces = "(cstring \<times> history_message list) list"

fun archive_of :: "message_env \<Rightarrow> nat \<Rightarrow> pieces \<Rightarrow> (cstring \<times> nat) list" where
  "archive_of env n [] = [([], n)]"
| "archive_of env n ((c, ms) # rest) = (c, n) # archive_of env (n + length (log_of env ms)) rest"

definition bytes_of :: "message_env \<Rightarrow> pieces \<Rightarrow> byte list" where
  "bytes_of env cms = concat (map (log_of env \<circ> snd) cms)"

lemma archive_of_cons: "\<exists>c rest. archive_of env n cms = (c, n) # rest"
  by (cases cms) auto

definition search_steps ::
  "message_env \<Rightarrow> case_env \<Rightarrow> cstring list \<Rightarrow> pieces \<Rightarrow> int list \<times> found_messages \<Rightarrow> int list \<times> found_messages" where
  "search_steps env cenv cs cms st = fold (\<lambda>(c, ms). fold (search_step env cenv cs c) ms) cms st"

lemma next_offset_shift: "next_offset c n (n + k) off = next_offset c 0 k off"
  by (simp add: next_offset_def)

lemma search_contacts_messages:
  assumes "list_all (list_all (to_search env min_id) \<circ> snd) cms" and "term_ok cenv cs" and "coded_of cenv cs tc"
    and "buffer data = pre @ bytes_of env cms @ post" and "length tops + sum_list (map (length \<circ> snd) cms) \<le> limit_search_results + 1"
    and "length offs = length cms"
  shows "\<exists>data'. search_contacts env tc min_id (archive_of env (length pre) cms) offs (data, tops, found) =
    Some (map2 (\<lambda>(c, ms) off. next_offset c 0 (length (log_of env ms)) off) cms offs, data', search_steps env cenv cs cms (tops, found))"
  using assms(1,4-6)
proof (induction cms arbitrary: pre data tops found offs)
  case Nil
  then show ?case by (simp add: search_steps_def)
next
  case (Cons cm cms)
  obtain c ms where cm: "cm = (c, ms)" by fastforce
  obtain off offs' where offs: "offs = off # offs'" "length offs' = length cms" using Cons.prems(4) by (cases offs) auto
  have buf: "buffer data = pre @ log_of env ms @ bytes_of env cms @ post" using Cons.prems(2) cm by (simp add: bytes_of_def)
  have ms: "list_all (to_search env min_id) ms" using Cons.prems(1) cm by simp
  have few: "length tops + length ms \<le> limit_search_results + 1" using Cons.prems(3) cm by simp
  obtain t f where tf: "fold (search_step env cenv cs c) ms (tops, found) = (t, f)" by fastforce
  obtain data' where one: "buffer data' = buffer data"
    "search_contact env tc min_id c (length pre) 0 (length (pre @ log_of env ms)) (data, tops, found) =
      Some (length (pre @ log_of env ms), data', (t, f))"
    using search_contact_run [OF ms assms(2,3) buf, of c 0 tops found] limited_fold [OF few, of env cenv cs c found] tf by auto
  have "length t \<le> length tops + length ms" using search_fold_ids [of env cenv cs c ms tops found] tf by simp
  then have few': "length t + sum_list (map (length \<circ> snd) cms) \<le> limit_search_results + 1" using Cons.prems(3) cm by (simp add: comp_def)
  have buf': "buffer data' = (pre @ log_of env ms) @ bytes_of env cms @ post" using one(1) buf by simp
  have all: "list_all (list_all (to_search env min_id) \<circ> snd) cms" using Cons.prems(1) by (simp add: comp_def)
  from Cons.IH [OF all buf' few' offs(2), of f] obtain data'' where rest:
    "search_contacts env tc min_id (archive_of env (length (pre @ log_of env ms)) cms) offs' (data', t, f) =
      Some (map2 (\<lambda>(c, ms) off. next_offset c 0 (length (log_of env ms)) off) cms offs', data'', search_steps env cenv cs cms (t, f))"
    by blast
  obtain c' arch where arch: "archive_of env (length (pre @ log_of env ms)) cms = (c', length (pre @ log_of env ms)) # arch"
    using archive_of_cons by blast
  have "archive_of env (length pre) (cm # cms) = (c, length pre) # (c', length (pre @ log_of env ms)) # arch"
    using arch cm by simp
  then show ?case
    using one(2) rest arch tf cm offs(1) by (simp add: search_steps_def next_offset_shift)
qed

lemma search_steps_found:
  assumes "distinct (map fst cms)" and "(c, ms) \<in> set cms" and "found_in found c = []"
  shows "distinct (map m_msgid (found_in (snd (search_steps env cenv cs cms (tops, found))) c)) \<and>
    set (found_in (snd (search_steps env cenv cs cms (tops, found))) c) =
      message_stored (junk env) env ` {m. last_version ms m \<and> text_has cenv cs (m_text m)}"
  using assms
proof (induction cms arbitrary: tops found)
  case (Cons cm cms)
  obtain c' ms' where cm: "cm = (c', ms')" by fastforce
  obtain t f where tf: "fold (search_step env cenv cs c') ms' (tops, found) = (t, f)" by fastforce
  have rest: "c \<notin> fst ` set cms' \<Longrightarrow> found_in (snd (search_steps env cenv cs cms' (t, f))) c = found_in f c" for cms' t f
  proof (induction cms' arbitrary: t f)
    case (Cons x xs)
    obtain c1 ms1 where x: "x = (c1, ms1)" by fastforce
    obtain t1 f1 where t1: "fold (search_step env cenv cs c1) ms1 (t, f) = (t1, f1)" by fastforce
    have "c \<noteq> c1" using Cons.prems x by auto
    then have "found_in f1 c = found_in f c" using search_fold_other [of c c1 env cenv cs ms1 t f] t1 by simp
    then show ?case using Cons.IH [of t1 f1] Cons.prems x t1 by (simp add: search_steps_def)
  qed (simp add: search_steps_def)
  show ?case
  proof (cases "c = c'")
    case True
    then have "ms' = ms" "c \<notin> fst ` set cms" using Cons.prems(1,2) cm by (auto simp: image_iff)
    then show ?thesis
      using search_fold_found [OF Cons.prems(3), of env cenv cs ms tops] rest [of cms t f] tf True cm
      by (simp add: search_steps_def)
  next
    case False
    then have "(c, ms) \<in> set cms" "found_in f c = []"
      using Cons.prems(2,3) cm search_fold_other [OF False, of env cenv cs ms' tops found] tf by auto
    then show ?thesis using Cons.IH [of f t] Cons.prems(1) cm tf by (simp add: search_steps_def)
  qed
qed simp

lemma search_finds:
  assumes "term_ok cenv cs" and "coded_of cenv cs tc" and "distinct (map fst cms)"
    and "list_all (list_all (to_search env min_id) \<circ> snd) cms"
    and "sum_list (map (length \<circ> snd) cms) \<le> limit_search_results + 1"
    and "buffer data = bytes_of env cms @ post" and "length offs = length cms"
  shows "\<exists>found. search_in_archive env tc min_id (archive_of env 0 cms) offs data Map.empty =
      Some (map2 (\<lambda>(c, ms) off. next_offset c 0 (length (log_of env ms)) off) cms offs, found) \<and>
    (\<forall>c ms. (c, ms) \<in> set cms \<longrightarrow> distinct (map m_msgid (found_in found c)) \<and>
      set (found_in found c) = message_stored (junk env) env ` {m. last_version ms m \<and> text_has cenv cs (m_text m)})"
proof -
  have "buffer data = [] @ bytes_of env cms @ post" using assms(6) by simp
  from search_contacts_messages [OF assms(4,1,2) this _ assms(7), of "[]" Map.empty] assms(5) obtain data' where
    "search_contacts env tc min_id (archive_of env 0 cms) offs (data, [], Map.empty) =
      Some (map2 (\<lambda>(c, ms) off. next_offset c 0 (length (log_of env ms)) off) cms offs, data',
        search_steps env cenv cs cms ([], Map.empty))"
    by auto
  moreover have "found_in Map.empty c = []" for c by (simp add: found_in_def)
  ultimately show ?thesis
    using search_steps_found [OF assms(3), of _ _ Map.empty env cenv cs "[]"]
    by (auto simp: search_in_archive_def case_prod_beta)
qed

subsection \<open>The pieces of the files\<close>

text \<open>
  \<open>get_history_archive\<close> reads the next piece of a message file into the common buffer: the offset, the
  bytes that may still be read, the write position and the mode of the contact are shared variables of
  the code and are passed and returned here. \<open>None\<close> for the file is one that cannot be opened.
\<close>

definition archive_block_size :: nat where
  "archive_block_size = 4 * 1024 * 1024"

definition get_history_archive ::
  "byte list option \<Rightarrow> binary_stream \<Rightarrow> int \<Rightarrow> int \<Rightarrow> nat \<Rightarrow> int \<Rightarrow> (bool \<times> binary_stream \<times> int \<times> int \<times> nat \<times> int) option" where
  "get_history_archive fl data offset remaining cur mode =
    (let init_size = (case fl of None \<Rightarrow> -1 | Some c \<Rightarrow> int (length c));
         size = min remaining (init_size - offset);
         limit = int archive_block_size
     in if size \<le> 0 \<or> init_size = -1 then Some (False, data, -1, remaining, cur, mode)
        else let (offset, mode) =
               (if mode = 0
                then if limit < init_size \<and> offset + limit < init_size then (init_size - limit, mode) else (offset, 1)
                else (offset, mode))
          in if offset < 0 then Some (False, data, offset, remaining, cur, mode)
             else let chunk = take (nat size) (drop (nat offset) (the fl))
               in if length (buffer data) < cur + length chunk then None
                  else let data = bs_fill cur chunk data
                    in if length chunk < nat size then Some (False, data, offset, remaining, cur, mode)
                       else Some (True, data, (if size = init_size - offset then -1 else offset), remaining - size,
                              cur + nat size, mode))"

text \<open>\<open>get_history_file\<close> of \<open>local_history.cpp\<close>, which does not look at the result.\<close>

definition contact_folder :: "cstring \<Rightarrow> cstring" where
  "contact_folder = map (\<lambda>ch. if ch = CHR ''|'' then CHR ''_'' else ch)"

definition get_history_file ::
  "(cstring \<Rightarrow> byte list option) \<Rightarrow> cstring \<Rightarrow> binary_stream \<Rightarrow> int \<Rightarrow> int \<Rightarrow> nat \<Rightarrow> int \<Rightarrow>
     (bool \<times> binary_stream \<times> int \<times> int \<times> nat \<times> int) option" where
  "get_history_file files contact data offset remaining cur mode =
    map_option (\<lambda>(_, rest). (True, rest)) (get_history_archive (files (contact_folder contact)) data offset remaining cur mode)"

text \<open>
  The loop of \<open>face::get_history_block\<close> over the contacts with their modes and offsets; the contacts
  that were not reached are returned for a later call.
\<close>

type_synonym contact_and_offset = "cstring \<times> int \<times> int"

fun read_pieces ::
  "(cstring \<Rightarrow> byte list option) \<Rightarrow> (nat \<Rightarrow> bool) \<Rightarrow> nat \<Rightarrow> int \<Rightarrow> nat \<Rightarrow> binary_stream \<Rightarrow> contact_and_offset list \<Rightarrow>
     (bool \<times> (cstring \<times> nat) list \<times> contact_and_offset list \<times> contact_and_offset list \<times> binary_stream) option" where
  "read_pieces files cancel i remain_size cur data [] = Some (True, [([], cur)], [], [], data)"
| "read_pieces files cancel i remain_size cur data ((contact, mode, offset) # contacts) =
    (if remain_size \<le> 0 then Some (True, [([], cur)], [], (contact, mode, offset) # contacts, data)
     else if cancel i then Some (False, [], [], (contact, mode, offset) # contacts, data)
     else do {
       (ok, data, offset, remain_size, cur', mode) \<leftarrow> get_history_file files contact data offset remain_size cur mode;
       let offset = (if \<not> ok then -2 else offset);
       (finished, arch, read, remaining, data) \<leftarrow> read_pieces files cancel (i + 1) remain_size cur' data contacts;
       Some (finished, (contact, cur) # arch, (contact, mode, offset) # read, remaining, data) })"

definition get_history_block ::
  "(cstring \<Rightarrow> byte list option) \<Rightarrow> (nat \<Rightarrow> bool) \<Rightarrow> binary_stream \<Rightarrow> contact_and_offset list \<Rightarrow>
     (bool \<times> (cstring \<times> nat) list \<times> contact_and_offset list \<times> contact_and_offset list \<times> binary_stream) option" where
  "get_history_block files cancel data contacts = read_pieces files cancel 0 (int archive_block_size) 0 data contacts"

lemma whole_file:
  assumes "files (contact_folder c) = Some bs" and "int (length bs) \<le> remaining" and "length bs \<le> archive_block_size"
    and "cur + length bs \<le> length (buffer data)"
  shows "get_history_file files c data 0 remaining cur 0 =
    Some (True, (if bs = [] then data else bs_fill cur bs data), -1, remaining - int (length bs), cur + length bs, if bs = [] then 0 else 1)"
  using assms by (auto simp: get_history_file_def get_history_archive_def Let_def min_def)

lemma bs_fill_buffer: "buffer (bs_fill n d s) = overwrite (buffer s) n d"
  by (simp add: bs_fill_def)

lemma read_whole_files:
  assumes "\<forall>(c, ms) \<in> set cms. files (contact_folder c) = Some (log_of env ms)"
    and "int (length (bytes_of env cms)) < remaining" and "length (bytes_of env cms) \<le> archive_block_size"
    and "length pre + length (bytes_of env cms) \<le> length (buffer data)" and "take (length pre) (buffer data) = pre"
  shows "\<exists>data' post modes. buffer data' = pre @ bytes_of env cms @ post \<and> length modes = length cms \<and>
    read_pieces files (\<lambda>_. False) i remaining (length pre) data (map (\<lambda>(c, _). (c, 0, 0)) cms) =
      Some (True, archive_of env (length pre) cms, map2 (\<lambda>(c, _) m. (c, m, -1)) cms modes, [], data')"
  using assms
proof (induction cms arbitrary: pre i remaining data)
  case Nil
  then have "buffer data = pre @ drop (length pre) (buffer data)" by (metis append_take_drop_id)
  then show ?case by (auto simp: bytes_of_def)
next
  case (Cons cm cms)
  obtain c ms where cm: "cm = (c, ms)" by fastforce
  let ?bs = "log_of env ms"
  have bytes: "bytes_of env (cm # cms) = ?bs @ bytes_of env cms" by (simp add: cm bytes_of_def)
  let ?data = "if ?bs = [] then data else bs_fill (length pre) ?bs data"
  have one: "get_history_file files c data 0 remaining (length pre) 0 =
      Some (True, ?data, -1, remaining - int (length ?bs), length (pre @ ?bs), if ?bs = [] then 0 else 1)"
    using whole_file [of files c ?bs remaining "length pre" data] Cons.prems cm bytes by auto
  have buf: "take (length (pre @ ?bs)) (buffer ?data) = pre @ ?bs" "length (buffer ?data) = length (buffer data)"
    using Cons.prems(4,5) bytes by (auto simp: bs_fill_buffer overwrite_def)
  have "int (length (bytes_of env cms)) < remaining - int (length ?bs)" "length (bytes_of env cms) \<le> archive_block_size"
    "length (pre @ ?bs) + length (bytes_of env cms) \<le> length (buffer ?data)"
    using Cons.prems(2-4) bytes buf(2) by simp_all
  from Cons.IH [OF _ this buf(1), of "i + 1"] Cons.prems(1) obtain data' post modes where rest:
    "buffer data' = (pre @ ?bs) @ bytes_of env cms @ post" "length modes = length cms"
    "read_pieces files (\<lambda>_. False) (i + 1) (remaining - int (length ?bs)) (length (pre @ ?bs)) ?data (map (\<lambda>(c, _). (c, 0, 0)) cms) =
      Some (True, archive_of env (length (pre @ ?bs)) cms, map2 (\<lambda>(c, _) m. (c, m, -1)) cms modes, [], data')"
    by auto
  have "\<not> remaining \<le> 0" using Cons.prems(2) by linarith
  with one rest show ?case
    by (intro exI [of _ data'] exI [of _ post] exI [of _ "(if ?bs = [] then 0 else 1) # modes"]) (simp add: cm bytes [unfolded cm])
qed

subsection \<open>Properties\<close>

text \<open>
  C11: searching the message files of several contacts finds what is there. The files, which together fit
  into one block of 4 MB, are read into the buffer whole, the search through the buffer returns, and for
  every contact it leaves exactly the messages whose last version has the term in its text, in lower or
  upper case, each id once, as they are stored; stickers, events of the chat and messages without a text
  are passed over. No more than 101 messages are looked at, so that the limit of the results does not
  come into play. Nothing is left to be read: all offsets are -1.
\<close>

theorem search_files_find:
  assumes "term_ok cenv cs" and "coded_of cenv cs tc" and "distinct (map fst cms)"
    and "list_all (list_all (to_search env min_id) \<circ> snd) cms"
    and "sum_list (map (length \<circ> snd) cms) \<le> limit_search_results + 1"
    and "\<forall>(c, ms) \<in> set cms. files (contact_folder c) = Some (log_of env ms)"
    and "length (bytes_of env cms) < archive_block_size" and "archive_block_size \<le> length (buffer data)"
  shows "\<exists>arch read data' found.
    get_history_block files (\<lambda>_. False) data (map (\<lambda>(c, _). (c, 0, 0)) cms) = Some (True, arch, read, [], data') \<and>
    search_in_archive env tc min_id arch (map (snd \<circ> snd) read) data' Map.empty = Some (map (\<lambda>_. -1) cms, found) \<and>
    (\<forall>c ms. (c, ms) \<in> set cms \<longrightarrow> distinct (map m_msgid (found_in found c)) \<and>
      set (found_in found c) = message_stored (junk env) env ` {m. last_version ms m \<and> text_has cenv cs (m_text m)})"
proof -
  from read_whole_files [OF assms(6), of "int archive_block_size" "[]" data 0] assms(7,8) obtain data' post modes where r:
    "buffer data' = bytes_of env cms @ post" "length modes = length cms"
    "get_history_block files (\<lambda>_. False) data (map (\<lambda>(c, _). (c, 0, 0)) cms) =
      Some (True, archive_of env 0 cms, map2 (\<lambda>(c, _) m. (c, m, -1)) cms modes, [], data')"
    by (auto simp: get_history_block_def)
  let ?read = "map2 (\<lambda>(c, _) m. (c, m, -1 :: int)) cms modes"
  have offs: "map (snd \<circ> snd) ?read = map (\<lambda>_. -1) cms"
    using r(2) by (induction cms modes rule: list_induct2') auto
  have next': "map2 (\<lambda>(c, ms) off. next_offset c 0 (length (log_of env ms)) off) cms (map (\<lambda>_. -1) cms) = map (\<lambda>_. -1) cms"
    by (induction cms) (auto simp: next_offset_def)
  have "length (map (\<lambda>_. -1 :: int) cms) = length cms" by simp
  from search_finds [OF assms(1-5) r(1) this, unfolded next'] obtain found where
    "search_in_archive env tc min_id (archive_of env 0 cms) (map (\<lambda>_. -1) cms) data' Map.empty = Some (map (\<lambda>_. -1) cms, found)"
    "\<forall>c ms. (c, ms) \<in> set cms \<longrightarrow> distinct (map m_msgid (found_in found c)) \<and>
      set (found_in found c) = message_stored (junk env) env ` {m. last_version ms m \<and> text_has cenv cs (m_text m)}"
    by blast
  with r(3) show ?thesis
    by (intro exI [of _ "archive_of env 0 cms"] exI [of _ ?read] exI [of _ data'] exI [of _ found] conjI) (simp_all only: offs)
qed

text \<open>
  C12: the limit of the results loses matches. A message that is newer than the oldest id that is kept
  takes the place of that id before its text is looked at, and keeps it when the text does not have the
  term; a match between the two, which would have been kept, is then older than all ids and is skipped.
\<close>

theorem search_displaces:
  assumes "term_ok cenv cs" and "coded_of cenv cs tc" and "list_all (to_search env min_id) [m1, m2]"
    and "searchable m1" and "\<not> text_has cenv cs (m_text m1)" and "searchable m2" and "text_has cenv cs (m_text m2)"
    and "limit_search_results < length (ids @ [oldest])" and "oldest < m_msgid m2" and "m_msgid m2 < m_msgid m1"
    and "\<forall>k \<in> set ids. m_msgid m2 < k \<and> k \<noteq> m_msgid m1"
  shows "(\<exists>data st. buffer data = log_of env [m1, m2] \<and>
      search_contact env tc min_id contact 0 0 (length (log_of env [m1, m2])) (data, ids @ [oldest], found) = Some st \<and>
      found_in (snd (snd (snd st))) contact = erase_message (m_msgid m1) (found_in found contact)) \<and>
    (\<exists>data st. buffer data = log_of env [m2] \<and>
      search_contact env tc min_id contact 0 0 (length (log_of env [m2])) (data, ids @ [oldest], found) = Some st \<and>
      found_in (snd (snd (snd st))) contact = put_message (m_msgid m2) (message_stored (junk env) env m2) (found_in found contact))"
proof -
  have len: "length (top_insert i ids) = length ids + 1" if "i \<notin> set ids" for i
    using that by (induction ids) auto
  have set: "set (top_insert i ids) = insert i (set ids)" for i by (induction ids) auto
  have room1: "make_room (m_msgid m1) (ids @ [oldest]) = Some (top_insert (m_msgid m1) ids)"
    using assms(8-10) by (auto simp: make_room_def)
  have "m_msgid m1 \<notin> set ids" using assms(11) by auto
  then have room2: "make_room (m_msgid m2) (top_insert (m_msgid m1) ids) = None"
    using assms(8,10,11) len set by (force simp: make_room_def)
  have room2': "make_room (m_msgid m2) (ids @ [oldest]) = Some (top_insert (m_msgid m2) ids)"
    using assms(8,9) by (auto simp: make_room_def)
  note eval = limited_step_def search_step_def room1 room2 room2' assms(4-7)
  have only: "list_all (to_search env min_id) [m2]" using assms(3) by simp
  let ?s = "\<lambda>ms. bs_new\<lparr>buffer := log_of env ms\<rparr>"
  have "buffer (?s ms) = [] @ log_of env ms @ []" for ms by simp
  note run = search_contact_run [OF _ assms(1,2) this, of min_id _ contact 0 "ids @ [oldest]" found]
  obtain d1 where d1: "search_contact env tc min_id contact 0 0 (length (log_of env [m1, m2])) (?s [m1, m2], ids @ [oldest], found) =
      Some (length (log_of env [m1, m2]), d1, fold (limited_step env cenv cs contact) [m1, m2] (ids @ [oldest], found))"
    using run [OF assms(3)] by auto
  obtain d2 where d2: "search_contact env tc min_id contact 0 0 (length (log_of env [m2])) (?s [m2], ids @ [oldest], found) =
      Some (length (log_of env [m2]), d2, fold (limited_step env cenv cs contact) [m2] (ids @ [oldest], found))"
    using run [OF only] by auto
  have f1: "found_in (snd (fold (limited_step env cenv cs contact) [m1, m2] (ids @ [oldest], found))) contact =
      erase_message (m_msgid m1) (found_in found contact)" by (simp add: eval)
  have f2: "found_in (snd (fold (limited_step env cenv cs contact) [m2] (ids @ [oldest], found))) contact =
      put_message (m_msgid m2) (message_stored (junk env) env m2) (found_in found contact)" by (simp add: eval)
  have buf: "buffer (?s ms) = log_of env ms" for ms by simp
  from buf d1 f1 buf d2 f2 show ?thesis by (metis snd_conv)
qed

definition two_messages :: pieces where
  "two_messages = [(''ann'', [plain_message 7 ''hello'', plain_message 9 ''world''])]"

lemma ascii_text: "\<forall>c \<in> set s. of_char c < (128 :: nat) \<Longrightarrow> utf8_text s"
  unfolding utf8_text_def by (rule exI [of _ "map (\<lambda>c. [c]) s"]) (auto simp: utf8_char_def utf8_char_size_def Let_def)

lemma plain_to_search:
  assumes "0 < i" and "i < 1000" and "t \<in> {''hello'', ''world'', ''h''}"
  shows "to_search echo_env 0 (plain_message i t)"
  using assms ascii_text [of t]
  by (auto simp: to_search_def archivable_def plain_message_def message_bytes_def max_data_block_size_def storable_eval part_def)

lemma term_or_ok: "term_ok ascii_case [''o'', ''r'']"
proof -
  have "case_regular ascii_case [''o'', ''r'']" by code_simp
  then show ?thesis by (simp add: term_ok_def utf8_char_def utf8_char_size_def)
qed

definition ann_file :: "cstring \<Rightarrow> byte list option" where
  "ann_file f = (if f = ''ann'' then Some (bytes_of echo_env two_messages) else None)"

theorem search_files_find_witness:
  "\<exists>tc arch read data' found.
    get_history_block ann_file (\<lambda>_. False) (bs_new\<lparr>buffer := replicate archive_block_size NUL\<rparr>) [(''ann'', 0, 0)] =
      Some (True, arch, read, [], data') \<and>
    search_in_archive echo_env tc 0 arch (map (snd \<circ> snd) read) data' Map.empty = Some ([-1], found) \<and>
    distinct (map m_msgid (found_in found ''ann''))"
proof -
  obtain tc where tc: "coded_of ascii_case [''o'', ''r''] tc" using term_coded_exists [OF term_or_ok] by blast
  have all: "list_all (list_all (to_search echo_env 0) \<circ> snd) two_messages"
    using plain_to_search [of 7 "''hello''"] plain_to_search [of 9 "''world''"] by (simp add: two_messages_def)
  have few: "distinct (map fst two_messages)" "sum_list (map (length \<circ> snd) two_messages) \<le> limit_search_results + 1"
    by (simp_all add: two_messages_def limit_search_results_def)
  have files: "\<forall>(c, ms) \<in> set two_messages. ann_file (contact_folder c) = Some (log_of echo_env ms)"
    by (simp add: two_messages_def ann_file_def contact_folder_def bytes_of_def)
  have "length (message_bytes echo_env (plain_message 7 ''hello'')) \<le> 1000" "length (message_bytes echo_env (plain_message 9 ''world'')) \<le> 1000"
    by (simp_all add: plain_message_def message_bytes_def storable_eval part_def)
  then have "length (bytes_of echo_env two_messages) < archive_block_size"
    by (simp add: two_messages_def bytes_of_def archive_block_size_def)
  from search_files_find [OF term_or_ok tc few(1) all few(2) files this, of "bs_new\<lparr>buffer := replicate archive_block_size NUL\<rparr>"]
  show ?thesis by (fastforce simp: two_messages_def)
qed

theorem search_displaces_witness:
  "\<exists>tc data st. buffer data = log_of echo_env [plain_message 300 ''h'', plain_message 15 ''world''] \<and>
      search_contact echo_env tc 0 ''ann'' 0 0 (length (log_of echo_env [plain_message 300 ''h'', plain_message 15 ''world'']))
        (data, map int (rev [20..<120]) @ [10], Map.empty) = Some st \<and>
      found_in (snd (snd (snd st))) ''ann'' = []"
proof -
  obtain tc where tc: "coded_of ascii_case [''o'', ''r''] tc" using term_coded_exists [OF term_or_ok] by blast
  have o: "occurs ascii_case [''o'', ''r''] [''w'', ''o'', ''r'', ''l'', ''d'']"
    unfolding occurs_def
    by (rule exI [of _ "[''w'']"], rule exI [of _ "[''o'', ''r'']"], rule exI [of _ "[''l'', ''d'']"]) code_simp
  have h: "\<not> occurs ascii_case [''o'', ''r''] [''h'']"
    by (auto simp: occurs_def list_all2_Cons1 Cons_eq_append_conv)
  have chars: "\<forall>x \<in> set [''w'', ''o'', ''r'', ''l'', ''d'']. utf8_char x" "\<forall>x \<in> set [''h'']. utf8_char x"
    by (simp_all add: utf8_char_def utf8_char_size_def)
  have texts: "text_has ascii_case [''o'', ''r''] ''world''" "\<not> text_has ascii_case [''o'', ''r''] ''h''"
    using text_has_concat [OF chars(1), of ascii_case "[''o'', ''r'']"] text_has_concat [OF chars(2), of ascii_case "[''o'', ''r'']"] o h
    by simp_all
  have msg: "searchable (plain_message i t) \<longleftrightarrow> t \<noteq> []" "m_text (plain_message i t) = t" "m_msgid (plain_message i t) = i" for i t
    by (simp_all add: plain_message_def searchable_def)
  have look: "list_all (to_search echo_env 0) [plain_message 300 ''h'', plain_message 15 ''world'']"
    using plain_to_search [of 300 "''h''"] plain_to_search [of 15 "''world''"] by simp
  have ids: "limit_search_results < length (map int (rev [20..<120]) @ [10])"
    "\<forall>k \<in> set (map int (rev [20..<120])). m_msgid (plain_message 15 ''world'') < k \<and> k \<noteq> m_msgid (plain_message 300 ''h'')"
    by (auto simp: limit_search_results_def msg)
  have "\<exists>data st. buffer data = log_of echo_env [plain_message 300 ''h'', plain_message 15 ''world''] \<and>
      search_contact echo_env tc 0 ''ann'' 0 0 (length (log_of echo_env [plain_message 300 ''h'', plain_message 15 ''world'']))
        (data, map int (rev [20..<120]) @ [10], Map.empty) = Some st \<and>
      found_in (snd (snd (snd st))) ''ann'' = erase_message (m_msgid (plain_message 300 ''h'')) (found_in Map.empty ''ann'')"
    by (rule search_displaces [OF term_or_ok tc look _ _ _ _ ids(1) _ _ ids(2), THEN conjunct1]) (use texts in \<open>simp_all add: msg\<close>)
  moreover have "found_in Map.empty ''ann'' = []" by (simp add: found_in_def)
  ultimately show ?thesis by (metis erase_message.simps(1))
qed

end
