(* ===== verification/Dlg_State.thy ===== *)
theory Dlg_State
  imports Message_Store
begin

text \<open>
  The state of a dialog (\<open>core/archive/dlg_state.cpp\<close>): the class \<open>dlg_state\<close> with its binary format, and
  the class \<open>archive_state\<close>, which keeps the state of a contact in memory and in a file of one block, and
  merges what the server sends into it.

  A state that was not loaded is \<open>None\<close>, the null pointer of the code. What the local time functions make
  of the clock is an argument, \<open>None\<close> when they fail. The conversion to collections of the user interface
  is not part of the model.
\<close>

declare map_of_append [simp del]

subsection \<open>The state\<close>

datatype topic_type = topic_invalid | topic_message | topic_task

record thread_parent_topic =
  tp_type :: topic_type
  tp_chat_id :: cstring
  tp_msg_id :: int
  tp_task_id :: cstring

definition topic_new :: thread_parent_topic where
  "topic_new = \<lparr>tp_type = topic_invalid, tp_chat_id = [], tp_msg_id = -1, tp_task_id = []\<rparr>"

definition topic_is_valid :: "thread_parent_topic \<Rightarrow> bool" where
  "topic_is_valid t \<longleftrightarrow> tp_type t = topic_message \<and> tp_chat_id t \<noteq> [] \<or> tp_type t = topic_task \<and> tp_task_id t \<noteq> []"

definition create_message_topic :: "cstring \<Rightarrow> int \<Rightarrow> thread_parent_topic" where
  "create_message_topic chat_aimid msg_id =
    topic_new\<lparr>tp_chat_id := chat_aimid, tp_msg_id := msg_id, tp_type := topic_message\<rparr>"

datatype draft_state = draft_local | draft_syncing | draft_synced | draft_other int

record draft =
  d_state :: draft_state
  d_timestamp :: int
  d_local_timestamp :: int
  d_message :: "history_message option"
  d_friendly :: cstring

definition draft_new :: draft where
  "draft_new = \<lparr>d_state = draft_local, d_timestamp = 0, d_local_timestamp = 0, d_message = None, d_friendly = []\<rparr>"

type_synonym dlg_state_head = "cstring \<times> cstring"

record dlg_state =
  ds_unread_count :: "u32 option"
  ds_unread_mentions_count :: "int option"
  ds_info_version :: "cstring option"
  ds_members_version :: "cstring option"
  ds_last_read_mention :: int
  ds_last_msgid :: int
  ds_yours_last_read :: int
  ds_del_up_to :: int
  ds_theirs_last_read :: int
  ds_theirs_last_delivered :: int
  ds_hidden_msg_id :: int
  ds_visible :: bool
  ds_fake :: bool
  ds_official :: bool
  ds_suspicious :: bool
  ds_attention :: bool
  ds_stranger :: bool
  ds_no_recents_update :: bool
  ds_last_message :: history_message
  ds_pinned_message :: history_message
  ds_draft :: "draft option"
  ds_parent_topic :: "thread_parent_topic option"
  ds_friendly :: cstring
  ds_history_patch_version :: patch_version
  ds_patch_version :: cstring
  ds_heads :: "dlg_state_head list"

definition dlg_new :: dlg_state where
  "dlg_new = \<lparr>ds_unread_count = Some 0, ds_unread_mentions_count = Some 0, ds_info_version = None,
     ds_members_version = None, ds_last_read_mention = -1, ds_last_msgid = -1, ds_yours_last_read = -1,
     ds_del_up_to = -1, ds_theirs_last_read = -1, ds_theirs_last_delivered = -1, ds_hidden_msg_id = -1,
     ds_visible = True, ds_fake = False, ds_official = False, ds_suspicious = False, ds_attention = False,
     ds_stranger = False, ds_no_recents_update = False, ds_last_message = message_new,
     ds_pinned_message = message_new, ds_draft = None, ds_parent_topic = None, ds_friendly = [],
     ds_history_patch_version = pv_new, ds_patch_version = [], ds_heads = []\<rparr>"

definition set_last_msgid :: "int \<Rightarrow> dlg_state \<Rightarrow> dlg_state" where
  "set_last_msgid v d = d\<lparr>ds_last_msgid := if v \<le> 0 then -1 else v\<rparr>"

definition get_unread_count :: "dlg_state \<Rightarrow> u32" where
  "get_unread_count d = (case ds_unread_count d of None \<Rightarrow> 0 | Some n \<Rightarrow> n)"

definition get_unread_mentions_count :: "dlg_state \<Rightarrow> int" where
  "get_unread_mentions_count d = (case ds_unread_mentions_count d of None \<Rightarrow> 0 | Some n \<Rightarrow> n)"

definition has_last_msgid :: "dlg_state \<Rightarrow> bool" where
  "has_last_msgid d = (0 < ds_last_msgid d)"

definition has_last_message :: "dlg_state \<Rightarrow> bool" where
  "has_last_message d = (ds_last_msgid d \<noteq> -1)"

definition has_pinned_message :: "dlg_state \<Rightarrow> bool" where
  "has_pinned_message d = message_has_msgid (ds_pinned_message d)"

definition has_history_patch_version :: "dlg_state \<Rightarrow> bool" where
  "has_history_patch_version d = (version_string (ds_history_patch_version d) \<noteq> [])"

definition get_history_patch_version_or :: "cstring \<Rightarrow> dlg_state \<Rightarrow> patch_version" where
  "get_history_patch_version_or dflt d =
    (if has_history_patch_version d then ds_history_patch_version d else Patch_Version dflt 0)"

definition has_del_up_to :: "dlg_state \<Rightarrow> bool" where
  "has_del_up_to d = (0 < ds_del_up_to d)"

definition has_last_read_mention :: "dlg_state \<Rightarrow> bool" where
  "has_last_read_mention d = (0 < ds_last_read_mention d)"

definition dlg_is_empty :: "dlg_state \<Rightarrow> bool" where
  "dlg_is_empty d \<longleftrightarrow> \<not> has_last_msgid d \<and> \<not> message_has_msgid (ds_last_message d)"

text \<open>The messages are assigned by the copy of \<open>history_message\<close>.\<close>

definition set_last_message :: "history_message \<Rightarrow> dlg_state \<Rightarrow> dlg_state" where
  "set_last_message m d = d\<lparr>ds_last_message := message_copy (ds_last_message d) m\<rparr>"

definition set_pinned_message :: "history_message \<Rightarrow> dlg_state \<Rightarrow> dlg_state" where
  "set_pinned_message m d = d\<lparr>ds_pinned_message := message_copy (ds_pinned_message d) m\<rparr>"

definition clear_last_message :: "dlg_state \<Rightarrow> dlg_state" where
  "clear_last_message d = d\<lparr>ds_last_message := message_new\<rparr>"

definition clear_last_msgid :: "dlg_state \<Rightarrow> dlg_state" where
  "clear_last_msgid d = d\<lparr>ds_last_msgid := -1\<rparr>"

definition clear_pinned_message :: "dlg_state \<Rightarrow> dlg_state" where
  "clear_pinned_message d = d\<lparr>ds_pinned_message := message_new\<rparr>"

definition dlg_copy_from :: "dlg_state \<Rightarrow> dlg_state \<Rightarrow> dlg_state" where
  "dlg_copy_from this s =
    (let d = set_last_msgid (ds_last_msgid s) this
     in d\<lparr>ds_unread_count := ds_unread_count s, ds_unread_mentions_count := ds_unread_mentions_count s,
       ds_last_read_mention := ds_last_read_mention s, ds_yours_last_read := ds_yours_last_read s,
       ds_theirs_last_read := ds_theirs_last_read s, ds_theirs_last_delivered := ds_theirs_last_delivered s,
       ds_visible := ds_visible s, ds_fake := ds_fake s,
       ds_last_message := message_copy (ds_last_message this) (ds_last_message s),
       ds_pinned_message := message_copy (ds_pinned_message this) (ds_pinned_message s),
       ds_patch_version := ds_patch_version s, ds_history_patch_version := ds_history_patch_version s,
       ds_hidden_msg_id := ds_hidden_msg_id s, ds_del_up_to := ds_del_up_to s, ds_friendly := ds_friendly s,
       ds_official := ds_official s, ds_suspicious := ds_suspicious s, ds_attention := ds_attention s,
       ds_stranger := ds_stranger s, ds_no_recents_update := ds_no_recents_update s, ds_heads := ds_heads s,
       ds_info_version := ds_info_version s, ds_members_version := ds_members_version s,
       ds_draft := (case ds_draft s of None \<Rightarrow> ds_draft this | Some x \<Rightarrow> Some x),
       ds_parent_topic := ds_parent_topic s\<rparr>)"

subsection \<open>The binary format\<close>

abbreviation dsf_unreads_count :: u32 where "dsf_unreads_count \<equiv> 1"
abbreviation dsf_last_msg_id :: u32 where "dsf_last_msg_id \<equiv> 2"
abbreviation dsf_yours_last_read :: u32 where "dsf_yours_last_read \<equiv> 3"
abbreviation dsf_theirs_last_read :: u32 where "dsf_theirs_last_read \<equiv> 4"
abbreviation dsf_theirs_last_delivered :: u32 where "dsf_theirs_last_delivered \<equiv> 5"
abbreviation dsf_last_message :: u32 where "dsf_last_message \<equiv> 7"
abbreviation dsf_visible :: u32 where "dsf_visible \<equiv> 8"
abbreviation dsf_patch_version :: u32 where "dsf_patch_version \<equiv> 10"
abbreviation dsf_del_up_to :: u32 where "dsf_del_up_to \<equiv> 11"
abbreviation dsf_friendly :: u32 where "dsf_friendly \<equiv> 12"
abbreviation dsf_official :: u32 where "dsf_official \<equiv> 13"
abbreviation dsf_fake :: u32 where "dsf_fake \<equiv> 14"
abbreviation dsf_hidden_msg_id :: u32 where "dsf_hidden_msg_id \<equiv> 15"
abbreviation dsf_unread_mentions_count :: u32 where "dsf_unread_mentions_count \<equiv> 16"
abbreviation dsf_pinned_message :: u32 where "dsf_pinned_message \<equiv> 17"
abbreviation dsf_attention :: u32 where "dsf_attention \<equiv> 18"
abbreviation dsf_suspicious :: u32 where "dsf_suspicious \<equiv> 19"
abbreviation dsf_heads :: u32 where "dsf_heads \<equiv> 20"
abbreviation dsf_head_aimid :: u32 where "dsf_head_aimid \<equiv> 21"
abbreviation dsf_head_friendly :: u32 where "dsf_head_friendly \<equiv> 22"
abbreviation dsf_last_read_mention :: u32 where "dsf_last_read_mention \<equiv> 23"
abbreviation dsf_stranger :: u32 where "dsf_stranger \<equiv> 24"
abbreviation dsf_info_version :: u32 where "dsf_info_version \<equiv> 25"
abbreviation dsf_no_recents_update :: u32 where "dsf_no_recents_update \<equiv> 26"
abbreviation dsf_members_version :: u32 where "dsf_members_version \<equiv> 27"

definition head_pack :: "dlg_state_head \<Rightarrow> tlvpack" where
  "head_pack h = tlvpack_push_child (tlv_of_string dsf_head_friendly (snd h))
     (tlvpack_push_child (tlv_of_string dsf_head_aimid (fst h)) tlvpack_new)"

definition heads_pack :: "dlg_state_head list \<Rightarrow> tlvpack" where
  "heads_pack hs = foldl (\<lambda>p h. tlvpack_push_child (tlv_of_pack 0 (head_pack h)) p) tlvpack_new hs"

definition dlg_pack :: "bool \<Rightarrow> dlg_state \<Rightarrow> tlvpack" where
  "dlg_pack jk d =
    (let p = tlvpack_new;
         p = tlvpack_push_child (tlv_of_scalar dsf_unreads_count (word_bytes 4 (get_unread_count d))) p;
         p = tlvpack_push_child (tlv_of_scalar dsf_last_msg_id (i64_bytes (ds_last_msgid d))) p;
         p = tlvpack_push_child (tlv_of_scalar dsf_yours_last_read (i64_bytes (ds_yours_last_read d))) p;
         p = tlvpack_push_child (tlv_of_scalar dsf_theirs_last_read (i64_bytes (ds_theirs_last_read d))) p;
         p = tlvpack_push_child (tlv_of_scalar dsf_theirs_last_delivered (i64_bytes (ds_theirs_last_delivered d))) p;
         p = tlvpack_push_child (tlv_of_scalar dsf_visible (bool_bytes (ds_visible d))) p;
         p = tlvpack_push_child (tlv_of_string dsf_friendly (ds_friendly d)) p;
         p = tlvpack_push_child (tlv_of_scalar dsf_official (bool_bytes (ds_official d))) p;
         p = tlvpack_push_child (tlv_of_scalar dsf_suspicious (bool_bytes (ds_suspicious d))) p;
         p = tlvpack_push_child (tlv_of_scalar dsf_fake (bool_bytes (ds_fake d))) p;
         p = tlvpack_push_child (tlv_of_scalar dsf_hidden_msg_id (i64_bytes (ds_hidden_msg_id d))) p;
         p = tlvpack_push_child (tlv_of_scalar dsf_unread_mentions_count (i32_bytes (get_unread_mentions_count d))) p;
         p = tlvpack_push_child (tlv_of_scalar dsf_attention (bool_bytes (ds_attention d))) p;
         p = tlvpack_push_child (tlv_of_scalar dsf_last_read_mention (i64_bytes (ds_last_read_mention d))) p;
         p = tlvpack_push_child (tlv_of_scalar dsf_stranger (bool_bytes (ds_stranger d))) p;
         p = tlvpack_push_child (tlv_of_scalar dsf_no_recents_update (bool_bytes (ds_no_recents_update d))) p;
         p = push_opt (\<lambda>v. tlvpack_push_child (tlv_of_string dsf_info_version v)) (ds_info_version d) p;
         p = push_opt (\<lambda>v. tlvpack_push_child (tlv_of_string dsf_members_version v)) (ds_members_version d) p;
         p = push_if (has_history_patch_version d)
           (tlv_of_string dsf_patch_version (version_string (ds_history_patch_version d))) p;
         p = push_if (has_del_up_to d) (tlv_of_scalar dsf_del_up_to (i64_bytes (ds_del_up_to d))) p;
         p = tlvpack_push_child (tlv_of_stream dsf_last_message (message_serialize jk (ds_last_message d) bs_new)) p;
         p = push_if (has_pinned_message d)
           (tlv_of_stream dsf_pinned_message (message_serialize jk (ds_pinned_message d) bs_new)) p
     in push_if (ds_heads d \<noteq> []) (tlv_of_pack dsf_heads (heads_pack (ds_heads d))) p)"

definition dlg_serialize :: "bool \<Rightarrow> dlg_state \<Rightarrow> binary_stream \<Rightarrow> binary_stream" where
  "dlg_serialize jk d s = snd (tlvpack_serialize (dlg_pack jk d) s)"

text \<open>The packs of the heads are read with \<open>unserialize\<close> from a copy of the value.\<close>

definition read_head :: "tlv \<Rightarrow> dlg_state_head list \<Rightarrow> dlg_state_head list option" where
  "read_head t hs = do {
     (_, p, _) \<leftarrow> tlvpack_unserialize tlvpack_new (tlv_get_stream t);
     Some (case (tlvpack_get_item dsf_head_aimid p, tlvpack_get_item dsf_head_friendly p) of
         (Some a, Some f) \<Rightarrow> hs @ [(get_string a, get_string f)]
       | _ \<Rightarrow> hs) }"

definition read_heads :: "tlvpack \<Rightarrow> dlg_state_head list \<Rightarrow> dlg_state_head list option" where
  "read_heads p hs =
    (case tlvpack_get_item dsf_heads p of
       None \<Rightarrow> Some hs
     | Some t \<Rightarrow> do {
         (ok, q, _) \<leftarrow> tlvpack_unserialize tlvpack_new (tlv_get_stream t);
         if ok then for_fields read_head q hs else Some hs })"

definition read_dlg_message :: "message_env \<Rightarrow> u32 \<Rightarrow> tlvpack \<Rightarrow> history_message \<Rightarrow> history_message option" where
  "read_dlg_message env ty p m =
    (case tlvpack_get_item ty p of
       None \<Rightarrow> Some m
     | Some t \<Rightarrow> map_option (\<lambda>(_, m, _). m) (message_unserialize env (tlv_get_stream t) m))"

definition required_fields :: "u32 list" where
  "required_fields = [dsf_unreads_count, dsf_last_msg_id, dsf_yours_last_read, dsf_theirs_last_read,
     dsf_theirs_last_delivered, dsf_last_message, dsf_visible]"

definition dlg_unserialize :: "message_env \<Rightarrow> dlg_state \<Rightarrow> binary_stream \<Rightarrow> (bool \<times> dlg_state \<times> binary_stream) option" where
  "dlg_unserialize env d s = do {
     (ok, p, s) \<leftarrow> tlvpack_unserialize tlvpack_new s;
     if \<not> ok then Some (False, d, s)
     else if list_ex (\<lambda>ty. tlvpack_get_item ty p = None) required_fields then Some (False, d, s)
     else do {
       let d = set_last_msgid (item_or dsf_last_msg_id (get_i64_or 0) 0 p) d;
       last_message \<leftarrow> read_dlg_message env dsf_last_message p (ds_last_message d);
       pinned \<leftarrow> read_dlg_message env dsf_pinned_message p (ds_pinned_message d);
       heads \<leftarrow> read_heads p (ds_heads d);
       Some (True, d\<lparr>
         ds_unread_count := Some (item_or dsf_unreads_count (get_u32_or 0) 0 p),
         ds_yours_last_read := item_or dsf_yours_last_read (get_i64_or 0) 0 p,
         ds_theirs_last_read := item_or dsf_theirs_last_read (get_i64_or 0) 0 p,
         ds_theirs_last_delivered := item_or dsf_theirs_last_delivered (get_i64_or 0) 0 p,
         ds_visible := item_or dsf_visible (get_bool_or True) True p,
         ds_info_version := item_or dsf_info_version (Some \<circ> get_string) (ds_info_version d) p,
         ds_members_version := item_or dsf_members_version (Some \<circ> get_string) (ds_members_version d) p,
         ds_last_read_mention := item_or dsf_last_read_mention (get_i64_or (-1)) (ds_last_read_mention d) p,
         ds_friendly := item_or dsf_friendly get_string (ds_friendly d) p,
         ds_history_patch_version := item_or dsf_patch_version (\<lambda>t. Patch_Version (get_string t) 0) (ds_history_patch_version d) p,
         ds_del_up_to := item_or dsf_del_up_to get_i64 (ds_del_up_to d) p,
         ds_official := item_or dsf_official get_bool (ds_official d) p,
         ds_suspicious := item_or dsf_suspicious get_bool (ds_suspicious d) p,
         ds_fake := item_or dsf_fake get_bool (ds_fake d) p,
         ds_hidden_msg_id := item_or dsf_hidden_msg_id get_i64 (ds_hidden_msg_id d) p,
         ds_unread_mentions_count := item_or dsf_unread_mentions_count (Some \<circ> get_i32_or 0) (ds_unread_mentions_count d) p,
         ds_stranger := item_or dsf_stranger get_bool (ds_stranger d) p,
         ds_no_recents_update := item_or dsf_no_recents_update get_bool (ds_no_recents_update d) p,
         ds_attention := item_or dsf_attention get_bool (ds_attention d) p,
         ds_last_message := last_message, ds_pinned_message := pinned, ds_heads := heads\<rparr>, s) } }"

subsection \<open>The fields of a state\<close>

definition head_fields :: "dlg_state_head \<Rightarrow> field list" where
  "head_fields h = [(dsf_head_aimid, fst h), (dsf_head_friendly, snd h)]"

definition heads_fields :: "dlg_state_head list \<Rightarrow> field list" where
  "heads_fields hs = map (\<lambda>h. (0, pack_bytes (head_fields h))) hs"

definition dlg_fields :: "message_env \<Rightarrow> dlg_state \<Rightarrow> field list" where
  "dlg_fields env d =
    [(dsf_unreads_count, word_bytes 4 (get_unread_count d)), (dsf_last_msg_id, i64_bytes (ds_last_msgid d)),
     (dsf_yours_last_read, i64_bytes (ds_yours_last_read d)), (dsf_theirs_last_read, i64_bytes (ds_theirs_last_read d)),
     (dsf_theirs_last_delivered, i64_bytes (ds_theirs_last_delivered d)), (dsf_visible, bool_bytes (ds_visible d)),
     (dsf_friendly, ds_friendly d), (dsf_official, bool_bytes (ds_official d)),
     (dsf_suspicious, bool_bytes (ds_suspicious d)), (dsf_fake, bool_bytes (ds_fake d)),
     (dsf_hidden_msg_id, i64_bytes (ds_hidden_msg_id d)),
     (dsf_unread_mentions_count, i32_bytes (get_unread_mentions_count d)), (dsf_attention, bool_bytes (ds_attention d)),
     (dsf_last_read_mention, i64_bytes (ds_last_read_mention d)), (dsf_stranger, bool_bytes (ds_stranger d)),
     (dsf_no_recents_update, bool_bytes (ds_no_recents_update d))]
    @ opt_field dsf_info_version (\<lambda>v. v) (ds_info_version d)
    @ opt_field dsf_members_version (\<lambda>v. v) (ds_members_version d)
    @ field_if (has_history_patch_version d) dsf_patch_version (version_string (ds_history_patch_version d))
    @ field_if (has_del_up_to d) dsf_del_up_to (i64_bytes (ds_del_up_to d))
    @ [(dsf_last_message, message_bytes env (ds_last_message d))]
    @ field_if (has_pinned_message d) dsf_pinned_message (message_bytes env (ds_pinned_message d))
    @ field_if (ds_heads d \<noteq> []) dsf_heads (pack_bytes (heads_fields (ds_heads d)))"

definition dlg_ok :: "message_env \<Rightarrow> dlg_state \<Rightarrow> bool" where
  "dlg_ok env d \<longleftrightarrow> int64 (ds_last_msgid d) \<and> int64 (ds_yours_last_read d) \<and> int64 (ds_theirs_last_read d) \<and>
     int64 (ds_theirs_last_delivered d) \<and> int64 (ds_hidden_msg_id d) \<and> int64 (ds_last_read_mention d) \<and>
     int64 (ds_del_up_to d) \<and> int32 (get_unread_mentions_count d) \<and>
     archivable env (ds_last_message d) \<and> (has_pinned_message d \<longrightarrow> archivable env (ds_pinned_message d)) \<and>
     length (pack_bytes (dlg_fields env d)) \<le> max_data_block_size"

text \<open>What comes back: counts that were unknown are 0, and what is not written has its initial value.\<close>

definition dlg_stored :: "message_env \<Rightarrow> dlg_state \<Rightarrow> dlg_state" where
  "dlg_stored env d = (set_last_msgid (ds_last_msgid d) d)\<lparr>
     ds_unread_count := Some (get_unread_count d), ds_unread_mentions_count := Some (get_unread_mentions_count d),
     ds_del_up_to := if has_del_up_to d then ds_del_up_to d else -1,
     ds_last_message := message_stored (junk env) env (ds_last_message d),
     ds_pinned_message := if has_pinned_message d then message_stored (junk env) env (ds_pinned_message d) else message_new,
     ds_draft := None, ds_parent_topic := None, ds_patch_version := [],
     ds_history_patch_version := Patch_Version (version_string (ds_history_patch_version d)) 0\<rparr>"

lemma message_serialize_ready:
  "tlv_field (tlv_of_stream ty (message_serialize (junk env) m bs_new)) = (ty, message_bytes env m)"
  "tlv_ready (tlv_of_stream ty (message_serialize (junk env) m bs_new))"
proof -
  have "output_cursor (message_serialize (junk env) m bs_new) = 0"
    by (simp add: message_serialize_def serialize_call_def tlvpack_serialize_def Let_def case_prod_beta)
  with message_serialize_bytes [of env m bs_new] show
    "tlv_field (tlv_of_stream ty (message_serialize (junk env) m bs_new)) = (ty, message_bytes env m)"
    "tlv_ready (tlv_of_stream ty (message_serialize (junk env) m bs_new))"
    by (simp_all add: tlv_of_stream_def tlv_set_stream_def tlv_set_type_def tlv_new_def tlv_field_def tlv_ready_def)
qed

lemma heads_pack_fields [simp]: "pack_fields (heads_pack hs) = heads_fields hs" "pack_ready (heads_pack hs)"
proof -
  have "pack_fields (foldl (\<lambda>p h. tlvpack_push_child (tlv_of_pack 0 (head_pack h)) p) p hs) = pack_fields p @ heads_fields hs \<and>
      (pack_ready p \<longrightarrow> pack_ready (foldl (\<lambda>p h. tlvpack_push_child (tlv_of_pack 0 (head_pack h)) p) p hs))" for p
    by (induction hs arbitrary: p) (simp_all add: heads_fields_def head_fields_def head_pack_def)
  then show "pack_fields (heads_pack hs) = heads_fields hs" "pack_ready (heads_pack hs)"
    by (simp_all add: heads_pack_def)
qed

lemma dlg_pack_fields: "pack_fields (dlg_pack (junk env) d) = dlg_fields env d" "pack_ready (dlg_pack (junk env) d)"
  by (simp_all add: dlg_pack_def dlg_fields_def Let_def message_serialize_ready push_opt_fields [where h = "\<lambda>v. v"])

lemma dlg_serialize_bytes:
  assumes "bs_wf s"
  shows "bs_wf (dlg_serialize (junk env) d s)"
    and "bs_pending (dlg_serialize (junk env) d s) = bs_pending s @ pack_bytes (dlg_fields env d)"
  using tlvpack_serialize_ready [OF dlg_pack_fields(2) assms] by (simp_all add: dlg_serialize_def dlg_pack_fields(1))

lemma stream_canon:
  "bs_wf (tlv_get_stream (tlv_canon f))" "bs_pending (tlv_get_stream (tlv_canon f)) = snd f"
  by (simp_all add: tlv_get_stream_def)

lemma unserialize_stream_canon:
  assumes "length (pack_bytes fs) < 2 ^ 32"
  shows "\<exists>s'. tlvpack_unserialize tlvpack_new (tlv_get_stream (tlv_canon (ty, pack_bytes fs))) = Some (True, pack_of fs, s')"
  using tlvpack_unserialize_pack_of [OF stream_canon(1) assms, of "(ty, pack_bytes fs)"] stream_canon(2) by auto

lemma read_dlg_head:
  assumes "length (pack_bytes (head_fields h)) < 2 ^ 32"
  shows "read_head (tlv_canon (0, pack_bytes (head_fields h))) hs = Some (hs @ [h])"
  using unserialize_stream_canon [OF assms, of 0] by (auto simp: read_head_def) (simp add: head_fields_def)

lemma read_heads_fields:
  assumes "length (pack_bytes (heads_fields hs)) < 2 ^ 32"
  shows "for_fields read_head (pack_of (heads_fields hs)) gs = Some (gs @ hs)"
  using assms
proof (induction hs arbitrary: gs)
  case (Cons h hs)
  have "length (pack_bytes (head_fields h)) < 2 ^ 32" "length (pack_bytes (heads_fields hs)) < 2 ^ 32"
    using Cons.prems by (simp_all add: heads_fields_def)
  with Cons.IH [of "gs @ [h]"] read_dlg_head [of h gs] show ?case by (simp add: heads_fields_def)
qed (simp add: heads_fields_def)

lemma read_message_field:
  assumes "archivable env m"
  shows "\<exists>s'. message_unserialize env (tlv_get_stream (tlv_canon (ty, message_bytes env m))) message_new =
    Some (0, message_stored (junk env) env m, s')"
  using message_unserialize_bytes [OF assms stream_canon(1)] stream_canon(2) by simp

lemma dlg_new_sel [simp]:
  "ds_info_version dlg_new = None" "ds_members_version dlg_new = None" "ds_del_up_to dlg_new = -1"
  "ds_last_message dlg_new = message_new" "ds_pinned_message dlg_new = message_new" "ds_heads dlg_new = []"
  "ds_draft dlg_new = None" "ds_parent_topic dlg_new = None" "ds_patch_version dlg_new = []"
  "ds_history_patch_version dlg_new = pv_new" "ds_last_msgid dlg_new = -1"
  by (simp_all add: dlg_new_def)

lemma opt_field_here: "(if x \<noteq> None then Some (the x) else None) = x" "(if x = None then None else Some (the x)) = x"
  by (cases x; simp)+

lemma dlg_lookup:
  "map_of (dlg_fields env d) dsf_unreads_count = Some (word_bytes 4 (get_unread_count d))"
  "map_of (dlg_fields env d) dsf_last_msg_id = Some (i64_bytes (ds_last_msgid d))"
  "map_of (dlg_fields env d) dsf_yours_last_read = Some (i64_bytes (ds_yours_last_read d))"
  "map_of (dlg_fields env d) dsf_theirs_last_read = Some (i64_bytes (ds_theirs_last_read d))"
  "map_of (dlg_fields env d) dsf_theirs_last_delivered = Some (i64_bytes (ds_theirs_last_delivered d))"
  "map_of (dlg_fields env d) dsf_visible = Some (bool_bytes (ds_visible d))"
  "map_of (dlg_fields env d) dsf_friendly = Some (ds_friendly d)"
  "map_of (dlg_fields env d) dsf_official = Some (bool_bytes (ds_official d))"
  "map_of (dlg_fields env d) dsf_suspicious = Some (bool_bytes (ds_suspicious d))"
  "map_of (dlg_fields env d) dsf_fake = Some (bool_bytes (ds_fake d))"
  "map_of (dlg_fields env d) dsf_hidden_msg_id = Some (i64_bytes (ds_hidden_msg_id d))"
  "map_of (dlg_fields env d) dsf_unread_mentions_count = Some (i32_bytes (get_unread_mentions_count d))"
  "map_of (dlg_fields env d) dsf_attention = Some (bool_bytes (ds_attention d))"
  "map_of (dlg_fields env d) dsf_last_read_mention = Some (i64_bytes (ds_last_read_mention d))"
  "map_of (dlg_fields env d) dsf_stranger = Some (bool_bytes (ds_stranger d))"
  "map_of (dlg_fields env d) dsf_no_recents_update = Some (bool_bytes (ds_no_recents_update d))"
  "map_of (dlg_fields env d) dsf_info_version = ds_info_version d"
  "map_of (dlg_fields env d) dsf_members_version = ds_members_version d"
  "map_of (dlg_fields env d) dsf_patch_version = (if has_history_patch_version d then Some (version_string (ds_history_patch_version d)) else None)"
  "map_of (dlg_fields env d) dsf_del_up_to = (if has_del_up_to d then Some (i64_bytes (ds_del_up_to d)) else None)"
  "map_of (dlg_fields env d) dsf_last_message = Some (message_bytes env (ds_last_message d))"
  "map_of (dlg_fields env d) dsf_pinned_message = (if has_pinned_message d then Some (message_bytes env (ds_pinned_message d)) else None)"
  "map_of (dlg_fields env d) dsf_heads = (if ds_heads d \<noteq> [] then Some (pack_bytes (heads_fields (ds_heads d))) else None)"
  by (simp_all add: dlg_fields_def opt_field_here)

lemma dlg_unserialize_fields:
  assumes "dlg_ok env d" and "bs_wf s" and "bs_pending s = pack_bytes (dlg_fields env d)"
  shows "\<exists>s'. dlg_unserialize env dlg_new s = Some (True, dlg_stored env d, s')"
proof -
  have len: "length (pack_bytes (dlg_fields env d)) < 2 ^ 32"
    using assms(1) by (auto simp: dlg_ok_def max_data_block_size_def)
  have hl: "length (pack_bytes (heads_fields (ds_heads d))) < 2 ^ 32" if "ds_heads d \<noteq> []"
    using len that by (simp add: dlg_fields_def)
  obtain s' where p: "tlvpack_unserialize tlvpack_new s = Some (True, pack_of (dlg_fields env d), s')"
    using tlvpack_unserialize_pack_of [OF assms(2) len assms(3)] by blast
  let ?p = "pack_of (dlg_fields env d)"
  note ok = assms(1) [unfolded dlg_ok_def]
  have last_message: "read_dlg_message env dsf_last_message ?p message_new = Some (message_stored (junk env) env (ds_last_message d))"
    using read_message_field [of env "ds_last_message d" dsf_last_message] ok
    by (auto simp: read_dlg_message_def dlg_lookup)
  have pinned: "read_dlg_message env dsf_pinned_message ?p message_new =
      Some (if has_pinned_message d then message_stored (junk env) env (ds_pinned_message d) else message_new)"
    using read_message_field [of env "ds_pinned_message d" dsf_pinned_message] ok
    by (auto simp: read_dlg_message_def dlg_lookup)
  have heads: "read_heads ?p [] = Some (ds_heads d)"
    using unserialize_stream_canon [OF hl, of dsf_heads] read_heads_fields [OF hl, of "[]"]
    by (auto simp: read_heads_def dlg_lookup)
  have there: "\<not> list_ex (\<lambda>ty. tlvpack_get_item ty ?p = None) required_fields"
    by (simp add: required_fields_def dlg_lookup)
  have start: "set_last_msgid v dlg_new = dlg_new\<lparr>ds_last_msgid := if v \<le> 0 then -1 else v\<rparr>" for v
    by (simp add: set_last_msgid_def)
  show ?thesis
    unfolding dlg_unserialize_def p bind.bind_lunit Let_def case_prod_conv start
    using there last_message pinned heads ok
    by (auto intro!: dlg_state.equality simp: dlg_lookup dlg_stored_def set_last_msgid_def has_history_patch_version_def
        pv_new_def split: option.split)
qed

subsection \<open>Merging what the server sends\<close>

record dlg_state_changes =
  del_up_to_changed :: bool
  history_patch_version_changed :: bool
  initial_fill :: bool
  last_message_changed :: bool

definition changes_new :: dlg_state_changes where
  "changes_new = \<lparr>del_up_to_changed = False, history_patch_version_changed = False, initial_fill = False,
     last_message_changed = False\<rparr>"

text \<open>The message of a dialog whose last message was deleted: emptied, with the time of the deletion.\<close>

definition emptied_message :: "int option \<Rightarrow> history_message \<Rightarrow> history_message" where
  "emptied_message now old =
    (let message = message_set_outgoing False (message_merge (message_copy message_new old) message_new)
     in case now of None \<Rightarrow> message | Some t \<Rightarrow> message\<lparr>m_time := t\<rparr>)"

text \<open>The members that are taken over, some of them under a condition.\<close>

definition merge_members :: "dlg_state \<Rightarrow> dlg_state \<Rightarrow> dlg_state" where
  "merge_members new st = (set_last_msgid (ds_last_msgid new) st)\<lparr>
     ds_visible := ds_visible new, ds_fake := ds_fake new, ds_official := ds_official new,
     ds_suspicious := ds_suspicious new, ds_attention := ds_attention new,
     ds_theirs_last_read := ds_theirs_last_read new, ds_theirs_last_delivered := ds_theirs_last_delivered new,
     ds_last_read_mention := ds_last_read_mention new, ds_stranger := ds_stranger new,
     ds_no_recents_update := ds_no_recents_update new,
     ds_info_version := (if ds_info_version new \<noteq> None then ds_info_version new else ds_info_version st),
     ds_members_version := (if ds_members_version new \<noteq> None then ds_members_version new else ds_members_version st),
     ds_unread_mentions_count :=
       (if ds_last_read_mention new = ds_last_msgid new then Some 0
        else if ds_unread_mentions_count new \<noteq> None then Some (get_unread_mentions_count new)
        else ds_unread_mentions_count st),
     ds_pinned_message := message_copy (ds_pinned_message st) (ds_pinned_message new),
     ds_hidden_msg_id := (if ds_hidden_msg_id new \<noteq> -1 then ds_hidden_msg_id new else ds_hidden_msg_id st),
     ds_friendly := (if ds_friendly new \<noteq> [] then ds_friendly new else ds_friendly st),
     ds_unread_count :=
       (if ds_yours_last_read new = ds_last_msgid new then Some 0
        else if ds_unread_count new \<noteq> None then Some (get_unread_count new)
        else ds_unread_count st),
     ds_yours_last_read := ds_yours_last_read new\<rparr>"

definition history_patch_updated :: "dlg_state \<Rightarrow> dlg_state \<Rightarrow> bool" where
  "history_patch_updated new st \<longleftrightarrow> has_history_patch_version new \<and>
     \<not> pv_eq (ds_history_patch_version new) (ds_history_patch_version st)"

text \<open>A state that is older than what is known is not merged.\<close>

definition stale_state :: "dlg_state \<Rightarrow> dlg_state \<Rightarrow> bool" where
  "stale_state new st \<longleftrightarrow> \<not> history_patch_updated new st \<and>
     \<not> (ds_patch_version new \<noteq> [] \<and> ds_history_patch_version st < Patch_Version (ds_patch_version new) 0) \<and>
     has_last_msgid new \<and> has_last_msgid st \<and> ds_last_msgid new < ds_last_msgid st"

definition merge_last_message :: "dlg_state \<Rightarrow> dlg_state \<Rightarrow> dlg_state_changes \<Rightarrow> dlg_state \<times> dlg_state_changes" where
  "merge_last_message new st ch =
    (let new_last = ds_last_message new;
         this_last = ds_last_message st;
         new_has_last_message = (message_has_msgid new_last \<or> m_internal_id new_last \<noteq> []);
         new_last_message_emptied = (\<not> message_has_msgid new_last \<and> \<not> has_last_msgid new)
     in if new_has_last_message \<or> new_last_message_emptied
        then (set_last_message new_last st, ch\<lparr>last_message_changed :=
                m_msgid this_last \<noteq> m_msgid new_last \<or> \<not> contents_equal this_last new_last\<rparr>)
        else (st, ch))"

text \<open>The rest of the merge, when the id up to which messages are deleted has been taken over.\<close>

definition merge_newer ::
  "int option \<Rightarrow> dlg_state \<Rightarrow> bool \<Rightarrow> bool \<Rightarrow> dlg_state \<Rightarrow> dlg_state_changes \<Rightarrow> dlg_state \<times> dlg_state_changes" where
  "merge_newer now new update_history_patch update_del_up_to st ch =
    (if has_last_msgid st \<and> update_del_up_to \<and> ds_last_msgid st = ds_del_up_to new
     then (set_last_message (emptied_message now (ds_last_message st))
             (st\<lparr>ds_unread_count := Some 0, ds_attention := False\<rparr>), ch\<lparr>last_message_changed := True\<rparr>)
     else let (st, ch) = merge_last_message new (merge_members new st) ch;
              ch = ch\<lparr>history_patch_version_changed := update_history_patch\<rparr>;
              st = (if update_history_patch
                    then st\<lparr>ds_history_patch_version := ds_history_patch_version new\<rparr> else st)
          in (st\<lparr>ds_heads := ds_heads new, ds_parent_topic := ds_parent_topic new\<rparr>, ch))"

definition merge_state ::
  "int option \<Rightarrow> dlg_state \<Rightarrow> dlg_state \<Rightarrow> dlg_state_changes \<Rightarrow> bool \<times> dlg_state \<times> dlg_state_changes" where
  "merge_state now new st ch =
    (let ch = ch\<lparr>initial_fill := dlg_is_empty st\<rparr>
     in if stale_state new st then (False, st, ch)
        else let update_history_patch = history_patch_updated new st;
                 update_del_up_to = ds_del_up_to st < ds_del_up_to new;
                 ch = ch\<lparr>del_up_to_changed := update_del_up_to\<rparr>;
                 st = (if update_del_up_to then st\<lparr>ds_del_up_to := ds_del_up_to new\<rparr> else st)
          in (True, merge_newer now new update_history_patch update_del_up_to st ch))"

subsection \<open>The state and its file\<close>

record archive_state =
  as_state :: "dlg_state option"
  as_storage :: storage

definition as_save :: "message_env \<Rightarrow> archive_state \<Rightarrow> bool \<times> archive_state" where
  "as_save env a =
    (case as_state a of
       None \<Rightarrow> (False, a)
     | Some d \<Rightarrow>
        (case st_open (no_mode\<lparr>mode_write := True, mode_truncate := True\<rparr>) (as_storage a) of
           (ok, st) \<Rightarrow>
             if \<not> ok then (False, a\<lparr>as_storage := st\<rparr>)
             else let block_data = dlg_serialize (junk env) d bs_new;
                      (res, _, _, st) = write_data_block block_data 0 st
                  in (fst res, a\<lparr>as_storage := st_close st\<rparr>)))"

definition as_load :: "message_env \<Rightarrow> archive_state \<Rightarrow> (bool \<times> archive_state) option" where
  "as_load env a =
    (case st_open (no_mode\<lparr>mode_read := True\<rparr>) (as_storage a) of
       (ok, st) \<Rightarrow>
         if \<not> ok then Some (False, a\<lparr>as_storage := st\<rparr>)
         else do {
           (ok, state_stream, st) \<leftarrow> read_data_block (-1) bs_new st;
           if \<not> ok then Some (False, a\<lparr>as_storage := st_close st\<rparr>)
           else do {
             d \<leftarrow> as_state a;
             (ok, d, _) \<leftarrow> dlg_unserialize env d state_stream;
             Some (ok, a\<lparr>as_state := Some d, as_storage := st_close st\<rparr>) } })"

definition as_get_state :: "message_env \<Rightarrow> archive_state \<Rightarrow> (dlg_state \<times> archive_state) option" where
  "as_get_state env a =
    (case as_state a of
       Some d \<Rightarrow> Some (d, a)
     | None \<Rightarrow> do {
         (_, a) \<leftarrow> as_load env (a\<lparr>as_state := Some dlg_new\<rparr>);
         d \<leftarrow> as_state a;
         Some (d, a) })"

definition as_set_state ::
  "message_env \<Rightarrow> int option \<Rightarrow> dlg_state \<Rightarrow> dlg_state_changes \<Rightarrow> archive_state \<Rightarrow> archive_state \<times> dlg_state_changes" where
  "as_set_state env now new ch a =
    (let st = (case as_state a of None \<Rightarrow> dlg_new | Some d \<Rightarrow> d);
         (merged, st, ch) = merge_state now new st ch;
         a = a\<lparr>as_state := Some st\<rparr>
     in (if merged then snd (as_save env a) else a, ch))"

definition as_update_attention :: "message_env \<Rightarrow> bool \<Rightarrow> archive_state \<Rightarrow> archive_state" where
  "as_update_attention env v a =
    snd (as_save env (a\<lparr>as_state := map_option (\<lambda>d. d\<lparr>ds_attention := v\<rparr>) (as_state a)\<rparr>))"

definition as_clear_state :: "message_env \<Rightarrow> archive_state \<Rightarrow> archive_state" where
  "as_clear_state env a =
    snd (as_save env (a\<lparr>as_state := map_option (\<lambda>d. dlg_copy_from d dlg_new) (as_state a)\<rparr>))"

subsection \<open>What merging keeps\<close>

lemma merge_members_sel [simp]:
  "ds_del_up_to (merge_members new st) = ds_del_up_to st"
  "ds_last_msgid (merge_members new st) = (if ds_last_msgid new \<le> 0 then -1 else ds_last_msgid new)"
  "ds_last_message (merge_members new st) = ds_last_message st"
  "ds_history_patch_version (merge_members new st) = ds_history_patch_version st"
  by (simp_all add: merge_members_def set_last_msgid_def)

lemma merge_last_message_sel [simp]:
  "ds_del_up_to (fst (merge_last_message new st ch)) = ds_del_up_to st"
  "ds_last_msgid (fst (merge_last_message new st ch)) = ds_last_msgid st"
  "ds_history_patch_version (fst (merge_last_message new st ch)) = ds_history_patch_version st"
  "del_up_to_changed (snd (merge_last_message new st ch)) = del_up_to_changed ch"
  by (simp_all add: merge_last_message_def set_last_message_def Let_def)

lemma set_last_message_sel [simp]:
  "ds_del_up_to (set_last_message m st) = ds_del_up_to st" "ds_last_msgid (set_last_message m st) = ds_last_msgid st"
  "ds_history_patch_version (set_last_message m st) = ds_history_patch_version st"
  by (simp_all add: set_last_message_def)

definition deletes_last :: "dlg_state \<Rightarrow> bool \<Rightarrow> dlg_state \<Rightarrow> bool" where
  "deletes_last new upd st \<longleftrightarrow> has_last_msgid st \<and> upd \<and> ds_last_msgid st = ds_del_up_to new"

lemma merge_newer_simps:
  "deletes_last new upd st \<Longrightarrow> merge_newer now new hist upd st ch =
    (set_last_message (emptied_message now (ds_last_message st))
      (st\<lparr>ds_unread_count := Some 0, ds_attention := False\<rparr>), ch\<lparr>last_message_changed := True\<rparr>)"
  "\<not> deletes_last new upd st \<Longrightarrow> merge_newer now new hist upd st ch =
    (let st' = fst (merge_last_message new (merge_members new st) ch);
         st'' = (if hist then st'\<lparr>ds_history_patch_version := ds_history_patch_version new\<rparr> else st')
     in (st''\<lparr>ds_heads := ds_heads new, ds_parent_topic := ds_parent_topic new\<rparr>,
         (snd (merge_last_message new (merge_members new st) ch))\<lparr>history_patch_version_changed := hist\<rparr>))"
  by (simp_all only: merge_newer_def deletes_last_def if_True if_False simp_thms Let_def case_prod_beta)

lemma merge_newer_sel [simp]:
  "ds_del_up_to (fst (merge_newer now new hist upd st ch)) = ds_del_up_to st"
  "del_up_to_changed (snd (merge_newer now new hist upd st ch)) = del_up_to_changed ch"
proof -
  obtain st' ch' where r: "merge_last_message new (merge_members new st) ch = (st', ch')" by fastforce
  then have "ds_del_up_to st' = ds_del_up_to st" "del_up_to_changed ch' = del_up_to_changed ch"
    using merge_last_message_sel(1,4) [of new "merge_members new st" ch] by simp_all
  then show "ds_del_up_to (fst (merge_newer now new hist upd st ch)) = ds_del_up_to st"
    "del_up_to_changed (snd (merge_newer now new hist upd st ch)) = del_up_to_changed ch"
    by (cases "deletes_last new upd st"; simp add: merge_newer_simps r Let_def)+
qed

lemma merge_state_stale: "stale_state new st \<Longrightarrow> merge_state now new st ch = (False, st, ch\<lparr>initial_fill := dlg_is_empty st\<rparr>)"
  by (simp add: merge_state_def)

lemma merge_state_fresh:
  assumes "\<not> stale_state new st"
  shows "fst (merge_state now new st ch)"
    and "ds_del_up_to (fst (snd (merge_state now new st ch))) = max (ds_del_up_to st) (ds_del_up_to new)"
    and "del_up_to_changed (snd (snd (merge_state now new st ch))) \<longleftrightarrow> ds_del_up_to st < ds_del_up_to new"
  using assms by (simp_all add: merge_state_def Let_def)

subsection \<open>Saving and loading\<close>

definition fits :: "message_env \<Rightarrow> dlg_state \<Rightarrow> archive_state \<Rightarrow> bool" where
  "fits env d a \<longleftrightarrow> dlg_ok env d \<and> disk_ready (as_storage a) \<and> 16 + length (pack_bytes (dlg_fields env d)) \<le> room (as_storage a)"

text \<open>The file holds the state \<open>d\<close>: it is one block of it.\<close>

definition holds :: "message_env \<Rightarrow> archive_state \<Rightarrow> dlg_state \<Rightarrow> bool" where
  "holds env a d \<longleftrightarrow> dlg_ok env d \<and> disk_ready (as_storage a) \<and>
     disk_file (as_storage a) = Some (frame (pack_bytes (dlg_fields env d)))"

lemma dlg_fields_nonempty: "pack_bytes (dlg_fields env d) \<noteq> []"
proof -
  have "8 \<le> length (pack_bytes (dlg_fields env d))" by (simp add: dlg_fields_def)
  then show ?thesis by auto
qed

lemma as_save_holds:
  assumes "as_state a = Some d" and "fits env d a"
  shows "fst (as_save env a)" and "holds env (snd (as_save env a)) d" and "as_state (snd (as_save env a)) = Some d"
proof -
  obtain st0 where st0: "st_open (no_mode\<lparr>mode_write := True, mode_truncate := True\<rparr>) (as_storage a) = (True, st0)"
      "appending st0" "contents st0 = []" "room st0 = room (as_storage a)" "folder_ok st0" "open_ok st0" "disk_file st0 = Some []"
    using st_open_write assms(2) unfolding fits_def by blast
  note bytes = dlg_serialize_bytes [OF bs_new_wf, of env d]
  have pend: "bs_pending (dlg_serialize (junk env) d bs_new) = pack_bytes (dlg_fields env d)" using bytes(2) by simp
  have len: "length (bs_pending (dlg_serialize (junk env) d bs_new)) < 2 ^ 32" "bs_pending (dlg_serialize (junk env) d bs_new) \<noteq> []"
    using assms(2) dlg_fields_nonempty by (auto simp: pend fits_def dlg_ok_def max_data_block_size_def)
  obtain data st1 where w: "write_data_block (dlg_serialize (junk env) d bs_new) 0 st0 = ((True, 0), int (length (contents st0)), data, st1)"
      "contents st1 = contents st0 @ frame (pack_bytes (dlg_fields env d))" "disk_file st1 \<noteq> None"
    using write_data_block_appending(1) [OF st0(2) bytes(1) len(2,1), of 0] assms(2) st0(4) pend by (auto simp: fits_def)
  have env': "folder_ok st1" "open_ok st1"
    using write_data_block_env [of "dlg_serialize (junk env) d bs_new" 0 st0] w(1) st0(5,6) by simp_all
  have "as_save env a = (True, a\<lparr>as_storage := st_close st1\<rparr>)"
    using assms(1) st0(1) w(1) by (simp add: as_save_def)
  moreover have "holds env (a\<lparr>as_storage := st_close st1\<rparr>) d"
    using env' w(2,3) st0(3) assms(2)
    by (auto simp: holds_def disk_ready_def st_close_def contents_def fits_def split: option.splits)
  ultimately show "fst (as_save env a)" "holds env (snd (as_save env a)) d" "as_state (snd (as_save env a)) = Some d"
    using assms(1) by simp_all
qed

lemma as_get_state_holds:
  assumes "holds env a d"
  shows "\<exists>a'. as_get_state env (a\<lparr>as_state := None\<rparr>) = Some (dlg_stored env d, a') \<and> as_state a' = Some (dlg_stored env d) \<and>
    holds env a' d"
proof -
  let ?bs = "pack_bytes (dlg_fields env d)"
  obtain st0 where st0: "st_open (no_mode\<lparr>mode_read := True\<rparr>) (as_storage a) = (True, st0)" "reading st0 (frame ?bs)"
      "disk_file st0 = Some (frame ?bs)"
    using st_open_read assms unfolding holds_def by blast
  have small: "length ?bs \<le> max_data_block_size" using assms by (simp add: holds_def dlg_ok_def)
  have "reading st0 (frame ?bs @ [])" using st0(2) by simp
  from read_data_block_frame [OF this small bs_new_wf] obtain data st1 where
    r: "read_data_block (-1) bs_new st0 = Some (True, data, st1)" "bs_wf data" "bs_pending data = ?bs" "same_file st0 st1"
    by auto
  obtain s' where u: "dlg_unserialize env dlg_new data = Some (True, dlg_stored env d, s')"
    using dlg_unserialize_fields [OF _ r(2,3)] assms by (auto simp: holds_def)
  have "disk_ready (st_close st1)" "disk_file (st_close st1) = Some (frame ?bs)"
    using r(4) st0(1,3) assms by (auto simp: same_file_def holds_def disk_ready_def st_close_def st_open_def fopen_def no_mode_def split: if_splits)
  with st0(1) r(1) u assms show ?thesis
    by (auto simp: as_get_state_def as_load_def holds_def)
qed

subsection \<open>Steps of a session\<close>

text \<open>
  What can happen to a loaded state: the server sends a new one, the mark of attention is set, the program
  is started anew and loads the file. A state that is to be saved can be written (\<open>fits\<close>).
\<close>

inductive dlg_step :: "message_env \<Rightarrow> archive_state \<Rightarrow> archive_state \<Rightarrow> bool" for env where
  merge: "as_state a = Some d \<Longrightarrow> merge_state now new d ch = (merged, d', ch') \<Longrightarrow> (merged \<Longrightarrow> fits env d' a) \<Longrightarrow>
    dlg_step env a (fst (as_set_state env now new ch a))"
| attention: "as_state a = Some d \<Longrightarrow> fits env (d\<lparr>ds_attention := v\<rparr>) a \<Longrightarrow> dlg_step env a (as_update_attention env v a)"
| restart: "as_get_state env (a\<lparr>as_state := None\<rparr>) = Some (d, a') \<Longrightarrow> dlg_step env a a'"

text \<open>The state in memory and the one in the file agree on the deleted messages.\<close>

definition synced :: "message_env \<Rightarrow> archive_state \<Rightarrow> int \<Rightarrow> bool" where
  "synced env a n \<longleftrightarrow> (\<exists>d f. as_state a = Some d \<and> holds env a f \<and> ds_del_up_to d = n \<and>
     (if 0 < n then ds_del_up_to f = n else ds_del_up_to f \<le> 0))"

lemma dlg_stored_del [simp]: "ds_del_up_to (dlg_stored env d) = (if 0 < ds_del_up_to d then ds_del_up_to d else -1)"
  by (simp add: dlg_stored_def has_del_up_to_def)

lemma synced_saved:
  assumes "as_state a = Some d" and "fits env d a"
  shows "synced env (snd (as_save env a)) (ds_del_up_to d)"
  using as_save_holds [OF assms] by (auto simp: synced_def)

lemma fits_state [simp]: "fits env d (a\<lparr>as_state := x\<rparr>) = fits env d a"
  by (simp add: fits_def)

lemma merge_state_del_up_to:
  assumes "merge_state now new d ch = (merged, d', ch')"
  shows "\<not> merged \<Longrightarrow> d' = d" and "merged \<Longrightarrow> ds_del_up_to d' = max (ds_del_up_to d) (ds_del_up_to new)"
proof -
  show "d' = d" if "\<not> merged"
  proof (cases "stale_state new d")
    case False
    then show ?thesis using assms that merge_state_fresh(1) [OF False, of now ch] by simp
  qed (use assms merge_state_stale [of new d now ch] in simp)
  show "ds_del_up_to d' = max (ds_del_up_to d) (ds_del_up_to new)" if "merged"
  proof (cases "stale_state new d")
    case True
    then show ?thesis using assms that merge_state_stale [OF True, of now ch] by simp
  qed (use assms merge_state_fresh(2) [of new d now ch] in simp)
qed

lemma dlg_step_synced:
  assumes "dlg_step env a a'" and "synced env a n"
  shows "\<exists>n'. synced env a' n' \<and> (0 < n \<longrightarrow> n \<le> n')"
  using assms
proof (cases rule: dlg_step.cases)
  case (merge d now new ch merged d' ch')
  have n: "ds_del_up_to d = n" using assms(2) merge(2) by (auto simp: synced_def)
  show ?thesis
  proof (cases merged)
    case True
    then have "a' = snd (as_save env (a\<lparr>as_state := Some d'\<rparr>))" using merge by (simp add: as_set_state_def)
    moreover have "synced env (snd (as_save env (a\<lparr>as_state := Some d'\<rparr>))) (ds_del_up_to d')"
      using merge(4) True by (intro synced_saved) simp_all
    ultimately show ?thesis using merge_state_del_up_to(2) [OF merge(3) True] n by auto
  next
    case False
    then have "a' = a\<lparr>as_state := Some d\<rparr>"
      using merge merge_state_del_up_to(1) [OF merge(3) False] by (simp add: as_set_state_def)
    then have "a' = a" using merge(2) by simp
    then show ?thesis using assms(2) by blast
  qed
next
  case (attention d v)
  have n: "ds_del_up_to d = n" using assms(2) attention(2) by (auto simp: synced_def)
  have "synced env a' (ds_del_up_to (d\<lparr>ds_attention := v\<rparr>))"
    unfolding attention(1) as_update_attention_def attention(2) option.map using attention(3) by (intro synced_saved) simp_all
  then show ?thesis using n by auto
next
  case (restart d)
  obtain f where f: "holds env a f" "if 0 < n then ds_del_up_to f = n else ds_del_up_to f \<le> 0"
    using assms(2) by (auto simp: synced_def)
  from as_get_state_holds [OF f(1)] restart have "as_state a' = Some (dlg_stored env f)" "holds env a' f" by auto
  then have "synced env a' (ds_del_up_to (dlg_stored env f))" by (auto simp: synced_def)
  then show ?thesis using f(2) by (auto split: if_splits)
qed

subsection \<open>Properties\<close>

text \<open>
  C14: a state that the server sends and that is merged survives the end of the program: after
  \<open>set_state\<close>, an \<open>archive_state\<close> that is started on the same file loads the merged state, as it is
  stored; and the messages it counts as deleted are those of the two states together.
\<close>

theorem set_state_survives:
  assumes "as_state a = Some d" and "\<not> stale_state new d"
    and "fits env (fst (snd (merge_state now new d ch))) a"
  shows "\<exists>d' a'. as_state (fst (as_set_state env now new ch a)) = Some d' \<and>
    as_get_state env ((fst (as_set_state env now new ch a))\<lparr>as_state := None\<rparr>) = Some (dlg_stored env d', a') \<and>
    ds_del_up_to d' = max (ds_del_up_to d) (ds_del_up_to new)"
proof -
  obtain d' ch' where m: "merge_state now new d ch = (True, d', ch')"
    using merge_state_fresh(1) [OF assms(2), of now ch] by (metis prod.collapse)
  then have "fst (as_set_state env now new ch a) = snd (as_save env (a\<lparr>as_state := Some d'\<rparr>))"
    using assms(1) by (simp add: as_set_state_def)
  moreover have "fits env d' (a\<lparr>as_state := Some d'\<rparr>)" using assms(3) m by simp
  note as_save_holds [OF _ this, simplified]
  ultimately have s: "holds env (fst (as_set_state env now new ch a)) d'" "as_state (fst (as_set_state env now new ch a)) = Some d'"
    by simp_all
  have "ds_del_up_to d' = max (ds_del_up_to d) (ds_del_up_to new)" using merge_state_del_up_to(2) [OF m] by simp
  with as_get_state_holds [OF s(1)] s(2) show ?thesis by auto
qed

text \<open>
  C13: messages that are deleted stay deleted. From a state that is in agreement with its file, however
  often new states arrive, stale ones and ones that know of fewer deletions included, and however often
  the program is started anew, the id up to which messages are deleted never falls.
\<close>

theorem deletions_stay:
  assumes "(dlg_step env)\<^sup>*\<^sup>* a a'" and "synced env a n" and "0 < n"
  shows "\<exists>d'. as_state a' = Some d' \<and> n \<le> ds_del_up_to d'"
proof -
  have "\<exists>n'. synced env a' n' \<and> n \<le> n'"
    using assms(1)
  proof (induction rule: rtranclp_induct)
    case base
    then show ?case using assms(2) by blast
  next
    case (step b c)
    then obtain m where "synced env b m" "n \<le> m" by blast
    with dlg_step_synced [OF step(2)] assms(3) show ?case by (meson dual_order.trans less_le_trans)
  qed
  then show ?thesis by (auto simp: synced_def)
qed


definition old_dialog :: dlg_state where
  "old_dialog = dlg_new\<lparr>ds_del_up_to := 100, ds_last_msgid := 120, ds_friendly := ''Ann''\<rparr>"

definition new_dialog :: dlg_state where
  "new_dialog = dlg_new\<lparr>ds_last_msgid := 130, ds_heads := [(''bob'', ''Bob'')]\<rparr>"

definition old_archive :: archive_state where
  "old_archive = \<lparr>as_state = Some old_dialog, as_storage = fresh_disk []\<rparr>"

lemma message_new_archivable: "archivable echo_env message_new" "length (message_bytes echo_env message_new) \<le> 1000"
  by (simp_all add: archivable_def message_bytes_def max_data_block_size_def storable_eval part_def)

lemma old_dialog_fits: "fits echo_env old_dialog old_archive"
proof -
  have "length (pack_bytes (dlg_fields echo_env old_dialog)) \<le> 5000"
    using message_new_archivable(2)
    by (simp add: dlg_fields_def old_dialog_def dlg_new_def has_history_patch_version_def pv_new_def has_pinned_message_def
        message_has_msgid_def)
  then show ?thesis
    using message_new_archivable(1) fresh_disk_ready
    by (simp add: fits_def dlg_ok_def old_archive_def max_data_block_size_def old_dialog_def dlg_new_def in_signed_def
        get_unread_mentions_count_def has_pinned_message_def message_has_msgid_def)
qed

lemma merged_dialog:
  "\<not> stale_state new_dialog old_dialog"
  "fst (snd (merge_state None new_dialog old_dialog changes_new)) =
    old_dialog\<lparr>ds_last_msgid := 130, ds_heads := [(''bob'', ''Bob'')]\<rparr>"
proof -
  have ids: "ds_last_msgid new_dialog = 130" "ds_last_msgid old_dialog = 120" "ds_del_up_to new_dialog = -1"
    "ds_del_up_to old_dialog = 100" "ds_last_message new_dialog = message_new" "version_string (ds_history_patch_version new_dialog) = []"
    "ds_heads new_dialog = [(''bob'', ''Bob'')]" "ds_parent_topic new_dialog = None"
    by (simp_all add: new_dialog_def old_dialog_def dlg_new_def pv_new_def)
  show fresh: "\<not> stale_state new_dialog old_dialog" by (simp add: stale_state_def ids)
  have hist: "\<not> history_patch_updated new_dialog old_dialog"
    by (simp add: history_patch_updated_def has_history_patch_version_def ids)
  have same: "merge_last_message new_dialog st ch = (st, ch)" for st ch
    by (simp add: merge_last_message_def ids message_has_msgid_def has_last_msgid_def)
  have copy: "message_copy message_new message_new = message_new" by (simp add: message_copy_def)
  have "merge_members new_dialog old_dialog = old_dialog\<lparr>ds_last_msgid := 130\<rparr>"
    by (simp add: merge_members_def set_last_msgid_def new_dialog_def old_dialog_def dlg_new_def copy
        get_unread_mentions_count_def get_unread_count_def)
  then show "fst (snd (merge_state None new_dialog old_dialog changes_new)) =
      old_dialog\<lparr>ds_last_msgid := 130, ds_heads := [(''bob'', ''Bob'')]\<rparr>"
    using fresh hist by (simp add: merge_state_def merge_newer_def same ids) (simp add: old_dialog_def dlg_new_def)
qed

lemma merged_dialog_fits: "fits echo_env (old_dialog\<lparr>ds_last_msgid := 130, ds_heads := [(''bob'', ''Bob'')]\<rparr>) old_archive"
proof -
  let ?d = "old_dialog\<lparr>ds_last_msgid := 130, ds_heads := [(''bob'', ''Bob'')]\<rparr>"
  have "length (pack_bytes (dlg_fields echo_env ?d)) \<le> 5000"
    using message_new_archivable(2)
    by (simp add: dlg_fields_def old_dialog_def dlg_new_def has_history_patch_version_def pv_new_def has_pinned_message_def
        message_has_msgid_def heads_fields_def head_fields_def)
  then show ?thesis
    using message_new_archivable(1) fresh_disk_ready
    by (simp add: fits_def dlg_ok_def old_archive_def max_data_block_size_def old_dialog_def dlg_new_def in_signed_def
        get_unread_mentions_count_def has_pinned_message_def message_has_msgid_def)
qed

theorem set_state_survives_witness:
  "\<exists>d' a'. as_state (fst (as_set_state echo_env None new_dialog changes_new old_archive)) = Some d' \<and>
    as_get_state echo_env ((fst (as_set_state echo_env None new_dialog changes_new old_archive))\<lparr>as_state := None\<rparr>) =
      Some (dlg_stored echo_env d', a') \<and> ds_del_up_to d' = 100"
proof -
  have a: "as_state old_archive = Some old_dialog" by (simp add: old_archive_def)
  have "max (ds_del_up_to old_dialog) (ds_del_up_to new_dialog) = 100" by (simp add: old_dialog_def new_dialog_def)
  then show ?thesis
    using set_state_survives [OF a merged_dialog(1), of echo_env None changes_new] merged_dialog_fits unfolding merged_dialog(2) by simp
qed

lemma saved_old_archive:
  "synced echo_env (snd (as_save echo_env old_archive)) 100"
  "\<exists>a1. as_get_state echo_env ((snd (as_save echo_env old_archive))\<lparr>as_state := None\<rparr>) = Some (dlg_stored echo_env old_dialog, a1)"
proof -
  have a: "as_state old_archive = Some old_dialog" by (simp add: old_archive_def)
  have "ds_del_up_to old_dialog = 100" by (simp add: old_dialog_def)
  with synced_saved [OF a old_dialog_fits] show "synced echo_env (snd (as_save echo_env old_archive)) 100" by simp
  show "\<exists>a1. as_get_state echo_env ((snd (as_save echo_env old_archive))\<lparr>as_state := None\<rparr>) = Some (dlg_stored echo_env old_dialog, a1)"
    using as_get_state_holds [OF as_save_holds(2) [OF a old_dialog_fits]] by blast
qed

theorem deletions_stay_witness:
  "\<exists>a' d'. dlg_step echo_env (snd (as_save echo_env old_archive)) a' \<and> as_state a' = Some d' \<and> 100 \<le> ds_del_up_to d'"
proof -
  obtain a1 where "as_get_state echo_env ((snd (as_save echo_env old_archive))\<lparr>as_state := None\<rparr>) = Some (dlg_stored echo_env old_dialog, a1)"
    using saved_old_archive(2) by blast
  then have step: "dlg_step echo_env (snd (as_save echo_env old_archive)) a1" by (rule dlg_step.restart)
  then have "(dlg_step echo_env)\<^sup>*\<^sup>* (snd (as_save echo_env old_archive)) a1" by simp
  from deletions_stay [OF this saved_old_archive(1)] step show ?thesis by auto
qed


end
