(* ===== verification/Url_Parser.thy ===== *)
theory Url_Parser
  imports Url_Types
begin

text \<open>
  The link recogniser itself (\<open>common.shared/url_parser/url_parser.cpp\<close>): one call of \<open>process\<close>
  takes one character through the automaton.

  The \<open>switch\<close> of the source is split into groups of states; each group returns an \<open>outcome\<close> that
  says how the \<open>case\<close> was left: by \<open>break\<close> (the character is then appended to \<open>buf\<close>), by \<open>return\<close>,
  through one of the macros of the source (reset, link found, reprocess in the state \<open>host\<close>), or
  into \<open>fallback\<close>, which replays the compared characters one by one.

  The result \<open>None\<close> of an operation is undefined behaviour of the code: \<open>back()\<close> of an empty
  string, a \<open>resize\<close> to a negative size, or a change of \<open>compare_buf\<close> while \<open>fallback\<close> iterates
  over it.
\<close>

datatype outcome =
  Break url_parser | Return url_parser | Reset url_parser | Found url_parser
  | Reprocess url_parser | Fallback url_parser

definition set_state :: "states \<Rightarrow> url_parser \<Rightarrow> url_parser" where
  "set_state s p = p\<lparr>up_state := s\<rparr>"

definition set_protocol :: "protocol \<Rightarrow> url_parser \<Rightarrow> url_parser" where
  "set_protocol s p = p\<lparr>up_protocol := s\<rparr>"

definition go :: "states \<Rightarrow> url_parser \<Rightarrow> outcome" where
  "go s p = Break (set_state s p)"

text \<open>\<open>protocol_ = undefined\<close> and reprocessing in \<open>host\<close>, the way out of every protocol state.\<close>

definition to_host :: "url_parser \<Rightarrow> outcome" where
  "to_host p = Reprocess (set_state S_host (set_protocol Proto_undefined p))"

definition space_or_host :: "url_parser \<Rightarrow> outcome" where
  "space_or_host p = (if is_space p then Reset p else to_host p)"

definition cur_bytes :: "url_parser \<Rightarrow> cstring" where
  "cur_bytes p = take (char_size p) (char_buf p)"

definition save_char_to_domain :: "url_parser \<Rightarrow> url_parser" where
  "save_char_to_domain p = p\<lparr>domain := domain p @ cur_bytes p\<rparr>"

definition save_char_to_buf :: "url_parser \<Rightarrow> url_parser" where
  "save_char_to_buf p = p\<lparr>buf := buf p @ cur_bytes p\<rparr>"

definition no_url :: url where
  "no_url = \<lparr>url_type = Type_undefined, url_protocol = Proto_undefined, url_extension = Ext_undefined,
     url_url = [], url_original = []\<rparr>"

definition up_reset :: "url_parser \<Rightarrow> url_parser" where
  "up_reset p = p\<lparr>up_state := S_lookup, up_protocol := Proto_undefined, buf := [], domain := [],
     num_processed := 0, compare_pos := 0, up_extension := Ext_undefined, ok_state := S_lookup,
     fallback_state := S_lookup, safe_position := 0, is_not_email := False, up_is_email := False,
     has_protocol_prefix := False, domain_segments := 1, ipv4_segments := 1, id_length := 0,
     char_buf := replicate 6 NUL, char_pos := 0, char_size := 0, is_utf8 := False,
     found_url := (found_url p)\<lparr>url_type := Type_undefined\<rparr>, need_to_check_domain := True,
     tail_size := 0\<rparr>"

subsection \<open>Comparing with the fixed links\<close>

definition is_equal :: "cstring \<Rightarrow> url_parser \<Rightarrow> bool" where
  "is_equal text p =
    (if \<not> is_utf8 p
     then (case text of [] \<Rightarrow> cur_char p = NUL \<or> ctolower (cur_char p) = NUL
           | t # _ \<Rightarrow> cur_char p = t \<or> ctolower (cur_char p) = t)
     else take (char_size p) (char_buf p) = take (char_size p) (text @ [NUL]))"

record compare_acc =
  has_partial_match :: bool
  end_reached :: bool
  min_safe_pos :: int
  acc_ok_state :: states

fun compare_items ::
  "nat \<Rightarrow> url_parser \<Rightarrow> compare_item list \<Rightarrow> compare_acc \<Rightarrow> compare_item list \<times> compare_acc" where
  "compare_items pos p [] acc = ([], acc)"
| "compare_items pos p (item # items) acc =
    (if 0 < pos \<and> \<not> ci_match item \<or> int (length (ci_str item)) - 1 < int pos \<and> ci_str item \<noteq> []
     then (let (items, acc) = compare_items pos p items acc in (item # items, acc))
     else let m = is_equal (drop pos (ci_str item)) p;
              item = item\<lparr>ci_match := m\<rparr>;
              at_end = (end_reached acc \<and> length (ci_str item) = Suc pos);
              acc = acc\<lparr>has_partial_match := has_partial_match acc \<or> m, end_reached := at_end,
                min_safe_pos := (if m \<and> ci_safe_pos item < min_safe_pos acc \<or> min_safe_pos acc = -1
                                 then ci_safe_pos item else min_safe_pos acc),
                acc_ok_state := (if at_end \<and> m then ci_ok_state item else acc_ok_state acc)\<rparr>;
              (items, acc) = compare_items pos p items acc
          in (item # items, acc))"

datatype fixed_urls_compare_state = Cmp_match | Cmp_no_match | Cmp_in_progress

definition compare_fixed_urls :: "url_parser \<Rightarrow> fixed_urls_compare_state \<times> url_parser" where
  "compare_fixed_urls p =
    (let (items, acc) = compare_items (compare_pos p) p (fixed_urls p)
           \<lparr>has_partial_match = False, end_reached = True, min_safe_pos = -1, acc_ok_state = ok_state p\<rparr>;
         p = p\<lparr>fixed_urls := items, ok_state := acc_ok_state acc\<rparr>;
         p = (if has_partial_match acc
              then let cb = compare_buf p @ cur_bytes p
                   in p\<lparr>compare_buf := cb, buf := buf p @ [cb ! compare_pos p],
                        compare_pos := compare_pos p + char_size p, safe_position := min_safe_pos acc\<rparr>
              else p)
     in (if has_partial_match acc \<and> \<not> end_reached acc then Cmp_in_progress
         else if has_partial_match acc \<and> end_reached acc then Cmp_match
         else Cmp_no_match, p))"

definition start_fixed_urls_compare :: "states \<Rightarrow> url_parser \<Rightarrow> url_parser" where
  "start_fixed_urls_compare fallback p =
    (let p = p\<lparr>compare_pos := 0, safe_position := 0, compare_buf := [], fallback_state := fallback,
               compare_starts := Suc (compare_starts p),
               fixed_urls := map (\<lambda>i. i\<lparr>ci_match := False\<rparr>) (fixed_urls p)\<rparr>;
         (r, p) = compare_fixed_urls p
     in set_state (case r of Cmp_match \<Rightarrow> ok_state p | Cmp_no_match \<Rightarrow> fallback_state p
                           | Cmp_in_progress \<Rightarrow> S_compare) p)"

subsection \<open>The states before the host\<close>

definition start_protocol :: "protocol \<Rightarrow> url_parser \<Rightarrow> outcome" where
  "start_protocol pr p = go S_protocol_t1 (set_protocol pr p)"

definition step_lookup_without_fixed_urls :: "url_parser \<Rightarrow> outcome" where
  "step_lookup_without_fixed_urls p =
    (if letter CHR ''w'' p then go S_www_2 p
     else if letter CHR ''h'' p then start_protocol Proto_http p
     else if letter CHR ''f'' p then start_protocol Proto_ftp p
     else if letter CHR ''s'' p then start_protocol Proto_sftp p
     else if letter CHR ''v'' p then start_protocol Proto_vnc p
     else if letter CHR ''r'' p then start_protocol Proto_rdp p
     else if letter CHR ''i'' p then start_protocol Proto_icq p
     else if letter CHR ''m'' p then start_protocol Proto_agent p
     else if is_bytes left_double_quote p then Return p
     else if is_bytes left_quote p then Return (p\<lparr>num_processed := 0\<rparr>)
     else if is_letter_or_digit p then go S_host (save_char_to_domain p)
     else Return (p\<lparr>num_processed := 0\<rparr>))"

definition step_lookup :: "url_parser \<Rightarrow> outcome" where
  "step_lookup p =
    (let p = p\<lparr>num_processed := 1\<rparr>
     in if List.member (compare_set p) (cur_char p)
        then Return (start_fixed_urls_compare S_lookup_without_fixed_urls p)
        else step_lookup_without_fixed_urls p)"

definition step_protocol_t1 :: "url_env \<Rightarrow> url_parser \<Rightarrow> outcome" where
  "step_protocol_t1 env p =
    (if letter CHR ''t'' p then go (if up_protocol p = Proto_ftp then S_protocol_p else S_protocol_t2) p
     else if letter CHR ''d'' p then go S_protocol_d p
     else if letter CHR ''f'' p then go S_protocol_t2 p
     else if letter CHR ''n'' p then go S_protocol_n p
     else if letter CHR ''s'' p then go S_protocol_h (set_protocol Proto_ssh p)
     else if letter CHR ''c'' p \<and> up_protocol p = Proto_icq \<and> is_supported_scheme env ''icq''
     then go S_protocol_c p
     else if letter CHR ''a'' p \<and> up_protocol p = Proto_agent \<and> is_supported_scheme env ''magent''
     then go S_protocol_a p
     else if letter CHR ''y'' p \<and> is_supported_scheme env ''myteam-messenger''
     then go S_protocol_y (set_protocol Proto_biz p)
     else space_or_host p)"

definition step_protocol_t2 :: "url_parser \<Rightarrow> outcome" where
  "step_protocol_t2 p =
    (if letter CHR ''t'' p then go S_protocol_p p
     else if letter CHR ''d'' p then go S_protocol_d p
     else space_or_host p)"

definition step_protocol_p :: "url_parser \<Rightarrow> outcome" where
  "step_protocol_p p =
    (if letter CHR ''p'' p then go (if up_protocol p = Proto_sftp then S_delimeter_colon else S_protocol_s) p
     else if letter CHR ''d'' p then go S_protocol_d p
     else space_or_host p)"

definition step_protocol_c :: "url_parser \<Rightarrow> outcome" where
  "step_protocol_c p = (if letter CHR ''q'' p then go S_protocol_q p else space_or_host p)"

definition step_protocol_h :: "url_parser \<Rightarrow> outcome" where
  "step_protocol_h p = (if letter CHR ''h'' p then go S_delimeter_colon p else space_or_host p)"

definition step_protocol_tq :: "url_parser \<Rightarrow> outcome" where
  "step_protocol_tq p =
    (if char_is CHR '':'' p then go S_delimeter_slash1 p
     else if letter CHR ''e'' p then go S_protocol_e p
     else if is_allowable_char p then to_host p
     else Reset p)"

definition step_protocol_s :: "url_parser \<Rightarrow> outcome" where
  "step_protocol_s p =
    (if letter CHR ''s'' p
     then go S_delimeter_colon (set_protocol (if up_protocol p = Proto_http then Proto_https else Proto_ftps) p)
     else if char_is CHR ''.'' p then go S_host_dot (set_protocol Proto_undefined p)
     else if char_is CHR '':'' p then go S_delimeter_slash1 p
     else if is_allowable_char p then to_host p
     else Reset p)"

definition step_protocol_a :: "url_parser \<Rightarrow> outcome" where
  "step_protocol_a p =
    (if letter CHR ''g'' p then go S_protocol_g p
     else if letter CHR ''m'' p then go S_protocol_m p
     else space_or_host p)"

definition step_protocol_g :: "url_parser \<Rightarrow> outcome" where
  "step_protocol_g p = (if letter CHR ''e'' p then go S_protocol_e p else space_or_host p)"

definition step_protocol_e :: "url_parser \<Rightarrow> outcome" where
  "step_protocol_e p =
    (if letter CHR ''n'' p then go S_protocol_n p
     else if letter CHR ''a'' p then go S_protocol_a p
     else if letter CHR ''s'' p then go S_protocol_s1 p
     else if letter CHR ''g'' p then go S_protocol_g p
     else if letter CHR ''r'' p then go S_protocol_r p
     else space_or_host p)"

text \<open>
  In \<open>protocol_n\<close> the first \<open>if\<close> is not followed by an \<open>else\<close>: after \<open>t\<close> the second chain is entered
  as well.
\<close>

definition step_protocol_n :: "url_parser \<Rightarrow> outcome" where
  "step_protocol_n p =
    (let p = (if letter CHR ''t'' p then set_state S_protocol_t p else p)
     in if letter CHR ''c'' p \<and> up_protocol p = Proto_vnc then go S_delimeter_colon p
        else if letter CHR ''g'' p then go S_protocol_g p
        else space_or_host p)"

definition step_protocol_y :: "url_parser \<Rightarrow> outcome" where
  "step_protocol_y p = (if letter CHR ''t'' p then go S_protocol_t p else space_or_host p)"

definition step_protocol_m :: "url_parser \<Rightarrow> outcome" where
  "step_protocol_m p = (if char_is CHR ''-'' p then go S_delimeter_dash p else space_or_host p)"

definition step_protocol_m1 :: "url_parser \<Rightarrow> outcome" where
  "step_protocol_m1 p = (if letter CHR ''e'' p then go S_protocol_e p else space_or_host p)"

definition step_protocol_s1 :: "url_parser \<Rightarrow> outcome" where
  "step_protocol_s1 p =
    (if letter CHR ''s'' p then go S_protocol_s1 p
     else if letter CHR ''e'' p then go S_protocol_e p
     else space_or_host p)"

definition step_protocol_r :: "url_parser \<Rightarrow> outcome" where
  "step_protocol_r p = (if char_is CHR '':'' p then go S_delimeter_slash1 p else space_or_host p)"

definition step_protocol_d :: "url_env \<Rightarrow> url_parser \<Rightarrow> outcome" where
  "step_protocol_d env p =
    (if letter CHR ''p'' p \<and> up_protocol p = Proto_rdp then go S_delimeter_colon p
     else if char_is CHR ''-'' p \<and> is_supported_scheme env ''itd-messenger''
     then go S_delimeter_dash (set_protocol Proto_dit p)
     else space_or_host p)"

definition step_delimeter_dash :: "url_parser \<Rightarrow> outcome" where
  "step_delimeter_dash p = (if letter CHR ''m'' p then go S_protocol_m1 p else space_or_host p)"

definition step_check_www :: "url_parser \<Rightarrow> outcome" where
  "step_check_www p =
    (if letter CHR ''w'' p then go S_www_2 p
     else if List.member (compare_set p) (cur_char p) then Return (start_fixed_urls_compare S_host p)
     else if is_allowable_char p then go S_host (save_char_to_domain p)
     else Reset p)"

definition step_www :: "url_parser \<Rightarrow> outcome" where
  "step_www p =
    (if up_state p = S_www_4
     then (if char_is CHR ''.'' p then go S_check_filesharing p
           else if is_allowable_char p then go S_host p else Reset p)
     else if letter CHR ''w'' p then go (if up_state p = S_www_2 then S_www_3 else S_www_4) p
     else if is_allowable_char p then go S_host p
     else Reset p)"

definition step_compare :: "url_parser \<Rightarrow> outcome" where
  "step_compare p =
    (let p = (if up_state p = S_compare \<and> safe_position p \<noteq> 0 \<and> safe_position p \<le> int (compare_pos p)
              then set_state S_compare_safe p else p);
         (r, p) = compare_fixed_urls p
     in case r of Cmp_no_match \<Rightarrow> Fallback p
        | Cmp_match \<Rightarrow> Return (set_state (ok_state p) p)
        | Cmp_in_progress \<Rightarrow> Return p)"

definition step_delimeters :: "url_parser \<Rightarrow> outcome" where
  "step_delimeters p =
    (if up_state p = S_delimeter_colon
     then (if char_is CHR '':'' p then go S_delimeter_slash1 p
           else if char_is CHR ''.'' p then go S_host_dot (set_protocol Proto_undefined p)
           else if is_allowable_char p then go S_host (set_protocol Proto_undefined p)
           else Reprocess (set_state S_host p))
     else if up_state p = S_delimeter_slash1
     then (if char_is CHR ''/'' p then go S_delimeter_slash2 p else Reset p)
     else (if char_is CHR ''/'' p then go S_check_www (p\<lparr>has_protocol_prefix := True\<rparr>) else Reset p))"

definition step_id :: "url_parser \<Rightarrow> outcome" where
  "step_id p =
    (let p = p\<lparr>id_length := id_length p + 1\<rparr>
     in if is_space p
        then (if min_profile_id_length \<le> id_length p then Found p
              else Found ((set_state S_host p)\<lparr>need_to_check_domain := False\<rparr>))
        else if char_is CHR ''?'' p then go S_query p
        else if \<not> is_allowed_profile_id_char p then Reset p
        else Break p)"

definition step_check_filesharing :: "url_parser \<Rightarrow> outcome" where
  "step_check_filesharing p =
    (if List.member (compare_set p) (cur_char p) then Return (start_fixed_urls_compare S_host p)
     else if is_allowable_char p then go S_host (save_char_to_domain p)
     else Reset p)"

definition step_password :: "url_parser \<Rightarrow> outcome" where
  "step_password p =
    (if char_is CHR ''@'' p then go S_host p else if \<not> is_allowable_char p then Reset p else Break p)"

subsection \<open>Host, port and path\<close>

definition found_if_tld :: "url_env \<Rightarrow> url_parser \<Rightarrow> outcome" where
  "found_if_tld env p = (if is_valid_top_level_domain env p (domain p) then Found p else Reset p)"

definition step_host :: "url_parser \<Rightarrow> outcome" where
  "step_host p =
    (if char_is CHR ''.'' p then go S_host_dot p
     else if char_is CHR '':'' p then go S_host_colon p
     else if char_is CHR ''@'' p then go S_host_at p
     else if char_is CHR ''/'' p then (if up_protocol p = Proto_undefined then Reset p else Break p)
     else if char_is CHR ''?'' p
     then (if up_protocol p \<noteq> Proto_icq \<and> up_protocol p \<noteq> Proto_agent \<and>
              up_protocol p \<noteq> Proto_biz \<and> up_protocol p \<noteq> Proto_dit then Reset p else Break p)
     else if \<not> is_allowable_char p
     then (if up_protocol p \<noteq> Proto_undefined then Found p else Reset p)
     else Break (save_char_to_domain p))"

definition step_host_n :: "url_env \<Rightarrow> url_parser \<Rightarrow> outcome" where
  "step_host_n env p =
    (let valid = is_valid_top_level_domain env p (domain p)
     in if char_is CHR ''.'' p then go S_host_dot p
        else if char_is CHR '':'' p
        then (if \<not> up_is_email p \<and> valid then go S_host_colon p else Reset p)
        else if char_is CHR ''@'' p
        then (if up_is_email p \<or> is_not_email p then Reset p
              else if is_black_list_email_host (domain p) then Break p
              else go S_host (p\<lparr>up_is_email := True\<rparr>))
        else if char_is CHR ''/'' p
        then (if \<not> up_is_email p \<and> valid then go S_host_slash p else Reset p)
        else if char_is CHR ''?'' p
        then (if up_is_email p then Found p else if valid then go S_query p else Reset p)
        else if char_is CHR ''#'' p
        then (if \<not> up_is_email p \<and> valid then go S_query p else Reset p)
        else if is_space p then found_if_tld env p
        else if is_ending_char (cur_char p) then found_if_tld env p
        else if is_bytes right_double_quote p then found_if_tld env p
        else if is_bytes right_quote p then found_if_tld env p
        else if \<not> is_letter_or_digit p \<and> \<not> char_is CHR ''-'' p \<and> \<not> char_is CHR ''_'' p then Reset p
        else Break (save_char_to_domain p))"

definition step_host_at :: "url_parser \<Rightarrow> outcome" where
  "step_host_at p =
    (if \<not> is_allowable_char p then Reset p
     else if up_protocol p \<noteq> Proto_undefined then go S_host p
     else if is_black_list_email_host (domain p) then Break p
     else if up_is_email p \<or> is_not_email p then Reset p
     else go S_host (p\<lparr>up_is_email := True\<rparr>))"

definition step_host_dot :: "url_parser \<Rightarrow> outcome" where
  "step_host_dot p =
    (let p = p\<lparr>domain_segments := domain_segments p + 1\<rparr>;
         p = (if is_ipv4_segment (domain p) then p\<lparr>ipv4_segments := ipv4_segments p + 1\<rparr> else p)
     in if is_letter_or_digit p then go S_host_n (save_char_to_domain (p\<lparr>domain := []\<rparr>))
        else if is_space p then Found (p\<lparr>domain_segments := domain_segments p - 1\<rparr>)
        else Reset p)"

definition step_host_colon :: "url_parser \<Rightarrow> outcome" where
  "step_host_colon p =
    (if is_digit p then go S_port p else if is_allowable_char p then go S_password p else Reset p)"

definition step_host_slash :: "url_parser \<Rightarrow> outcome" where
  "step_host_slash p =
    (if char_is CHR ''/'' p then Break p
     else if is_allowable_char p then go S_path p
     else if is_space p then Found p
     else Reset p)"

definition step_port :: "url_env \<Rightarrow> url_parser \<Rightarrow> outcome" where
  "step_port env p =
    (if char_is CHR ''/'' p
     then (if is_valid_top_level_domain env p (domain p) then go S_port_slash p else Reset p)
     else if is_digit p then Break p
     else if char_is CHR ''@'' p then go S_host p
     else if is_allowable_char p then go S_password p
     else Reset p)"

definition step_port_dot :: "url_parser \<Rightarrow> outcome" where
  "step_port_dot p = (if is_digit p then go S_port p else Reset p)"

definition step_port_slash :: "url_parser \<Rightarrow> outcome" where
  "step_port_slash p =
    (if is_letter_or_digit p then go S_path p else if is_space p then Found p else Reset p)"

definition step_path :: "url_env \<Rightarrow> url_parser \<Rightarrow> outcome" where
  "step_path env p =
    (if char_is CHR ''.'' p then go S_path_dot p
     else if char_is CHR ''/'' p then go S_path_slash p
     else if char_is CHR ''?'' p then go S_query p
     else if is_space p then Found p
     else if is_bytes right_double_quote p then found_if_tld env p
     else if is_bytes right_quote p then found_if_tld env p
     else if is_allowable_char p then Break p
     else if is_ending_char (cur_char p) then found_if_tld env p
     else Break p)"

definition step_path_dot :: "url_parser \<Rightarrow> outcome" where
  "step_path_dot p =
    (if letter CHR ''j'' p then go S_jpg_p p
     else if letter CHR ''p'' p then go S_png_n p
     else if letter CHR ''g'' p then go S_gif_i p
     else if letter CHR ''b'' p then go S_bmp_m p
     else if letter CHR ''t'' p then go S_tiff_i p
     else if letter CHR ''a'' p then go S_avi_v p
     else if letter CHR ''m'' p then go S_mkv_k p
     else if letter CHR ''f'' p then go S_flv_l p
     else if letter CHR ''s'' p then go S_svg_v p
     else if char_is CHR ''3'' p then go S_3gp_g p
     else if letter CHR ''w'' p then go S_webm_e p
     else if is_allowable_char p then go S_path p
     else if is_space p then Found p
     else Reset p)"

definition step_path_slash :: "url_parser \<Rightarrow> outcome" where
  "step_path_slash p =
    (if is_space p then Found p
     else if char_is CHR ''?'' p then go S_query p
     else if is_allowable_char p then go S_path p
     else Reset p)"

subsection \<open>File extensions\<close>

text \<open>
  The states of the extensions all have the same form: some letters lead to the next state or
  complete an extension, any other allowed character goes back to \<open>path\<close>. The transitions are a
  table: state, letter, next state, and the extension that is complete with it.
\<close>

definition image_transitions :: "(states \<times> byte \<times> states \<times> extension option) list" where
  "image_transitions =
    [(S_jpg_p, CHR ''p'', S_jpg_g, None),
     (S_jpg_g, CHR ''g'', S_query_or_end, Some Ext_jpg),
     (S_jpg_g, CHR ''e'', S_jpg_e, None),
     (S_jpg_e, CHR ''g'', S_query_or_end, Some Ext_jpeg),
     (S_png_n, CHR ''n'', S_png_g, None),
     (S_png_g, CHR ''g'', S_query_or_end, Some Ext_png),
     (S_gif_i, CHR ''i'', S_gif_f, None),
     (S_gif_f, CHR ''f'', S_query_or_end, Some Ext_gif),
     (S_bmp_m, CHR ''m'', S_bmp_p, None),
     (S_bmp_p, CHR ''p'', S_query_or_end, Some Ext_bmp),
     (S_tiff_i, CHR ''i'', S_tiff_f1, None),
     (S_tiff_f1, CHR ''f'', S_tiff_f2, None),
     (S_tiff_f2, CHR ''f'', S_query_or_end, Some Ext_tiff),
     (S_svg_v, CHR ''v'', S_svg_g, None),
     (S_svg_g, CHR ''g'', S_query_or_end, Some Ext_svg)]"

definition video_transitions :: "(states \<times> byte \<times> states \<times> extension option) list" where
  "video_transitions =
    [(S_avi_v, CHR ''v'', S_avi_i, None),
     (S_avi_i, CHR ''i'', S_query_or_end, Some Ext_avi),
     (S_mkv_k, CHR ''k'', S_mkv_v, None),
     (S_mkv_k, CHR ''o'', S_mov_v, None),
     (S_mkv_k, CHR ''p'', S_mpeg4_e, None),
     (S_mkv_v, CHR ''v'', S_query_or_end, Some Ext_mkv),
     (S_mov_v, CHR ''v'', S_query_or_end, Some Ext_mov),
     (S_mpeg4_e, CHR ''e'', S_mpeg4_g, None),
     (S_mpeg4_e, CHR ''4'', S_query_or_end, Some Ext_mpeg4),
     (S_mpeg4_g, CHR ''g'', S_mpeg4_4, None),
     (S_mpeg4_4, CHR ''4'', S_query_or_end, Some Ext_mpeg4),
     (S_flv_l, CHR ''l'', S_flv_v, None),
     (S_flv_v, CHR ''v'', S_query_or_end, Some Ext_flv),
     (S_3gp_g, CHR ''g'', S_3gp_p, None),
     (S_3gp_p, CHR ''p'', S_query_or_end, Some Ext_3gp),
     (S_webm_e, CHR ''e'', S_webm_b, None),
     (S_webm_e, CHR ''m'', S_wmv_v, None),
     (S_webm_b, CHR ''b'', S_webm_m, None),
     (S_webm_m, CHR ''m'', S_query_or_end, Some Ext_webm),
     (S_wmv_v, CHR ''v'', S_query_or_end, Some Ext_wmv)]"

definition letter_or_digit_is :: "byte \<Rightarrow> url_parser \<Rightarrow> bool" where
  "letter_or_digit_is l p = (if ascii_digit l then char_is l p else letter l p)"

definition step_extension ::
  "(states \<times> byte \<times> states \<times> extension option) list \<Rightarrow> url_parser \<Rightarrow> outcome" where
  "step_extension table p =
    (case List.find (\<lambda>(s, l, _). s = up_state p \<and> letter_or_digit_is l p) table of
       Some (_, _, next, None) \<Rightarrow> go next p
     | Some (_, _, next, Some e) \<Rightarrow> go next (p\<lparr>up_extension := e\<rparr>)
     | None \<Rightarrow> if is_allowable_char p then go S_path p else Reset p)"

definition step_query_or_end :: "url_parser \<Rightarrow> outcome" where
  "step_query_or_end p =
    (if is_space p then Found p
     else if char_is CHR ''>'' p then Found p
     else if List.member [CHR ''?'', CHR ''!'', CHR '','', CHR ''#'', CHR ''/'', CHR '':'', CHR ''.''] (cur_char p)
     then go S_query p
     else if char_is CHR ''_'' p then go S_path p
     else if is_letter_or_digit p then go S_query (p\<lparr>up_extension := Ext_undefined\<rparr>)
     else Reset p)"

definition step_query :: "url_parser \<Rightarrow> outcome" where
  "step_query p =
    (if is_space p then Found p else if \<not> is_allowable_query_char p then Reset p else Break p)"

definition step_protocol :: "url_env \<Rightarrow> url_parser \<Rightarrow> outcome option" where
  "step_protocol env p =
    (case up_state p of
       S_protocol_t1 \<Rightarrow> Some (step_protocol_t1 env p) | S_protocol_t2 \<Rightarrow> Some (step_protocol_t2 p)
     | S_protocol_p \<Rightarrow> Some (step_protocol_p p) | S_protocol_c \<Rightarrow> Some (step_protocol_c p)
     | S_protocol_h \<Rightarrow> Some (step_protocol_h p) | S_protocol_t \<Rightarrow> Some (step_protocol_tq p)
     | S_protocol_q \<Rightarrow> Some (step_protocol_tq p) | S_protocol_s \<Rightarrow> Some (step_protocol_s p)
     | S_protocol_a \<Rightarrow> Some (step_protocol_a p) | S_protocol_g \<Rightarrow> Some (step_protocol_g p)
     | S_protocol_e \<Rightarrow> Some (step_protocol_e p) | S_protocol_n \<Rightarrow> Some (step_protocol_n p)
     | S_protocol_y \<Rightarrow> Some (step_protocol_y p) | S_protocol_m \<Rightarrow> Some (step_protocol_m p)
     | S_protocol_m1 \<Rightarrow> Some (step_protocol_m1 p) | S_protocol_s1 \<Rightarrow> Some (step_protocol_s1 p)
     | S_protocol_r \<Rightarrow> Some (step_protocol_r p) | S_protocol_d \<Rightarrow> Some (step_protocol_d env p)
     | S_delimeter_dash \<Rightarrow> Some (step_delimeter_dash p) | S_check_www \<Rightarrow> Some (step_check_www p)
     | S_www_2 \<Rightarrow> Some (step_www p) | S_www_3 \<Rightarrow> Some (step_www p) | S_www_4 \<Rightarrow> Some (step_www p)
     | S_delimeter_colon \<Rightarrow> Some (step_delimeters p) | S_delimeter_slash1 \<Rightarrow> Some (step_delimeters p)
     | S_delimeter_slash2 \<Rightarrow> Some (step_delimeters p)
     | _ \<Rightarrow> None)"

definition step_other :: "url_env \<Rightarrow> url_parser \<Rightarrow> outcome" where
  "step_other env p =
    (case up_state p of
       S_lookup \<Rightarrow> step_lookup p
     | S_lookup_without_fixed_urls \<Rightarrow> step_lookup_without_fixed_urls p
     | S_compare \<Rightarrow> step_compare p | S_compare_safe \<Rightarrow> step_compare p
     | S_filesharing_id \<Rightarrow> step_id p | S_profile_id \<Rightarrow> step_id p
     | S_check_filesharing \<Rightarrow> step_check_filesharing p | S_password \<Rightarrow> step_password p
     | S_host \<Rightarrow> step_host p | S_host_n \<Rightarrow> step_host_n env p | S_host_at \<Rightarrow> step_host_at p
     | S_host_dot \<Rightarrow> step_host_dot p | S_host_colon \<Rightarrow> step_host_colon p
     | S_host_slash \<Rightarrow> step_host_slash p | S_port \<Rightarrow> step_port env p | S_port_dot \<Rightarrow> step_port_dot p
     | S_port_slash \<Rightarrow> step_port_slash p | S_path \<Rightarrow> step_path env p
     | S_path_dot \<Rightarrow> step_path_dot p | S_path_slash \<Rightarrow> step_path_slash p
     | S_query_or_end \<Rightarrow> step_query_or_end p | S_query \<Rightarrow> step_query p
     | S_protocol_f \<Rightarrow> Break p | S_protocol_v \<Rightarrow> Break p | S_svg_s \<Rightarrow> Break p
     | s \<Rightarrow> step_extension (image_transitions @ video_transitions) p)"

definition up_step :: "url_env \<Rightarrow> url_parser \<Rightarrow> outcome" where
  "up_step env p = (case step_protocol env p of Some oc \<Rightarrow> oc | None \<Rightarrow> step_other env p)"

subsection \<open>Building the link\<close>

definition protocol_prefix :: "protocol \<Rightarrow> cstring" where
  "protocol_prefix pr = (case pr of
     Proto_undefined \<Rightarrow> ''http://'' | Proto_http \<Rightarrow> ''http://'' | Proto_ftp \<Rightarrow> ''ftp://''
   | Proto_https \<Rightarrow> ''https://'' | Proto_ftps \<Rightarrow> ''ftps://'' | Proto_sftp \<Rightarrow> ''sftp://''
   | Proto_vnc \<Rightarrow> ''vnc://'' | Proto_rdp \<Rightarrow> ''rdp://'' | Proto_ssh \<Rightarrow> ''ssh://'' | Proto_icq \<Rightarrow> ''icq://''
   | Proto_agent \<Rightarrow> ''magent://'' | Proto_biz \<Rightarrow> ''myteam-messenger://''
   | Proto_dit \<Rightarrow> ''itd-messenger://'')"

definition make_url :: "url_type \<Rightarrow> url_parser \<Rightarrow> url" where
  "make_url ty p =
    (if \<not> has_protocol_prefix p \<and> ty \<noteq> Type_email
     then make_url_original (buf p) (protocol_prefix (up_protocol p) @ buf p) ty
       (if up_protocol p = Proto_undefined then Proto_http else up_protocol p) (up_extension p)
     else make_url_same (buf p) ty (up_protocol p) (up_extension p))"

definition no_url_states :: "states list" where
  "no_url_states = [S_lookup, S_protocol_t1, S_protocol_t2, S_protocol_p, S_protocol_s, S_protocol_c,
     S_protocol_d, S_protocol_q, S_protocol_a, S_protocol_g, S_protocol_e, S_protocol_m,
     S_protocol_m1, S_protocol_r, S_protocol_y, S_protocol_s1, S_protocol_n, S_protocol_t,
     S_protocol_f, S_protocol_h, S_protocol_v, S_check_www, S_www_2, S_www_3, S_www_4, S_compare,
     S_delimeter_colon, S_delimeter_dash, S_delimeter_slash1, S_delimeter_slash2,
     S_check_filesharing, S_password, S_host_colon]"

text \<open>
  Ending characters are taken off the reversed buffer; \<open>None\<close> is \<open>back()\<close> of the empty string.
\<close>

fun trim_ending :: "cstring \<Rightarrow> int \<Rightarrow> (cstring \<times> int) option" where
  "trim_ending [] n = None"
| "trim_ending (c # cs) n = (if is_ending_char c then trim_ending cs (n + 1) else Some (c # cs, n))"

definition trim_buf :: "url_parser \<Rightarrow> url_parser option" where
  "trim_buf p =
    (if buf p = [] then Some p
     else Option.bind (trim_ending (rev (buf p)) (tail_size p)) (\<lambda>(rb, n).
       if hd rb = CHR '')''
       then (case tl rb of
               [] \<Rightarrow> None
             | d # ds \<Rightarrow> Some (if d \<noteq> CHR ''/'' then p\<lparr>buf := rev (CHR '')'' # d # ds), tail_size := n\<rparr>
                             else p\<lparr>buf := rev (d # ds), tail_size := n + 1\<rparr>))
       else Some (p\<lparr>buf := rev rb, tail_size := n\<rparr>)))"

definition is_image_ext :: "extension \<Rightarrow> bool" where
  "is_image_ext e = List.member [Ext_bmp, Ext_gif, Ext_jpeg, Ext_jpg, Ext_png, Ext_svg, Ext_tiff] e"

definition is_video_ext :: "extension \<Rightarrow> bool" where
  "is_video_ext e = List.member [Ext_3gp, Ext_avi, Ext_flv, Ext_mkv, Ext_mov, Ext_mpeg4, Ext_webm, Ext_wmv] e"

definition save_as :: "url_type \<Rightarrow> url_parser \<Rightarrow> bool \<times> url_parser" where
  "save_as ty p = (True, p\<lparr>found_url := make_url ty p\<rparr>)"

definition save_trimmed :: "url_env \<Rightarrow> url_parser \<Rightarrow> bool \<times> url_parser" where
  "save_trimmed env p =
    (if up_is_email p \<and> up_protocol p = Proto_undefined \<and> is_valid_top_level_domain env p (domain p)
     then save_as Type_email p
     else if is_image_ext (up_extension p) then save_as Type_image p
     else if is_video_ext (up_extension p) then save_as Type_video p
     else let is_filesharing_link = (up_state p = S_filesharing_id \<and> min_filesharing_id_length \<le> id_length p);
              is_filesharing_with_query = (up_state p = S_query \<and> ok_state p = S_filesharing_id \<and>
                min_filesharing_id_length \<le> id_length p)
          in if is_filesharing_link \<or> is_filesharing_with_query then save_as Type_filesharing p
             else if need_to_check_domain p \<and> \<not> is_valid_top_level_domain env p (domain p) then (False, p)
             else save_as (if up_protocol p = Proto_ftp \<or> up_protocol p = Proto_ftps
                           then Type_ftp else Type_site) p)"

definition save_url :: "url_env \<Rightarrow> url_parser \<Rightarrow> (bool \<times> url_parser) option" where
  "save_url env p =
    (if List.member no_url_states (up_state p) then Some (False, p)
     else if up_state p = S_compare_safe
     then Some (save_as (if List.member [Proto_ftp, Proto_ftps, Proto_sftp, Proto_ssh, Proto_vnc, Proto_rdp]
                              (up_protocol p) then Type_ftp else Type_site) p)
     else if up_state p = S_profile_id then Some (save_as Type_profile p)
     else if up_state p = S_host \<and> up_protocol p = Proto_undefined then Some (False, p)
     else if domain_segments p = 1 \<and> up_state p \<noteq> S_filesharing_id \<and> up_protocol p = Proto_undefined
     then Some (False, p)
     else Option.bind (trim_buf p) (\<lambda>p.
       Some (save_trimmed env (if is_nbsp p then p\<lparr>tail_size := tail_size p + 1\<rparr> else p))))"

subsection \<open>Processing characters\<close>

datatype progress = Done url_parser | Falling url_parser | Undefined

definition finish_found :: "url_env \<Rightarrow> url_parser \<Rightarrow> progress" where
  "finish_found env p =
    (case save_url env p of
       None \<Rightarrow> Undefined
     | Some (ok, p) \<Rightarrow> Done (if ok then p else up_reset p))"

definition leave_case :: "url_env \<Rightarrow> outcome \<Rightarrow> progress" where
  "leave_case env oc =
    (case oc of
       Break p \<Rightarrow> Done (save_char_to_buf p)
     | Return p \<Rightarrow> Done p
     | Reset p \<Rightarrow> Done (up_reset p)
     | Found p \<Rightarrow> finish_found env p
     | Fallback p \<Rightarrow> Falling p
     | Reprocess p \<Rightarrow> Undefined)"

definition process_one :: "url_env \<Rightarrow> url_parser \<Rightarrow> progress" where
  "process_one env p =
    (case up_step env p of
       Reprocess p \<Rightarrow> leave_case env (step_host p)
     | oc \<Rightarrow> leave_case env oc)"

text \<open>One byte: bytes are collected until a character is complete.\<close>

definition collect :: "byte \<Rightarrow> url_parser \<Rightarrow> bool \<times> url_parser" where
  "collect c p =
    (let p = p\<lparr>char_buf := (char_buf p)[char_pos p := c]\<rparr>
     in if 0 < char_pos p
        then (if Suc (char_pos p) < char_size p then (False, p\<lparr>char_pos := Suc (char_pos p)\<rparr>)
              else (True, p\<lparr>char_pos := 0\<rparr>))
        else let size = utf8_char_size c;
                 p = p\<lparr>char_size := size, is_utf8 := (1 < size)\<rparr>
             in if \<not> is_utf8 p then (True, p) else (False, p\<lparr>char_pos := 1\<rparr>))"

definition feed_one :: "url_env \<Rightarrow> byte \<Rightarrow> url_parser \<Rightarrow> progress" where
  "feed_one env c p = (let (complete, p) = collect c p in if complete then process_one env p else Done p)"

fun replay_chars :: "url_env \<Rightarrow> cstring \<Rightarrow> url_parser \<Rightarrow> url_parser option" where
  "replay_chars env [] p = Some p"
| "replay_chars env (c # cs) p =
    (case feed_one env c p of
       Done p' \<Rightarrow> if compare_starts p' = compare_starts p then replay_chars env cs p' else None
     | _ \<Rightarrow> None)"

definition fallback :: "url_env \<Rightarrow> byte \<Rightarrow> url_parser \<Rightarrow> url_parser option" where
  "fallback env last_char p =
    (let p = set_state (fallback_state p) p
     in if length (buf p) < compare_pos p then None
        else do {
          p \<leftarrow> replay_chars env (compare_buf p) (p\<lparr>buf := take (length (buf p) - compare_pos p) (buf p)\<rparr>);
          (case feed_one env last_char p of Done p \<Rightarrow> Some p | _ \<Rightarrow> None)
        })"

definition process_byte :: "url_env \<Rightarrow> byte \<Rightarrow> url_parser \<Rightarrow> url_parser option" where
  "process_byte env c p =
    (case feed_one env c p of
       Done p \<Rightarrow> Some p
     | Falling p \<Rightarrow> fallback env (cur_char p) p
     | Undefined \<Rightarrow> None)"

definition has_url :: "url_env \<Rightarrow> url_parser \<Rightarrow> bool" where
  "has_url env p = (url_type (found_url p) \<noteq> Type_undefined \<and> \<not> has_prohibited_protocols env (found_url p))"

definition finish :: "url_env \<Rightarrow> url_parser \<Rightarrow> url_parser option" where
  "finish env p = map_option snd (save_url env p)"

fun parse_loop :: "url_env \<Rightarrow> cstring \<Rightarrow> url list \<Rightarrow> url_parser \<Rightarrow> (url list \<times> url_parser) option" where
  "parse_loop env [] urls p = Some (urls, p)"
| "parse_loop env (c # cs) urls p =
    Option.bind (process_byte env c p) (\<lambda>p.
      if has_url env p then parse_loop env cs (urls @ [found_url p]) (up_reset p)
      else parse_loop env cs urls p)"

definition fixed_url_items :: "cstring list \<Rightarrow> compare_item list" where
  "fixed_url_items files =
    map (\<lambda>u. \<lparr>ci_str = u @ ''/'', ci_ok_state = S_filesharing_id, ci_match = False,
              ci_safe_pos = int (length u) - 4 - 1\<rparr>) files @
    [\<lparr>ci_str = ''icq.com/files/'', ci_ok_state = S_filesharing_id, ci_match = False, ci_safe_pos = 6\<rparr>,
     \<lparr>ci_str = ''chat.my.com/files/'', ci_ok_state = S_filesharing_id, ci_match = False, ci_safe_pos = 10\<rparr>]"

definition url_parser_new :: "cstring list \<Rightarrow> url_parser" where
  "url_parser_new files = up_reset
    \<lparr>up_state = S_lookup, up_protocol = Proto_undefined, buf = [], domain = [], compare_buf = [],
     compare_pos = 0, num_processed = 0, fixed_urls = fixed_url_items files,
     compare_set = map (\<lambda>i. hd (ci_str i)) (fixed_url_items files), ok_state = S_lookup,
     fallback_state = S_lookup, safe_position = 0, up_extension = Ext_undefined, is_not_email = False,
     up_is_email = False, has_protocol_prefix = False, domain_segments = 1, ipv4_segments = 1,
     id_length = 0, char_buf = replicate 6 NUL, char_pos = 0, char_size = 0, is_utf8 = False,
     found_url = no_url, need_to_check_domain = True, tail_size = 0, files_urls = files,
     compare_starts = 0\<rparr>"

definition add_fixed_urls :: "compare_item list \<Rightarrow> url_parser \<Rightarrow> url_parser" where
  "add_fixed_urls items p =
    (let items = filter (\<lambda>i. ci_str i \<noteq> []) items
     in p\<lparr>fixed_urls := fixed_urls p @ items, compare_set := compare_set p @ map (\<lambda>i. hd (ci_str i)) items\<rparr>)"

definition parse_urls :: "url_env \<Rightarrow> cstring \<Rightarrow> cstring \<Rightarrow> url list option" where
  "parse_urls env source files_url =
    Option.bind (parse_loop env source [] (url_parser_new [files_url])) (\<lambda>(urls, p).
      Option.bind (finish env p) (\<lambda>p. Some (if has_url env p then urls @ [found_url p] else urls)))"

end
