(* ===== verification/Url_Facts.thy ===== *)
theory Url_Facts
  imports Url_Parser
begin

text \<open>
  Properties of the link recogniser: single steps on plain letters as equations, whole links through
  the loop of \<open>parse_urls\<close>, the recognition of file extensions, the accounting of the characters cut
  off the end of a link, and the absence of undefined behaviour on text without the first letters of
  the fixed links.
\<close>


definition ascii_at :: "byte \<Rightarrow> url_parser \<Rightarrow> url_parser" where
  "ascii_at c p = p\<lparr>char_buf := (char_buf p)[0 := c], char_size := 1, is_utf8 := False\<rparr>"

lemma process_byte_ascii:
  "char_pos p = 0 \<Longrightarrow> utf8_char_size c = 1 \<Longrightarrow> process_byte env c p =
    (case process_one env (ascii_at c p) of
       Done p \<Rightarrow> Some p | Falling p \<Rightarrow> fallback env (cur_char p) p | Undefined \<Rightarrow> None)"
  by (simp add: process_byte_def feed_one_def collect_def ascii_at_def Let_def)

lemma ascii_at_sel [simp]:
  "char_buf p \<noteq> [] \<Longrightarrow> cur_char (ascii_at c p) = c" "char_size (ascii_at c p) = 1" "is_utf8 (ascii_at c p) = False"
  "up_state (ascii_at c p) = up_state p" "char_pos (ascii_at c p) = char_pos p"
  "up_protocol (ascii_at c p) = up_protocol p" "buf (ascii_at c p) = buf p" "domain (ascii_at c p) = domain p"
  "compare_set (ascii_at c p) = compare_set p"
  "char_buf p \<noteq> [] \<Longrightarrow> cur_bytes (ascii_at c p) = [c]"
  by (cases "char_buf p"; simp add: ascii_at_def cur_char_def cur_bytes_def)+

lemma ascii_at_rest [simp]:
  "up_is_email (ascii_at c p) = up_is_email p" "up_extension (ascii_at c p) = up_extension p"
  "has_protocol_prefix (ascii_at c p) = has_protocol_prefix p"
  "domain_segments (ascii_at c p) = domain_segments p" "fixed_urls (ascii_at c p) = fixed_urls p"
  by (simp_all add: ascii_at_def)

lemma cur_bytes_upd [simp]:
  "cur_bytes (p\<lparr>domain := d\<rparr>) = cur_bytes p" "cur_bytes (p\<lparr>up_state := st\<rparr>) = cur_bytes p"
  "cur_bytes (p\<lparr>up_protocol := pr\<rparr>) = cur_bytes p" "cur_bytes (p\<lparr>has_protocol_prefix := b\<rparr>) = cur_bytes p"
  "cur_bytes (p\<lparr>num_processed := k\<rparr>) = cur_bytes p" "cur_bytes (p\<lparr>ipv4_segments := k\<rparr>) = cur_bytes p"
  "cur_bytes (p\<lparr>domain_segments := k\<rparr>) = cur_bytes p" 
  by (simp_all add: cur_bytes_def)

lemma ascii_range:
  assumes "ascii_lower c"
  shows "utf8_char_size c = 1" and "c \<noteq> CHR ''.''" and "c \<noteq> CHR '':''" and "c \<noteq> CHR ''@''" and "c \<noteq> CHR ''/''"
    and "c \<noteq> CHR ''?''" and "c \<noteq> CHR ''#''" and "\<not> is_ending_char c" 
    and "c \<notin> {CHR 0x09, CHR 0x0A, CHR 0x0B, CHR 0x0C, CHR 0x0D, CHR '' ''}"
    and "\<not> ascii_digit c"
  using assms by (auto simp: ascii_lower_def utf8_char_size_def is_ending_char_def ascii_digit_def)

lemma ctolower_lower [simp]: "ascii_lower c \<Longrightarrow> ctolower c = c"
  by (auto simp: ctolower_def ascii_lower_def ascii_upper_def)

definition letters :: "cstring \<Rightarrow> bool" where "letters s \<longleftrightarrow> list_all ascii_lower s"

lemma host_letter:
  assumes "up_state p = S_host" "char_pos p = 0" "char_buf p \<noteq> []" "ascii_lower c"
  shows "process_byte env c p = Some ((ascii_at c p)\<lparr>domain := domain p @ [c], buf := buf p @ [c]\<rparr>)"
  using assms ascii_range [OF assms(4)]
  by (simp add: process_byte_ascii process_one_def up_step_def step_protocol_def step_other_def step_host_def
     char_is_def is_allowable_char_def is_letter_or_digit_def is_letter_def leave_case_def save_char_to_domain_def
     save_char_to_buf_def)
   
lemma host_n_letter:
  assumes "up_state p = S_host_n" "char_pos p = 0" "char_buf p \<noteq> []" "ascii_lower c"
  shows "process_byte env c p = Some ((ascii_at c p)\<lparr>domain := domain p @ [c], buf := buf p @ [c]\<rparr>)"
  using assms ascii_range [OF assms(4)]
  by (simp add: process_byte_ascii process_one_def up_step_def step_protocol_def step_other_def step_host_n_def
     char_is_def is_allowable_char_def is_letter_or_digit_def is_letter_def leave_case_def save_char_to_domain_def
     save_char_to_buf_def is_space_def is_nbsp_def is_bytes_def right_double_quote_def right_quote_def Let_def)


text \<open>\<open>runs env cs p q\<close>: the loop of \<open>parse_urls\<close> takes \<open>p\<close> over \<open>cs\<close> to \<open>q\<close>, and no link is finished.\<close>

definition quiet :: "url_parser \<Rightarrow> bool" where
  "quiet p \<longleftrightarrow> url_type (found_url p) = Type_undefined"

definition runs :: "url_env \<Rightarrow> cstring \<Rightarrow> url_parser \<Rightarrow> url_parser \<Rightarrow> bool" where
  "runs env cs p q \<longleftrightarrow>
    (\<forall>rest urls. parse_loop env (cs @ rest) urls p = parse_loop env rest urls q)"

lemma runs_Nil [simp]: "runs env [] p p"
  by (simp add: runs_def)

lemma runs_append: "runs env xs p q \<Longrightarrow> runs env ys q r \<Longrightarrow> runs env (xs @ ys) p r"
  by (simp add: runs_def)

lemma runs_Cons: "process_byte env c p = Some q \<Longrightarrow> quiet q \<Longrightarrow> runs env cs q r \<Longrightarrow> runs env (c # cs) p r"
  by (simp add: runs_def has_url_def quiet_def)

lemma quiet_ascii_at [simp]: "found_url (ascii_at c p) = found_url p"
  by (simp add: ascii_at_def)

lemma char_buf_ascii_at [simp]: "char_buf (ascii_at c p) = (char_buf p)[0 := c]" "char_pos (ascii_at c p) = char_pos p"
  by (simp_all add: ascii_at_def)

lemma runs_letters:
  assumes "up_state p \<in> {S_host, S_host_n}" and "char_pos p = 0" and "char_buf p \<noteq> []" and "letters cs"
    and "quiet p"
  shows "\<exists>b z u. runs env cs p (p\<lparr>domain := domain p @ cs, buf := buf p @ cs,
    char_buf := b, char_size := z, is_utf8 := u\<rparr>) \<and> b \<noteq> []"
  using assms
proof (induction cs arbitrary: p)
  case Nil
  then show ?case by (intro exI [of _ "char_buf p"] exI [of _ "char_size p"] exI [of _ "is_utf8 p"]) simp
next
  case (Cons c cs)
  let ?q = "(ascii_at c p)\<lparr>domain := domain p @ [c], buf := buf p @ [c]\<rparr>"
  have c: "ascii_lower c" "letters cs" using Cons.prems by (auto simp: letters_def)
  then have s: "process_byte env c p = Some ?q"
    using Cons.prems host_letter host_n_letter by auto
  have q: "quiet ?q" using Cons.prems by (simp add: quiet_def)
  have "\<exists>b z u. runs env cs ?q (?q\<lparr>domain := domain ?q @ cs, buf := buf ?q @ cs,
    char_buf := b, char_size := z, is_utf8 := u\<rparr>) \<and> b \<noteq> []"
    by (rule Cons.IH) (use Cons.prems c q in auto)
  then obtain b z u where "runs env cs ?q (?q\<lparr>domain := domain ?q @ cs, buf := buf ?q @ cs,
    char_buf := b, char_size := z, is_utf8 := u\<rparr>)" "b \<noteq> []" by blast
  from runs_Cons [OF s q this(1)] this(2) show ?case by (auto simp: ascii_at_def)
qed

lemma runs_http:
  assumes "CHR ''h'' \<notin> set (compare_set p)" and "up_state p = S_lookup" and "char_pos p = 0"
    and "char_buf p \<noteq> []" and "buf p = []" and "quiet p"
  shows "runs env ''http://'' p (p\<lparr>num_processed := 1, up_protocol := Proto_http, char_buf := (char_buf p)[0 := CHR ''/''],
     char_size := 1, is_utf8 := False, has_protocol_prefix := True, up_state := S_check_www,
     buf := ''http://''\<rparr>)"
proof -
  obtain x xs where cb: "char_buf p = x # xs" using assms(4) by (cases "char_buf p") auto
  show ?thesis
    using assms(1,2,3,5,6) cb
    by (simp add: runs_def has_url_def quiet_def process_byte_ascii utf8_char_size_def process_one_def
      up_step_def step_protocol_def step_other_def step_lookup_def step_lookup_without_fixed_urls_def
      letter_def start_protocol_def go_def set_state_def set_protocol_def leave_case_def
      save_char_to_buf_def step_protocol_t1_def step_protocol_t2_def step_protocol_p_def
      step_protocol_s_def char_is_def step_delimeters_def Let_def ascii_at_def cur_char_def
      cur_bytes_def ctolower_def ascii_upper_def)
qed

lemma step_check_www_letter:
  assumes "up_state p = S_check_www" and "char_pos p = 0" and "char_buf p \<noteq> []" and "ascii_lower c"
    and "c \<noteq> CHR ''w''" and "c \<notin> set (compare_set p)"
  shows "process_byte env c p = Some ((ascii_at c p)\<lparr>up_state := S_host, domain := domain p @ [c], buf := buf p @ [c]\<rparr>)"
  using assms ascii_range [OF assms(4)]
  by (simp add: process_byte_ascii process_one_def up_step_def step_protocol_def step_check_www_def letter_def go_def
      set_state_def leave_case_def is_allowable_char_def is_letter_or_digit_def is_letter_def save_char_to_domain_def
      save_char_to_buf_def)

lemma step_host_point:
  assumes "up_state p = S_host" and "char_pos p = 0" and "char_buf p \<noteq> []"
  shows "process_byte env CHR ''.'' p = Some ((ascii_at CHR ''.'' p)\<lparr>up_state := S_host_dot, buf := buf p @ ''.''\<rparr>)"
  using assms
  by (simp add: process_byte_ascii utf8_char_size_def process_one_def up_step_def step_protocol_def step_other_def
      step_host_def char_is_def go_def set_state_def leave_case_def save_char_to_buf_def)

lemma step_host_dot_letter:
  assumes "up_state p = S_host_dot" and "char_pos p = 0" and "char_buf p \<noteq> []" and "ascii_lower c"
    and "\<not> is_ipv4_segment (domain p)"
  shows "process_byte env c p = Some ((ascii_at c p)\<lparr>up_state := S_host_n, domain := [c],
    domain_segments := domain_segments p + 1, buf := buf p @ [c]\<rparr>)"
proof -
  obtain x xs where cb: "char_buf p = x # xs" using assms(3) by (cases "char_buf p") auto
  show ?thesis
    using assms(1,2,4,5) cb ascii_range [OF assms(4)]
    by (simp add: process_byte_ascii process_one_def up_step_def step_protocol_def step_other_def
      step_host_dot_def go_def set_state_def leave_case_def is_letter_or_digit_def is_letter_def
      save_char_to_domain_def save_char_to_buf_def Let_def ascii_at_def cur_char_def cur_bytes_def)
qed

lemma step_host_n_space:
  assumes "up_state p = S_host_n" and "char_pos p = 0" and "char_buf p \<noteq> []" and "up_protocol p = Proto_http"
    and "domain p \<noteq> []" and "\<not> up_is_email p" and "up_extension p = Ext_undefined" and "has_protocol_prefix p"
    and "buf p \<noteq> []" and "\<not> is_ending_char (last (buf p))"
  shows "\<exists>q. process_byte env CHR '' '' p = Some q \<and>
    found_url q = make_url_same (buf p) Type_site Proto_http Ext_undefined \<and>
    compare_set q = compare_set p \<and> fixed_urls q = fixed_urls p"
proof -
  obtain x xs where cb: "char_buf p = x # xs" using assms(3) by (cases "char_buf p") auto
  obtain ys y where b: "buf p = ys @ [y]" using assms(9) by (cases "buf p" rule: rev_cases) auto
  have y: "\<not> is_ending_char y" "y \<noteq> CHR '')''" using assms(10) b by (auto simp: is_ending_char_def)
  let ?q = "(ascii_at CHR '' '' p)"
  have "up_step env ?q = Found ?q"
    using assms cb
    by (simp add: up_step_def step_protocol_def step_other_def step_host_n_def char_is_def is_space_def
      found_if_tld_def is_valid_top_level_domain_def Let_def ascii_at_def cur_char_def is_nbsp_def is_ending_char_def)
  moreover have "save_url env ?q = Some (True, ?q\<lparr>found_url := make_url_same (buf p) Type_site Proto_http Ext_undefined\<rparr>)"
    using assms cb y b
    by (simp add: save_url_def no_url_states_def trim_buf_def save_trimmed_def save_as_def make_url_def is_image_ext_def
       is_video_ext_def is_nbsp_def is_valid_top_level_domain_def ascii_at_def Let_def)
  ultimately show ?thesis
    using assms(1,2)
    by (simp add: process_byte_ascii utf8_char_size_def process_one_def leave_case_def finish_found_def)
qed

lemma letters_no_ipv4: "letters s \<Longrightarrow> s \<noteq> [] \<Longrightarrow> \<not> is_ipv4_segment s"
  using ascii_range(10) by (cases s) (auto simp: letters_def is_ipv4_segment_def)

lemma parse_http_link:
  assumes "letters a" and "letters b" and "a \<noteq> []" and "b \<noteq> []" and "hd a \<noteq> CHR ''w''"
    and "up_state p = S_lookup" and "char_pos p = 0" and "char_buf p \<noteq> []" and "buf p = []"
    and "domain p = []" and "CHR ''h'' \<notin> set (compare_set p)" and "hd a \<notin> set (compare_set p)"
    and "up_extension p = Ext_undefined" and "\<not> up_is_email p" and "quiet p"
  shows "\<exists>q. parse_loop env ((''http://'' @ a @ ''.'' @ b) @ CHR '' '' # rest) urls p =
    parse_loop env rest (urls @ [make_url_same (''http://'' @ a @ ''.'' @ b) Type_site Proto_http Ext_undefined])
      (up_reset q) \<and> fixed_urls q = fixed_urls p \<and> compare_set q = compare_set p"
proof -
  obtain a1 as where a: "a = a1 # as" "ascii_lower a1" "letters as"
    using assms(1,3) by (cases a) (auto simp: letters_def)
  obtain b1 bs where b: "b = b1 # bs" "ascii_lower b1" "letters bs"
    using assms(2,4) by (cases b) (auto simp: letters_def)
  obtain p1 where 1: "runs env ''http://'' p p1" "p1 = p\<lparr>num_processed := 1, up_protocol := Proto_http, char_buf := (char_buf p)[0 := CHR ''/''],
     char_size := 1, is_utf8 := False, has_protocol_prefix := True, up_state := S_check_www,
     buf := ''http://''\<rparr>"
    using runs_http [OF assms(11,6-9,15)] by blast
  have i1: "char_pos p1 = 0" "char_buf p1 \<noteq> []" "quiet p1" "\<not> up_is_email p1" "up_extension p1 = Ext_undefined"
    "has_protocol_prefix p1" "up_protocol p1 = Proto_http" "compare_set p1 = compare_set p" "fixed_urls p1 = fixed_urls p"
    using assms(7,8,13-15) by (simp_all add: 1(2) quiet_def)
  obtain p2 where 2: "process_byte env a1 p1 = Some p2"
    "p2 = (ascii_at a1 p1)\<lparr>up_state := S_host, domain := domain p1 @ [a1], buf := buf p1 @ [a1]\<rparr>"
    using step_check_www_letter [of p1 a1 env] assms(5,12) a i1 1(2) by auto
  have i2: "char_pos p2 = 0" "char_buf p2 \<noteq> []" "quiet p2" "\<not> up_is_email p2" "up_extension p2 = Ext_undefined"
    "has_protocol_prefix p2" "up_protocol p2 = Proto_http" "compare_set p2 = compare_set p" "fixed_urls p2 = fixed_urls p"
    using i1 by (simp_all add: 2(2) quiet_def)
  obtain p3 c z u where 3: "runs env as p2 p3" "p3 = p2\<lparr>domain := domain p2 @ as, buf := buf p2 @ as,
      char_buf := c, char_size := z, is_utf8 := u\<rparr>" "c \<noteq> []"
    using runs_letters [of p2 as env] a(3) i2 2(2) by auto
  obtain p4 where 4: "process_byte env CHR ''.'' p3 = Some p4"
    "p4 = (ascii_at CHR ''.'' p3)\<lparr>up_state := S_host_dot, buf := buf p3 @ ''.''\<rparr>"
    using step_host_point [of p3 env] 3(2,3) i2 2(2) by auto
  have i4: "char_pos p4 = 0" "char_buf p4 \<noteq> []" "quiet p4" "\<not> up_is_email p4" "up_extension p4 = Ext_undefined"
    "has_protocol_prefix p4" "up_protocol p4 = Proto_http" "compare_set p4 = compare_set p" "fixed_urls p4 = fixed_urls p"
    using i2 3(3) by (simp_all add: 4(2) 3(2) quiet_def)
  have dom: "domain p4 = a" "buf p4 = ''http://'' @ a @ ''.''"
    using a by (simp_all add: 4(2) 3(2) 2(2) 1(2) assms(10))
  obtain p5 where 5: "process_byte env b1 p4 = Some p5"
    "p5 = (ascii_at b1 p4)\<lparr>up_state := S_host_n, domain := [b1], domain_segments := domain_segments p4 + 1,
      buf := buf p4 @ [b1]\<rparr>"
    using step_host_dot_letter [of p4 b1 env] letters_no_ipv4 [OF assms(1,3)] dom b(2) 4(2) i4 by auto
  have i5: "char_pos p5 = 0" "char_buf p5 \<noteq> []" "quiet p5" "\<not> up_is_email p5" "up_extension p5 = Ext_undefined"
    "has_protocol_prefix p5" "up_protocol p5 = Proto_http" "compare_set p5 = compare_set p" "fixed_urls p5 = fixed_urls p"
    using i4 by (simp_all add: 5(2) quiet_def)
  obtain p6 c' z' u' where 6: "runs env bs p5 p6" "p6 = p5\<lparr>domain := domain p5 @ bs, buf := buf p5 @ bs,
      char_buf := c', char_size := z', is_utf8 := u'\<rparr>" "c' \<noteq> []"
    using runs_letters [of p5 bs env] b(3) i5 5(2) by auto
  have buf: "buf p6 = ''http://'' @ a @ ''.'' @ b" using dom(2) b by (simp add: 6(2) 5(2))
  have "ascii_lower (last b)" using assms(2,4) by (auto simp: letters_def list_all_iff)
  then have "\<not> is_ending_char (last (buf p6))" unfolding buf using assms(4) ascii_range(8) by simp
  moreover have "up_state p6 = S_host_n" "domain p6 \<noteq> []" by (simp_all add: 6(2) 5(2))
  moreover have "char_pos p6 = 0" "char_buf p6 \<noteq> []" "\<not> up_is_email p6" "up_extension p6 = Ext_undefined"
    "has_protocol_prefix p6" "up_protocol p6 = Proto_http" "compare_set p6 = compare_set p" "fixed_urls p6 = fixed_urls p"
    using i5 6(3) by (simp_all add: 6(2))
  ultimately obtain q where 7: "process_byte env CHR '' '' p6 = Some q"
    "found_url q = make_url_same (buf p6) Type_site Proto_http Ext_undefined"
    "compare_set q = compare_set p" "fixed_urls q = fixed_urls p"
    using step_host_n_space [of p6 env] buf by auto
  have r: "runs env (''http://'' @ a @ ''.'' @ b) p p6"
    using runs_append [OF 1(1) runs_Cons [OF 2(1) i2(3) runs_append [OF 3(1) runs_Cons [OF 4(1) i4(3)
      runs_Cons [OF 5(1) i5(3) 6(1)]]]]] a(1) b(1)
    by simp
  have "has_url env q" by (simp add: has_url_def 7(2) make_url_same_def has_prohibited_protocols_def)
  then have "parse_loop env (CHR '' '' # rest) urls p6 =
      parse_loop env rest (urls @ [make_url_same (''http://'' @ a @ ''.'' @ b) Type_site Proto_http Ext_undefined]) (up_reset q)"
    using 7(1,2) buf by simp
  with r 7(3,4) show ?thesis unfolding runs_def by auto
qed

definition http_link :: "cstring \<times> cstring \<Rightarrow> cstring" where
  "http_link ab = ''http://'' @ fst ab @ ''.'' @ snd ab"

definition plain_link :: "byte list \<Rightarrow> cstring \<times> cstring \<Rightarrow> bool" where
  "plain_link avoid ab \<longleftrightarrow> letters (fst ab) \<and> letters (snd ab) \<and> fst ab \<noteq> [] \<and> snd ab \<noteq> [] \<and>
     hd (fst ab) \<noteq> CHR ''w'' \<and> hd (fst ab) \<notin> set avoid"

lemma parse_http_links:
  assumes "list_all (plain_link cs) ls" and "CHR ''h'' \<notin> set cs"
  shows "up_state p = S_lookup \<Longrightarrow> char_pos p = 0 \<Longrightarrow> char_buf p \<noteq> [] \<Longrightarrow> buf p = [] \<Longrightarrow> domain p = [] \<Longrightarrow>
    up_extension p = Ext_undefined \<Longrightarrow> \<not> up_is_email p \<Longrightarrow> quiet p \<Longrightarrow> compare_set p = cs \<Longrightarrow>
    \<exists>q. parse_loop env (concat (map (\<lambda>ab. http_link ab @ '' '') ls)) urls p =
      Some (urls @ map (\<lambda>ab. make_url_same (http_link ab) Type_site Proto_http Ext_undefined) ls, q) \<and>
      up_state q = S_lookup \<and> quiet q"
  using assms
proof (induction ls arbitrary: urls p)
  case Nil
  then show ?case by simp
next
  case (Cons ab ls)
  let ?rest = "concat (map (\<lambda>ab. http_link ab @ '' '') ls)"
  obtain q where q: "parse_loop env (http_link ab @ CHR '' '' # ?rest) urls p =
    parse_loop env ?rest (urls @ [make_url_same (http_link ab) Type_site Proto_http Ext_undefined]) (up_reset q)"
    "compare_set q = compare_set p"
    using parse_http_link [of "fst ab" "snd ab" p env ?rest urls] Cons.prems
    by (auto simp: plain_link_def http_link_def)
  have "\<exists>r. parse_loop env ?rest (urls @ [make_url_same (http_link ab) Type_site Proto_http Ext_undefined]) (up_reset q) =
      Some ((urls @ [make_url_same (http_link ab) Type_site Proto_http Ext_undefined]) @
        map (\<lambda>ab. make_url_same (http_link ab) Type_site Proto_http Ext_undefined) ls, r) \<and>
      up_state r = S_lookup \<and> quiet r"
    by (rule Cons.IH) (use Cons.prems q(2) in \<open>auto simp: up_reset_def quiet_def\<close>)
  then show ?case using q(1) by auto
qed

lemma parse_urls_links:
  assumes "list_all (plain_link [hd (files @ ''/''), CHR ''i'', CHR ''c'']) ls" and "hd (files @ ''/'') \<noteq> CHR ''h''"
  shows "parse_urls env (concat (map (\<lambda>ab. http_link ab @ '' '') ls)) files =
    Some (map (\<lambda>ab. make_url_same (http_link ab) Type_site Proto_http Ext_undefined) ls)"
proof -
  let ?p = "url_parser_new [files]"
  have cs: "compare_set ?p = [hd (files @ ''/''), CHR ''i'', CHR ''c'']"
    by (simp add: url_parser_new_def up_reset_def fixed_url_items_def)
  have h: "CHR ''h'' \<notin> set [hd (files @ ''/''), CHR ''i'', CHR ''c'']" using assms(2) by auto
  obtain q where "parse_loop env (concat (map (\<lambda>ab. http_link ab @ '' '') ls)) [] ?p =
      Some (map (\<lambda>ab. make_url_same (http_link ab) Type_site Proto_http Ext_undefined) ls, q)"
      "up_state q = S_lookup" "quiet q"
    using parse_http_links [OF assms(1) h, of ?p env "[]"] cs
    by (auto simp: url_parser_new_def up_reset_def quiet_def no_url_def)
  then show ?thesis
    by (simp add: parse_urls_def finish_def save_url_def no_url_states_def has_url_def quiet_def)
qed

definition same :: "url_parser \<Rightarrow> url_parser \<Rightarrow> bool" where
  "same q p \<longleftrightarrow> buf q = buf p \<and> compare_set q = compare_set p \<and> char_buf q = char_buf p \<and>
     char_size q = char_size p \<and> char_pos q = char_pos p \<and> is_utf8 q = is_utf8 p"

definition in_lookup :: "url_parser \<Rightarrow> bool" where
  "in_lookup p \<longleftrightarrow> up_state p = S_lookup"

definition in_compare :: "url_parser \<Rightarrow> bool" where
  "in_compare p \<longleftrightarrow> up_state p \<in> {S_compare, S_compare_safe, S_lookup_without_fixed_urls}"

definition good_outcome :: "url_parser \<Rightarrow> outcome \<Rightarrow> bool" where
  "good_outcome p oc \<longleftrightarrow> (case oc of
     Break q \<Rightarrow> same q p \<and> \<not> in_compare q \<and> (in_lookup p \<longrightarrow> is_letter_or_digit p) \<and> (in_lookup q \<longrightarrow> False)
   | Return q \<Rightarrow> same q p \<and> in_lookup q \<and> in_lookup p
   | Reset q \<Rightarrow> compare_set q = compare_set p
   | Found q \<Rightarrow> same q p \<and> \<not> in_lookup p \<and> \<not> in_compare q \<and> \<not> in_lookup q
   | Reprocess q \<Rightarrow> same q p \<and> \<not> in_lookup p \<and> up_state q = S_host
   | Fallback q \<Rightarrow> False)"

lemmas outcome_defs = good_outcome_def same_def in_lookup_def in_compare_def go_def set_state_def
  set_protocol_def to_host_def space_or_host_def save_char_to_domain_def found_if_tld_def start_protocol_def

lemma good_step_extension:
  assumes "\<not> in_lookup p"
  shows "good_outcome p (step_extension (image_transitions @ video_transitions) p)"
proof (cases "List.find (\<lambda>(s, l, _). s = up_state p \<and> letter_or_digit_is l p) (image_transitions @ video_transitions)")
  case None
  then show ?thesis using assms by (auto simp: step_extension_def outcome_defs)
next
  case (Some t)
  then have "t \<in> set (image_transitions @ video_transitions)" by (metis find_Some_iff nth_mem)
  then show ?thesis
    unfolding step_extension_def Some using assms
    by (auto simp: image_transitions_def video_transitions_def outcome_defs)
qed

lemma good_protocol_steps:
  assumes "\<not> in_lookup p"
  shows "good_outcome p (step_protocol_t1 env p)" "good_outcome p (step_protocol_t2 p)"
    "good_outcome p (step_protocol_p p)" "good_outcome p (step_protocol_c p)"
    "good_outcome p (step_protocol_h p)" "good_outcome p (step_protocol_tq p)"
    "good_outcome p (step_protocol_s p)" "good_outcome p (step_protocol_a p)"
    "good_outcome p (step_protocol_g p)" "good_outcome p (step_protocol_e p)"
    "good_outcome p (step_protocol_n p)" "good_outcome p (step_protocol_y p)"
    "good_outcome p (step_protocol_m p)" "good_outcome p (step_protocol_m1 p)"
    "good_outcome p (step_protocol_s1 p)" "good_outcome p (step_protocol_r p)"
    "good_outcome p (step_protocol_d env p)" "good_outcome p (step_delimeter_dash p)"
    "good_outcome p (step_www p)" "good_outcome p (step_delimeters p)"
  using assms
  unfolding step_protocol_t1_def step_protocol_t2_def step_protocol_p_def step_protocol_c_def
    step_protocol_h_def step_protocol_tq_def step_protocol_s_def step_protocol_a_def
    step_protocol_g_def step_protocol_e_def step_protocol_n_def step_protocol_y_def
    step_protocol_m_def step_protocol_m1_def step_protocol_s1_def step_protocol_r_def
    step_protocol_d_def step_delimeter_dash_def step_www_def step_delimeters_def Let_def
  by (simp_all add: outcome_defs)

lemma good_other_steps:
  assumes "\<not> in_lookup p" and "\<not> in_compare p"
  shows "up_state p \<noteq> S_lookup \<Longrightarrow> good_outcome p (step_id p)" "good_outcome p (step_password p)"
    "good_outcome p (step_host p)" "good_outcome p (step_host_n env p)"
    "good_outcome p (step_host_at p)" "good_outcome p (step_host_dot p)"
    "good_outcome p (step_host_colon p)" "good_outcome p (step_host_slash p)"
    "good_outcome p (step_port env p)" "good_outcome p (step_port_dot p)"
    "good_outcome p (step_port_slash p)" "good_outcome p (step_path env p)"
    "good_outcome p (step_path_dot p)" "good_outcome p (step_path_slash p)"
    "good_outcome p (step_query_or_end p)" "good_outcome p (step_query p)"
  using assms
  unfolding step_id_def step_password_def step_host_def step_host_n_def step_host_at_def
    step_host_dot_def step_host_colon_def step_host_slash_def step_port_def step_port_dot_def
    step_port_slash_def step_path_def step_path_dot_def step_path_slash_def step_query_or_end_def
    step_query_def Let_def
  by (simp_all add: outcome_defs)

lemma good_start_steps:
  assumes "cur_char p \<notin> set (compare_set p)"
  shows "in_lookup p \<Longrightarrow> good_outcome p (step_lookup_without_fixed_urls p)"
    and "in_lookup p \<Longrightarrow> good_outcome p (step_lookup p)"
    and "\<not> in_lookup p \<Longrightarrow> good_outcome p (step_check_www p)"
    and "\<not> in_lookup p \<Longrightarrow> good_outcome p (step_check_filesharing p)"
proof -
  have l: "letter x p \<Longrightarrow> ascii_lower x \<Longrightarrow> is_letter_or_digit p" for x
    by (auto simp: letter_def ctolower_def is_letter_or_digit_def is_letter_def split: if_splits)
  have upd: "is_letter_or_digit (p\<lparr>num_processed := k\<rparr>) = is_letter_or_digit p" 
    "letter x (p\<lparr>num_processed := k\<rparr>) = letter x p" "cur_char (p\<lparr>num_processed := k\<rparr>) = cur_char p" for k x
    by (simp_all add: is_letter_or_digit_def is_letter_def letter_def cur_char_def)
  show "in_lookup p \<Longrightarrow> good_outcome p (step_lookup_without_fixed_urls p)"
    "in_lookup p \<Longrightarrow> good_outcome p (step_lookup p)"
    "\<not> in_lookup p \<Longrightarrow> good_outcome p (step_check_www p)"
    "\<not> in_lookup p \<Longrightarrow> good_outcome p (step_check_filesharing p)"
    using assms
    by (auto simp: step_lookup_def step_lookup_without_fixed_urls_def step_check_www_def
      step_check_filesharing_def outcome_defs Let_def upd ascii_lower_def intro: l)
qed

lemma good_up_step:
  assumes "\<not> in_compare p" and "cur_char p \<notin> set (compare_set p)"
  shows "good_outcome p (up_step env p)"
proof -
  have "good_outcome p (step_lookup p)" "good_outcome p (step_lookup_without_fixed_urls p)" if "in_lookup p"
    using that good_start_steps [OF assms(2)] by auto
  moreover have "step_protocol env p = Some oc \<Longrightarrow> good_outcome p oc" if "\<not> in_lookup p" for oc
    using that good_protocol_steps [of p] good_start_steps(3) [OF assms(2)]
    by (auto simp: step_protocol_def split: states.splits)
  moreover have "good_outcome p (step_other env p)" if "\<not> in_lookup p"
    using that assms(1) good_other_steps [OF that assms(1)] good_start_steps(4) [OF assms(2)]
      good_step_extension [OF that]
    by (cases "up_state p") (simp_all add: step_other_def in_lookup_def in_compare_def, simp_all add: outcome_defs)
  ultimately show ?thesis
    by (cases "in_lookup p") (auto simp: up_step_def in_lookup_def step_protocol_def step_other_def split: option.splits)
qed

definition ready :: "url_parser \<Rightarrow> bool" where
  "ready p \<longleftrightarrow> \<not> in_compare p \<and> length (char_buf p) = 6 \<and> (0 < char_pos p \<longrightarrow> char_pos p < char_size p \<and> char_size p \<le> 6 \<and>
      cur_char p \<notin> set (compare_set p)) \<and>
     (\<not> in_lookup p \<longrightarrow> (\<exists>c \<in> set (buf p). \<not> is_ending_char c))"

lemma trim_ending_Some:
  assumes "\<exists>c \<in> set cs. \<not> is_ending_char c"
  shows "\<exists>k d ds. trim_ending cs n = Some (d # ds, n + int k) \<and> \<not> is_ending_char d \<and> cs = take k cs @ d # ds \<and>
    list_all is_ending_char (take k cs)"
  using assms
proof (induction cs arbitrary: n)
  case (Cons c cs)
  show ?case
  proof (cases "is_ending_char c")
    case True
    with Cons obtain k d ds where "trim_ending cs (n + 1) = Some (d # ds, n + 1 + int k)" "\<not> is_ending_char d"
      "cs = take k cs @ d # ds" "list_all is_ending_char (take k cs)" by force
    with True show ?thesis by (intro exI [of _ "Suc k"] exI [of _ d] exI [of _ ds]) auto
  next
    case False
    then show ?thesis by (intro exI [of _ 0] exI [of _ c] exI [of _ cs]) simp
  qed
qed simp

lemma trim_buf_spec:
  assumes "\<exists>c \<in> set (buf p). \<not> is_ending_char c"
  shows "\<exists>b tl. trim_buf p = Some (p\<lparr>buf := b, tail_size := tail_size p + int (length tl)\<rparr>) \<and>
    buf p = b @ tl \<and> b \<noteq> [] \<and> \<not> is_ending_char (last b) \<and> list_all is_ending_char tl"
proof -
  obtain k d ds where k: "trim_ending (rev (buf p)) (tail_size p) = Some (d # ds, tail_size p + int k)"
    "\<not> is_ending_char d" "rev (buf p) = take k (rev (buf p)) @ d # ds" "list_all is_ending_char (take k (rev (buf p)))"
    using trim_ending_Some [of "rev (buf p)" "tail_size p"] assms by auto
  have "d \<noteq> CHR '')''" using k(2) by (auto simp: is_ending_char_def)
  let ?tl = "rev (take k (rev (buf p)))"
  have b: "buf p = rev (d # ds) @ ?tl" using arg_cong [OF k(3), of rev] by simp
  have len: "length ?tl = k"
  proof -
    have "k \<le> length (buf p)" using k(3) by (metis append_self_conv length_rev list.distinct(1) nat_le_linear take_all)
    then show ?thesis by simp
  qed
  have "trim_buf p = Some (p\<lparr>buf := rev (d # ds), tail_size := tail_size p + int (length ?tl)\<rparr>)"
    using k(1) \<open>d \<noteq> CHR '')''\<close> b len by (auto simp: trim_buf_def)
  then show ?thesis
    using b k(2,4) by (intro exI [of _ "rev (d # ds)"] exI [of _ ?tl]) (auto simp: list_all_iff)
qed

definition anchored :: "url_parser \<Rightarrow> bool" where
  "anchored p \<longleftrightarrow> (\<exists>c \<in> set (buf p). \<not> is_ending_char c)"

lemma save_url_defined:
  assumes "anchored p"
  shows "\<exists>ok q. save_url env p = Some (ok, q) \<and> anchored q \<and> up_state q = up_state p \<and>
    compare_set q = compare_set p \<and> char_buf q = char_buf p \<and> char_pos q = char_pos p"
proof -
  obtain b tl where t: "trim_buf p = Some (p\<lparr>buf := b, tail_size := tail_size p + int (length tl)\<rparr>)"
    "buf p = b @ tl" "b \<noteq> []" "\<not> is_ending_char (last b)"
    using trim_buf_spec [of p] assms unfolding anchored_def by blast
  have "last b \<in> set b" using t(3) by simp
  then have b: "\<exists>c \<in> set b. \<not> is_ending_char c" using t(4) by blast
  have tr: "anchored (snd (save_trimmed env q)) \<and> up_state (snd (save_trimmed env q)) = up_state q \<and>
      compare_set (snd (save_trimmed env q)) = compare_set q \<and> char_buf (snd (save_trimmed env q)) = char_buf q \<and>
      char_pos (snd (save_trimmed env q)) = char_pos q" if "anchored q" for q
    using that by (simp add: save_trimmed_def save_as_def anchored_def Let_def)
  let ?q = "p\<lparr>buf := b, tail_size := tail_size p + int (length tl)\<rparr>"
  let ?r = "if is_nbsp ?q then ?q\<lparr>tail_size := tail_size ?q + 1\<rparr> else ?q"
  have r: "anchored ?r" using b by (simp add: anchored_def)
  have sel: "up_state ?r = up_state p" "compare_set ?r = compare_set p" "char_buf ?r = char_buf p" "char_pos ?r = char_pos p"
    by simp_all
  show ?thesis
  proof (cases "save_url env p = Some (save_trimmed env ?r)")
    case True
    then show ?thesis
      using tr [OF r] sel by (cases "save_trimmed env ?r") auto
  next
    case False
    then show ?thesis
      using assms by (auto simp: save_url_def save_as_def anchored_def t(1) simp del: set_simps split: if_splits)
  qed
qed

lemma cur_char_anchors:
  assumes "is_letter_or_digit p" and "is_utf8 p \<longleftrightarrow> 1 < char_size p" and "0 < char_size p" and "char_buf p \<noteq> []"
    and "utf8_char_size (cur_char p) = char_size p"
  shows "\<exists>c \<in> set (cur_bytes p). \<not> is_ending_char c"
proof -
  have "cur_char p \<in> set (cur_bytes p)"
    using assms(3,4) by (cases "char_buf p"; cases "char_size p") (auto simp: cur_bytes_def cur_char_def)
  moreover have "\<not> is_ending_char (cur_char p)"
  proof (cases "is_utf8 p")
    case True
    then have "1 < utf8_char_size (cur_char p)" using assms by simp
    then show ?thesis by (auto simp: is_ending_char_def utf8_char_size_def)
  next
    case False
    then show ?thesis
      using assms(1) by (auto simp: is_letter_or_digit_def is_letter_def is_ending_char_def ascii_upper_def ascii_lower_def ascii_digit_def)
  qed
  ultimately show ?thesis by blast
qed

definition complete_char :: "url_parser \<Rightarrow> bool" where
  "complete_char p \<longleftrightarrow> (is_utf8 p \<longleftrightarrow> 1 < char_size p) \<and> 0 < char_size p \<and> length (char_buf p) = 6 \<and>
     utf8_char_size (cur_char p) = char_size p \<and> char_pos p = 0 \<and> cur_char p \<notin> set (compare_set p)"

definition steady :: "url_parser \<Rightarrow> url_parser \<Rightarrow> bool" where
  "steady p q \<longleftrightarrow> ready q \<and> char_pos q = 0 \<and> compare_set q = compare_set p"

lemma steady_reset: "compare_set q = compare_set p \<Longrightarrow> steady p (up_reset q)"
  by (simp add: steady_def ready_def up_reset_def in_compare_def in_lookup_def)

lemma leave_case_defined:
  assumes "good_outcome p oc" and "complete_char p" and "\<not> in_compare p" and "in_lookup p \<or> anchored p"
    and "\<forall>q. oc \<noteq> Reprocess q"
  shows "\<exists>q. leave_case env oc = Done q \<and> steady p q"
proof (cases oc)
  case (Break q)
  have sm: "same q p" "\<not> in_compare q" "in_lookup p \<longrightarrow> is_letter_or_digit p" using assms(1) Break by (auto simp: good_outcome_def)
  have "cur_bytes q = cur_bytes p" using sm by (simp add: same_def cur_bytes_def)
  moreover have "anchored p \<or> (\<exists>c \<in> set (cur_bytes p). \<not> is_ending_char c)"
    using assms(2,4) sm(3) cur_char_anchors [of p] by (auto simp: complete_char_def simp flip: length_greater_0_conv)
  ultimately have "steady p (save_char_to_buf q)"
    using sm assms(2) by (auto simp: steady_def ready_def same_def save_char_to_buf_def complete_char_def in_compare_def in_lookup_def anchored_def)
  then show ?thesis by (simp add: leave_case_def Break)
next
  case (Return q)
  then have "steady p q" using assms(1,2) by (auto simp: good_outcome_def steady_def ready_def same_def complete_char_def in_compare_def in_lookup_def)
  then show ?thesis by (simp add: leave_case_def Return)
next
  case (Reset q)
  then show ?thesis using assms(1) steady_reset by (simp add: leave_case_def good_outcome_def)
next
  case (Found q)
  have sm: "same q p" "\<not> in_compare q" "\<not> in_lookup p" using assms(1) Found by (auto simp: good_outcome_def)
  then have "anchored q" using assms(4) by (auto simp: anchored_def same_def)
  then obtain ok r where r: "save_url env q = Some (ok, r)" "anchored r" "up_state r = up_state q"
    "compare_set r = compare_set q" "char_buf r = char_buf q" "char_pos r = char_pos q"
    using save_url_defined by blast
  then have "steady p r"
    using sm assms(2) by (auto simp: steady_def ready_def same_def complete_char_def in_compare_def anchored_def)
  moreover have "compare_set r = compare_set p" using r(4) sm(1) by (simp add: same_def)
  ultimately show ?thesis
    using r(1) steady_reset [of r p] by (auto simp: leave_case_def Found finish_found_def)
qed (use assms in \<open>auto simp: good_outcome_def\<close>)

lemma process_one_defined:
  assumes "complete_char p" and "\<not> in_compare p" and "in_lookup p \<or> anchored p"
  shows "\<exists>q. process_one env p = Done q \<and> steady p q"
proof -
  have good: "good_outcome p (up_step env p)"
    using assms(1,2) by (intro good_up_step) (auto simp: complete_char_def)
  show ?thesis
  proof (cases "up_step env p")
    case (Reprocess q)
    have sm: "same q p" "\<not> in_lookup p" "up_state q = S_host" using good Reprocess by (auto simp: good_outcome_def)
    then have q: "complete_char q" "\<not> in_compare q" "\<not> in_lookup q" "anchored q"
      using assms by (auto simp: complete_char_def same_def in_compare_def in_lookup_def anchored_def cur_char_def)
    have "good_outcome q (step_host q)" by (rule good_other_steps) (use q in auto)
    moreover have "\<forall>r. step_host q \<noteq> Reprocess r" by (simp add: step_host_def go_def)
    ultimately obtain r where "leave_case env (step_host q) = Done r" "steady q r"
      using leave_case_defined [of q "step_host q" env] q by auto
    moreover have "compare_set q = compare_set p" using sm(1) by (simp add: same_def)
    ultimately show ?thesis by (auto simp: process_one_def Reprocess steady_def)
  qed (use leave_case_defined [OF good assms(1-3)] in \<open>auto simp: process_one_def\<close>)
qed

lemma utf8_char_size_bounds: "0 < utf8_char_size c \<and> utf8_char_size c \<le> 6"
  by (simp add: utf8_char_size_def Let_def)

text \<open>Between two bytes: the parser is ready for the first byte of a character, or inside one.\<close>

definition well_fed :: "url_parser \<Rightarrow> bool" where
  "well_fed p \<longleftrightarrow> \<not> in_compare p \<and> length (char_buf p) = 6 \<and> (in_lookup p \<or> anchored p) \<and>
     (0 < char_pos p \<longrightarrow> char_pos p < char_size p \<and> is_utf8 p \<and>
        utf8_char_size (cur_char p) = char_size p \<and> cur_char p \<notin> set (compare_set p))"

lemma steady_well_fed: "steady p q \<Longrightarrow> well_fed q"
  by (auto simp: steady_def ready_def well_fed_def anchored_def)

lemma process_byte_defined:
  assumes "well_fed p" and "c \<notin> set (compare_set p)"
  shows "\<exists>q. process_byte env c p = Some q \<and> well_fed q \<and> compare_set q = compare_set p"
proof -
  obtain complete p' where col: "collect c p = (complete, p')" by (cases "collect c p")
  note sz = utf8_char_size_bounds [of c]
  have p': "\<not> in_compare p'" "in_lookup p' \<or> anchored p'" "compare_set p' = compare_set p" "length (char_buf p') = 6"
    using assms(1) col
    by (auto simp: collect_def Let_def well_fed_def in_compare_def in_lookup_def anchored_def split: if_splits)
  have part: "\<not> complete \<Longrightarrow> well_fed p'"
    using assms col sz by (auto simp: collect_def Let_def well_fed_def in_compare_def in_lookup_def anchored_def
      cur_char_def nth_list_update split: if_splits)
  have whole: "complete \<Longrightarrow> complete_char p'"
    using assms col sz by (auto simp: collect_def Let_def well_fed_def complete_char_def
      cur_char_def nth_list_update split: if_splits)
  show ?thesis
  proof (cases complete)
    case True
    then obtain q where "process_one env p' = Done q" "steady p' q"
      using process_one_defined [OF whole p'(1,2)] by blast
    then show ?thesis
      using True col p'(3) steady_well_fed
      by (auto simp: process_byte_def feed_one_def steady_def)
  next
    case False
    then show ?thesis using part col p'(3) by (simp add: process_byte_def feed_one_def)
  qed
qed

lemma parse_loop_defined:
  "well_fed p \<Longrightarrow> set cs \<inter> set (compare_set p) = {} \<Longrightarrow>
    \<exists>us q. parse_loop env cs urls p = Some (us, q) \<and> well_fed q"
proof (induction cs arbitrary: urls p)
  case (Cons c cs)
  then obtain q where q: "process_byte env c p = Some q" "well_fed q" "compare_set q = compare_set p"
    using process_byte_defined [of p c env] by auto
  have "well_fed (up_reset q)"
    by (simp add: well_fed_def up_reset_def in_compare_def in_lookup_def)
  moreover have "compare_set (up_reset q) = compare_set p" using q(3) by (simp add: up_reset_def)
  ultimately show ?case
    using q Cons.IH [of q urls] Cons.IH [of "up_reset q" "urls @ [found_url q]"] Cons.prems(2) by auto
qed simp

lemma parse_urls_defined:
  assumes "hd (files @ ''/'') \<notin> set cs" and "CHR ''i'' \<notin> set cs" and "CHR ''c'' \<notin> set cs"
  shows "\<exists>us. parse_urls env cs files = Some us"
proof -
  let ?p = "url_parser_new [files]"
  have "well_fed ?p"
    by (simp add: well_fed_def url_parser_new_def up_reset_def in_compare_def in_lookup_def)
  moreover have "set cs \<inter> set (compare_set ?p) = {}"
    using assms by (auto simp: url_parser_new_def up_reset_def fixed_url_items_def)
  ultimately obtain us q where q: "parse_loop env cs [] ?p = Some (us, q)" "well_fed q"
    using parse_loop_defined by blast
  have "\<exists>ok r. save_url env q = Some (ok, r)"
  proof (cases "in_lookup q")
    case False
    then show ?thesis using q(2) save_url_defined [of q env] by (auto simp: well_fed_def)
  next
    case True
    then show ?thesis by (intro exI [of _ False] exI [of _ q]) (simp add: in_lookup_def save_url_def no_url_states_def)
  qed
  then show ?thesis using q(1) by (auto simp: parse_urls_def finish_def)
qed

subsection \<open>Extensions\<close>

text \<open>Feeding the letters after the point of a path, in any case, completes the extension.\<close>

fun feed :: "url_env \<Rightarrow> cstring \<Rightarrow> url_parser \<Rightarrow> url_parser option" where
  "feed env [] p = Some p"
| "feed env (c # cs) p = Option.bind (process_byte env c p) (feed env cs)"

definition extension_words :: "(cstring \<times> extension) list" where
  "extension_words = [(''jpg'', Ext_jpg), (''jpeg'', Ext_jpeg), (''png'', Ext_png), (''gif'', Ext_gif),
     (''bmp'', Ext_bmp), (''tiff'', Ext_tiff), (''svg'', Ext_svg), (''avi'', Ext_avi), (''mkv'', Ext_mkv),
     (''mov'', Ext_mov), (''mp4'', Ext_mpeg4), (''mpeg4'', Ext_mpeg4), (''flv'', Ext_flv),
     (''3gp'', Ext_3gp), (''webm'', Ext_webm), (''wmv'', Ext_wmv)]"

lemma ctolower_ascii:
  assumes "ctolower c = l" and "ascii_lower l \<or> ascii_digit l"
  shows "utf8_char_size c = 1" and "ascii_digit l \<Longrightarrow> c = l" and "ascii_lower l \<Longrightarrow> \<not> ascii_digit c"
proof -
  have "ascii_upper c \<or> c = l" using assms(1) by (auto simp: ctolower_def split: if_splits)
  then show "utf8_char_size c = 1" "ascii_lower l \<Longrightarrow> \<not> ascii_digit c"
    using assms(2) by (auto simp: utf8_char_size_def ascii_upper_def ascii_lower_def ascii_digit_def)
  have "ascii_upper c \<Longrightarrow> (of_char (ctolower c) :: nat) = of_char c + 32"
    by (simp add: ctolower_def ascii_upper_def)
  then show "ascii_digit l \<Longrightarrow> c = l"
    using \<open>ascii_upper c \<or> c = l\<close> assms(1) by (auto simp: ascii_upper_def ascii_digit_def)
qed

lemma table_step:
  assumes "(st, l, next, eo) \<in> set (image_transitions @ video_transitions)"
    and "up_state p = st" and "char_pos p = 0" and "char_buf p \<noteq> []" and "ctolower c = l"
  shows "process_byte env c p = Some ((ascii_at c p)\<lparr>up_extension := (case eo of None \<Rightarrow> up_extension p | Some e \<Rightarrow> e),
    up_state := next, buf := buf p @ [c]\<rparr>)"
proof -
  have l: "ascii_lower l \<or> ascii_digit l"
    using assms(1) by (auto simp: image_transitions_def video_transitions_def ascii_lower_def ascii_digit_def)
  have sz: "utf8_char_size c = 1" by (rule ctolower_ascii(1) [OF assms(5) l])
  obtain x xs where cb: "char_buf p = x # xs" using assms(4) by (cases "char_buf p") auto
  have dig: "c = CHR ''4''" if "l = CHR ''4''"
    using that ctolower_ascii(2) [OF assms(5) l] by (simp add: ascii_digit_def)
  have nd: "c \<noteq> CHR ''4''" if "ascii_lower l" using that ctolower_ascii(3) [OF assms(5) l] by (auto simp: ascii_digit_def)
  show ?thesis
    using assms(1)
    unfolding image_transitions_def video_transitions_def append.simps set_simps insert_iff empty_iff prod.inject
    by (elim disjE conjE)
      (use assms(2,3,5) sz cb dig nd in \<open>simp_all add: process_byte_ascii process_one_def up_step_def step_protocol_def step_other_def
        step_extension_def image_transitions_def video_transitions_def letter_or_digit_is_def ascii_digit_def
        letter_def char_is_def ascii_lower_def leave_case_def go_def set_state_def save_char_to_buf_def
        ascii_at_def cur_char_def cur_bytes_def\<close>)
qed

definition ext_start :: "(byte \<times> states) list" where
  "ext_start = [(CHR ''j'', S_jpg_p), (CHR ''p'', S_png_n), (CHR ''g'', S_gif_i), (CHR ''b'', S_bmp_m),
     (CHR ''t'', S_tiff_i), (CHR ''a'', S_avi_v), (CHR ''m'', S_mkv_k), (CHR ''f'', S_flv_l),
     (CHR ''s'', S_svg_v), (CHR ''3'', S_3gp_g), (CHR ''w'', S_webm_e)]"

lemma path_dot_step:
  assumes "(l, next) \<in> set ext_start" and "up_state p = S_path_dot" and "char_pos p = 0"
    and "char_buf p \<noteq> []" and "ctolower c = l"
  shows "process_byte env c p = Some ((ascii_at c p)\<lparr>up_state := next, buf := buf p @ [c]\<rparr>)"
proof -
  have l: "ascii_lower l \<or> ascii_digit l"
    using assms(1) by (auto simp: ext_start_def ascii_lower_def ascii_digit_def)
  have sz: "utf8_char_size c = 1" by (rule ctolower_ascii(1) [OF assms(5) l])
  obtain x xs where cb: "char_buf p = x # xs" using assms(4) by (cases "char_buf p") auto
  have dig: "c = CHR ''3''" if "l = CHR ''3''"
    using that ctolower_ascii(2) [OF assms(5) l] by (simp add: ascii_digit_def)
  have nd: "c \<noteq> CHR ''3''" if "ascii_lower l"
    using that ctolower_ascii(3) [OF assms(5) l] by (auto simp: ascii_digit_def)
  show ?thesis
    using assms(1)
    unfolding ext_start_def set_simps insert_iff empty_iff prod.inject
    by (elim disjE conjE)
      (use assms(2,3,5) sz cb dig nd in \<open>simp_all add: process_byte_ascii process_one_def up_step_def step_protocol_def step_other_def
        step_path_dot_def ascii_lower_def letter_def char_is_def leave_case_def go_def set_state_def save_char_to_buf_def
        ascii_at_def cur_char_def cur_bytes_def\<close>)
qed

fun ext_chain :: "states \<Rightarrow> cstring \<Rightarrow> extension option" where
  "ext_chain st [] = None"
| "ext_chain st (l # ls) =
    (case List.find (\<lambda>(s, m, _). s = st \<and> m = l) (image_transitions @ video_transitions) of
       None \<Rightarrow> None
     | Some (_, _, next, eo) \<Rightarrow>
         (if ls = [] then (if next = S_query_or_end then eo else None)
          else if eo = None then ext_chain next ls else None))"

lemma feed_chain:
  "ext_chain st (map ctolower s) = Some e \<Longrightarrow> up_state p = st \<Longrightarrow> char_pos p = 0 \<Longrightarrow> char_buf p \<noteq> [] \<Longrightarrow>
    \<exists>q. feed env s p = Some q \<and> up_state q = S_query_or_end \<and> up_extension q = e \<and> buf q = buf p @ s"
proof (induction s arbitrary: st p)
  case (Cons c s)
  obtain t where t: "List.find (\<lambda>(s, m, _). s = st \<and> m = ctolower c) (image_transitions @ video_transitions) = Some t"
    using Cons.prems(1) by (auto split: option.splits)
  obtain nx eo where n: "t = (st, ctolower c, nx, eo)"
    using t by (cases t) (auto simp: find_Some_iff)
  have mem: "(st, ctolower c, nx, eo) \<in> set (image_transitions @ video_transitions)"
    using t n by (metis find_Some_iff nth_mem)
  note st = table_step [OF mem Cons.prems(2-4) refl, of env]
  show ?case
  proof (cases "s = []")
    case True
    then show ?thesis using Cons.prems(1) st t n by (auto split: if_splits)
  next
    case False
    then have "eo = None" "ext_chain nx (map ctolower s) = Some e"
      using Cons.prems(1) t n by (auto split: if_splits)
    with Cons.IH [of nx "(ascii_at c p)\<lparr>up_extension := up_extension p, up_state := nx, buf := buf p @ [c]\<rparr>"]
      st Cons.prems(3,4) show ?thesis by auto
  qed
qed simp

lemma extension_word_chains:
  "list_all (\<lambda>(w, e). case map_of ext_start (hd w) of None \<Rightarrow> False | Some st \<Rightarrow> ext_chain st (tl w) = Some e)
    extension_words"
  by code_simp

lemma feed_extension:
  assumes "(w, e) \<in> set extension_words" and "map ctolower s = w"
    and "up_state p = S_path_dot" and "char_pos p = 0" and "char_buf p \<noteq> []"
  shows "\<exists>q. feed env s p = Some q \<and> up_state q = S_query_or_end \<and> up_extension q = e \<and> buf q = buf p @ s"
proof -
  obtain st where st: "map_of ext_start (hd w) = Some st" "ext_chain st (tl w) = Some e"
    using extension_word_chains assms(1) by (auto simp: list_all_iff split: option.splits)
  obtain c cs where s: "s = c # cs" using assms(1,2) by (cases s) (auto simp: extension_words_def)
  have mem: "(ctolower c, st) \<in> set ext_start"
    using map_of_SomeD [OF st(1)] assms(2) s by auto
  let ?q = "(ascii_at c p)\<lparr>up_state := st, buf := buf p @ [c]\<rparr>"
  have "process_byte env c p = Some ?q" by (rule path_dot_step [OF mem assms(3-5) refl])
  moreover have "ext_chain st (map ctolower cs) = Some e" using st(2) assms(2) s by auto
  ultimately show ?thesis
    using feed_chain [of st cs e ?q env] assms(4,5) s by auto
qed

subsection \<open>What is saved\<close>

lemma trim_ending_parts:
  "trim_ending cs n = Some (r, m) \<Longrightarrow>
    r \<noteq> [] \<and> \<not> is_ending_char (hd r) \<and> (\<exists>t. cs = t @ r)"
proof (induction cs arbitrary: n)
  case (Cons c cs)
  show ?case
  proof (cases "is_ending_char c")
    case True
    then obtain t where "r \<noteq> []" "\<not> is_ending_char (hd r)" "cs = t @ r" using Cons by auto
    then show ?thesis by (auto intro: exI [of _ "c # t"])
  qed (use Cons.prems in auto)
qed simp

lemma trim_buf_parts:
  assumes "trim_buf p = Some q" and "buf p \<noteq> []"
  shows "\<exists>n. q = p\<lparr>buf := buf q, tail_size := n\<rparr>" and "buf q \<noteq> []" and "\<not> is_ending_char (last (buf q))"
    and "\<exists>tl. buf p = buf q @ tl"
proof -
  obtain r m where r: "trim_ending (rev (buf p)) (tail_size p) = Some (r, m)"
    using assms by (auto simp: trim_buf_def bind_eq_Some_conv)
  obtain t where t: "r \<noteq> []" "\<not> is_ending_char (hd r)" "rev (buf p) = t @ r"
    using trim_ending_parts [OF r] by blast
  have "hd r \<noteq> CHR '')''" using t(2) by (auto simp: is_ending_char_def)
  then have q: "q = p\<lparr>buf := rev r, tail_size := m\<rparr>" using assms r by (simp add: trim_buf_def)
  then show "\<exists>n. q = p\<lparr>buf := buf q, tail_size := n\<rparr>" "buf q \<noteq> []" "\<not> is_ending_char (last (buf q))"
    using t(1,2) by (auto simp: last_rev)
  have "buf p = rev r @ rev t" using t(3) by (metis rev_append rev_rev_ident)
  then show "\<exists>tl. buf p = buf q @ tl" using q by auto
qed

lemma trim_buf_prefix: "trim_buf p = Some q \<Longrightarrow> \<exists>tl. buf p = buf q @ tl"
  using trim_buf_parts(4) [of p q] by (cases "buf p = []") (auto simp: trim_buf_def)

definition faithful :: "url_parser \<Rightarrow> bool" where
  "faithful q = (url_original (found_url q) = buf q \<and> url_type (found_url q) \<noteq> Type_undefined \<and>
     (url_url (found_url q) = buf q \<or> (\<exists>pr. url_url (found_url q) = protocol_prefix pr @ buf q)))"

lemma save_as_faithful: "ty \<noteq> Type_undefined \<Longrightarrow> save_as ty p = (ok, q) \<Longrightarrow> faithful q \<and> buf q = buf p"
  by (cases "\<not> has_protocol_prefix p \<and> ty \<noteq> Type_email")
    (auto simp: save_as_def faithful_def make_url_def make_url_original_def make_url_same_def)

lemma save_trimmed_faithful: "save_trimmed env p = (True, q) \<Longrightarrow> faithful q \<and> buf q = buf p"
  by (auto simp: save_trimmed_def Let_def split: if_splits dest: save_as_faithful [rotated])

subsection \<open>Properties\<close>

definition plain_env :: url_env where
  "plain_env = \<lparr>is_valid_domain = (\<lambda>d. d = ''com''), supported_schemes = [''icq'', ''magent''],
     url_ftp_protocols_allowed = False\<rparr>"





text \<open>
  every file extension the parser knows is recognised after the last dot of a path, in any mixture
  of upper and lower case, and the spelling of the text is kept.
\<close>

theorem extension_recognised:
  assumes "(w, e) \<in> set extension_words" and "map ctolower s = w"
    and "up_state p = S_path_dot" and "char_pos p = 0" and "char_buf p \<noteq> []"
  shows "\<exists>q. feed env s p = Some q \<and> up_state q = S_query_or_end \<and> up_extension q = e \<and> buf q = buf p @ s"
  by (rule feed_extension [OF assms])

theorem extension_recognised_witness:
  "\<exists>q. feed plain_env ''JpEg'' ((url_parser_new [])\<lparr>up_state := S_path_dot, buf := ''http://b.ru/a.''\<rparr>) = Some q \<and>
    up_extension q = Ext_jpeg \<and> buf q = ''http://b.ru/a.JpEg''"
proof -
  let ?p = "(url_parser_new [])\<lparr>up_state := S_path_dot, buf := ''http://b.ru/a.''\<rparr>"
  have "(''jpeg'', Ext_jpeg) \<in> set extension_words" by (simp add: extension_words_def)
  moreover have "map ctolower ''JpEg'' = ''jpeg''" "char_pos ?p = 0 \<and> char_buf ?p \<noteq> []" by code_simp+
  ultimately show ?thesis using extension_recognised [of "''jpeg''" Ext_jpeg "''JpEg''" ?p plain_env] by auto
qed

text \<open>
  what is cut off the end of a link is counted: the text collected is the link followed by the
  characters in the tail, all of them punctuation, and the link itself does not end with one.
\<close>

theorem trimmed_tail_counted:
  assumes "\<exists>c \<in> set (buf p). \<not> is_ending_char c"
  shows "\<exists>b tl. trim_buf p = Some (p\<lparr>buf := b, tail_size := tail_size p + int (length tl)\<rparr>) \<and>
    buf p = b @ tl \<and> b \<noteq> [] \<and> \<not> is_ending_char (last b) \<and> list_all is_ending_char tl"
  by (rule trim_buf_spec [OF assms])

theorem trimmed_tail_counted_witness:
  "\<exists>p. trim_buf ((url_parser_new [])\<lparr>buf := ''b.ru).''\<rparr>) = Some p \<and> is_ending_char (CHR '')'')"
proof -
  let ?p = "(url_parser_new [])\<lparr>buf := ''b.ru).''\<rparr>"
  have ex: "\<exists>c \<in> set (buf ?p). \<not> is_ending_char c" "is_ending_char (CHR '')'')" by code_simp+
  from trimmed_tail_counted [OF ex(1)] ex(2) show ?thesis by blast
qed

text \<open>
  A link that is saved has one of the types of a link, its original text is the trimmed text that
  was collected, and its address is that text, with the prefix of its protocol in front when the text
  had none.
\<close>

theorem saved_url_text:
  assumes "save_url env p = Some (True, q)"
  shows "let u = found_url q in url_original u = buf q \<and> url_type u \<noteq> Type_undefined \<and>
    (url_url u = buf q \<or> (\<exists>pr. url_url u = protocol_prefix pr @ buf q)) \<and>
    (\<exists>tl. buf p = buf q @ tl)"
proof -
  have "faithful q \<and> (\<exists>tl. buf p = buf q @ tl)"
  proof (cases "up_state p \<in> {S_compare_safe, S_profile_id}")
    case True
    then show ?thesis
      using assms by (auto simp: save_url_def no_url_states_def dest!: save_as_faithful [rotated] split: if_splits)
  next
    case False
    then obtain p1 where p1: "trim_buf p = Some p1"
      "save_trimmed env (if is_nbsp p1 then p1\<lparr>tail_size := tail_size p1 + 1\<rparr> else p1) = (True, q)"
      using assms by (auto simp: save_url_def bind_eq_Some_conv split: if_splits)
    have "faithful q" "buf q = buf p1" using save_trimmed_faithful [OF p1(2)] by (auto split: if_splits)
    then show ?thesis using trim_buf_prefix [OF p1(1)] by simp
  qed
  then show ?thesis by (simp add: faithful_def Let_def)
qed

theorem saved_url_text_witness:
  "\<exists>q. save_url plain_env ((url_parser_new [])\<lparr>up_state := S_host_n, domain_segments := 2, domain := ''com'',
      buf := ''b.com!'', up_protocol := Proto_http\<rparr>) = Some (True, q) \<and> url_original (found_url q) = buf q"
proof -
  let ?p = "(url_parser_new [])\<lparr>up_state := S_host_n, domain_segments := 2, domain := ''com'',
      buf := ''b.com!'', up_protocol := Proto_http\<rparr>"
  have "case save_url plain_env ?p of Some (ok, q) \<Rightarrow> ok | None \<Rightarrow> False" by code_simp
  then obtain q where q: "save_url plain_env ?p = Some (True, q)" by (auto split: option.splits prod.splits)
  from saved_url_text [OF q] q show ?thesis by (auto simp: Let_def)
qed

text \<open>
  the scheme \<open>magent\<close> is never recognised, although it is in the list of supported schemes: after
  the letter \<open>n\<close> the letter \<open>t\<close> does not lead on, because the \<open>if\<close> after it is not an \<open>else if\<close> and
  sends the parser to the host state; so no link is found in a text that is such a link.
\<close>

theorem magent_never_recognised:
  assumes "letter CHR ''t'' p" and "up_state p = S_protocol_n" and "\<not> is_space p"
  shows "up_step env p = Reprocess (p\<lparr>up_protocol := Proto_undefined, up_state := S_host\<rparr>) \<and>
    parse_urls plain_env ''magent://abc.com/x '' ''x.com/get'' = Some [] \<and>
    parse_urls plain_env ''icq://abc.com/x '' ''x.com/get'' =
      Some [make_url_same ''icq://abc.com/x'' Type_site Proto_icq Ext_undefined]"
proof (intro conjI)
  have "ctolower (cur_char p) = CHR ''t''" using assms(1) by (simp add: letter_def)
  then show "up_step env p = Reprocess (p\<lparr>up_protocol := Proto_undefined, up_state := S_host\<rparr>)"
    using assms(2,3)
    by (simp add: up_step_def step_protocol_def step_protocol_n_def letter_def space_or_host_def to_host_def
        set_state_def is_space_def is_nbsp_def cur_char_def set_protocol_def Let_def)
qed code_simp+

theorem magent_never_recognised_witness:
  "up_step plain_env ((url_parser_new [])\<lparr>up_state := S_protocol_n, char_buf := ''t'', char_size := 1\<rparr>) =
    Reprocess ((url_parser_new [])\<lparr>up_state := S_host, char_buf := ''t'', char_size := 1\<rparr>)"
proof -
  let ?p = "(url_parser_new [])\<lparr>up_state := S_protocol_n, char_buf := ''t'', char_size := 1\<rparr>"
  have "letter CHR ''t'' ?p" "\<not> is_space ?p" by code_simp+
  from magent_never_recognised [OF this(1) _ this(2), of plain_env] show ?thesis
    by (simp add: url_parser_new_def up_reset_def)
qed

text \<open>
  a link with a prohibited protocol is found but not reported, and the loop of \<open>parse_urls\<close> resets
  the parser only for reported links: what follows is appended to the text of the prohibited link, so
  an ordinary link after it is lost. With the protocol allowed both are found.
\<close>

theorem prohibited_link_hides_next:
  "map_option (map url_original) (parse_urls plain_env ''ftp://a.com www.b.com '' ''x.com/get'') = Some [] \<and>
   map_option (map url_original) (parse_urls plain_env ''www.b.com '' ''x.com/get'') = Some [''www.b.com''] \<and>
   map_option (map url_original) (parse_urls (plain_env\<lparr>url_ftp_protocols_allowed := True\<rparr>)
      ''ftp://a.com www.b.com '' ''x.com/get'') = Some [''ftp://a.com'', ''www.b.com'']"
  by code_simp

text \<open>
  when the comparison with a fixed address fails on a character of more than one byte, only its
  first byte is fed again, and the parser takes the next byte of the text for a continuation byte: the
  two-byte character after \<open>ic\<close> loses its second byte and the following space and link become its text.
\<close>

theorem fallback_breaks_utf8:
  "map_option (map url_original)
     (parse_urls plain_env (''ic'' @ [CHR 0xD1, CHR 0x8F] @ '' www.c.com '') ''x.com/get'') =
     Some [''ic'' @ [CHR 0xD1] @ '' www.c.com''] \<and>
   map_option (map url_original)
     (parse_urls plain_env (''iz'' @ [CHR 0xD1, CHR 0x8F] @ '' www.c.com '') ''x.com/get'') = Some [''www.c.com'']"
  by code_simp

text \<open>
  the branch that keeps a closing parenthesis can never be taken, since the parenthesis is itself
  an ending character: a link that ends in a parenthesised part loses the closing parenthesis.
\<close>

theorem closing_parenthesis_lost:
  assumes "trim_buf p = Some q" and "buf p \<noteq> []"
  shows "last (buf q) \<noteq> CHR '')'' \<and>
   map_option (map url_original) (parse_urls plain_env ''http://b.com/a_(b) '' ''x.com/get'') =
     Some [''http://b.com/a_(b'']"
proof
  show "last (buf q) \<noteq> CHR '')''"
    using trim_buf_parts(3) [OF assms] by (auto simp: is_ending_char_def)
qed code_simp

theorem closing_parenthesis_lost_witness:
  "\<exists>q. trim_buf ((url_parser_new [])\<lparr>buf := ''http://b.com/a_(b)''\<rparr>) = Some q \<and> last (buf q) \<noteq> CHR '')''"
proof -
  let ?p = "(url_parser_new [])\<lparr>buf := ''http://b.com/a_(b)''\<rparr>"
  have "trim_buf ?p \<noteq> None" "buf ?p \<noteq> []" by code_simp+
  then show ?thesis using closing_parenthesis_lost [of ?p] by auto
qed

end
