(* ===== verification/Event_Machine.thy ===== *)
theory Event_Machine
  imports Main
begin

text \<open>
  Programs that several parties act on, as machines: \<open>perform e s\<close> is the state after the event \<open>e\<close>, or
  \<open>None\<close> when it cannot happen in \<open>s\<close>. The locale \<open>machine_invariant\<close> is what the components that are
  modelled this way share: an invariant that holds at the start and after every event holds in every
  state that can be reached.
\<close>

fun run_events :: "('e \<Rightarrow> 's \<Rightarrow> 's option) \<Rightarrow> 'e list \<Rightarrow> 's \<Rightarrow> 's option" where
  "run_events perform [] s = Some s"
| "run_events perform (e # es) s = Option.bind (perform e s) (run_events perform es)"

inductive reachable :: "('e \<Rightarrow> 's \<Rightarrow> 's option) \<Rightarrow> 's \<Rightarrow> 's \<Rightarrow> bool" for perform s0 where
  start: "reachable perform s0 s0"
| event: "reachable perform s0 s \<Longrightarrow> perform e s = Some s' \<Longrightarrow> reachable perform s0 s'"

lemma run_events_append:
  "run_events perform (es @ fs) s = Option.bind (run_events perform es s) (run_events perform fs)"
  by (induction es arbitrary: s) (auto split: Option.bind_splits)

lemma run_events_reachable:
  "reachable perform s0 s \<Longrightarrow> run_events perform es s = Some s' \<Longrightarrow> reachable perform s0 s'"
  by (induction es arbitrary: s) (auto split: Option.bind_splits intro: reachable.event)

lemma reachable_run_events:
  "reachable perform s0 s \<longleftrightarrow> (\<exists>es. run_events perform es s0 = Some s)"
proof
  show "reachable perform s0 s \<Longrightarrow> \<exists>es. run_events perform es s0 = Some s"
  proof (induction rule: reachable.induct)
    case (event s e s')
    then obtain es where "run_events perform es s0 = Some s" by blast
    then have "run_events perform (es @ [e]) s0 = Some s'" using event.hyps(2) by (simp add: run_events_append)
    then show ?case by blast
  qed (auto intro: exI [of _ "[]"])
  show "\<exists>es. run_events perform es s0 = Some s \<Longrightarrow> reachable perform s0 s"
    by (auto intro: run_events_reachable reachable.start)
qed

locale machine_invariant =
  fixes perform :: "'e \<Rightarrow> 's \<Rightarrow> 's option" and inv :: "'s \<Rightarrow> bool"
  assumes inv_event: "inv s \<Longrightarrow> perform e s = Some s' \<Longrightarrow> inv s'"
begin

lemma inv_run: "inv s \<Longrightarrow> run_events perform es s = Some s' \<Longrightarrow> inv s'"
  by (induction es arbitrary: s) (auto split: Option.bind_splits dest: inv_event)

lemma inv_reachable: "reachable perform s0 s \<Longrightarrow> inv s0 \<Longrightarrow> inv s"
  by (induction rule: reachable.induct) (auto dest: inv_event)

end

text \<open>A measure that goes down with every event of a kind bounds how many of them can happen.\<close>

locale ranked_machine = machine_invariant +
  fixes internal :: "'a \<Rightarrow> bool" and rank :: "'b \<Rightarrow> nat"
  assumes rank_internal: "inv s \<Longrightarrow> internal e \<Longrightarrow> perform e s = Some s' \<Longrightarrow> rank s' < rank s"
    and rank_other: "inv s \<Longrightarrow> \<not> internal e \<Longrightarrow> perform e s = Some s' \<Longrightarrow> rank s' \<le> rank s"
begin

lemma internal_bound:
  "inv s \<Longrightarrow> run_events perform es s = Some s' \<Longrightarrow> length (filter internal es) + rank s' \<le> rank s"
proof (induction es arbitrary: s)
  case (Cons e es)
  then obtain t where t: "perform e s = Some t" "run_events perform es t = Some s'"
    by (auto split: Option.bind_splits)
  have "length (filter internal es) + rank s' \<le> rank t"
    using Cons.IH [OF _ t(2)] inv_event [OF Cons.prems(1) t(1)] by blast
  then show ?case
    using rank_internal [OF Cons.prems(1) _ t(1)] rank_other [OF Cons.prems(1) _ t(1)]
    by (cases "internal e") auto
qed simp

end

end
