(* ===== verification/Thread_Pool.thy ===== *)
theory Thread_Pool
  imports Event_Machine "HOL-Library.Multiset"
begin

text \<open>
  The thread pool of the core (\<open>core/tools/threadpool.h\<close>, \<open>threadpool.cpp\<close>) as a transition system.

  The protected state is the queue and \<open>stop_\<close>. A worker is at one of the points of \<open>run_task_impl\<close>
  where another thread can be seen to act: before it locks the mutex, after it has found nothing to do
  and still holds the mutex (\<open>W_checked\<close>), inside \<open>condition_.wait\<close>, running a task, or gone. The
  sections under the mutex are one step each, and a step that locks needs that no worker holds it. The
  destructor does not lock: it sets \<open>stop_\<close>, notifies all, and joins.

  \<open>notify_one\<close> is called after the mutex is released, so it is a step of its own, owed in
  \<open>to_notify\<close>. What a task does, when it ends and what its \<open>cancel_\<close> says is up to the environment;
  an action is a number, an empty \<open>std::function\<close> is \<open>None\<close>. \<open>accepted\<close> and \<open>finished\<close> record the
  tasks taken by the pool and those it is done with; \<open>cancelled\<close> marks the ones not executed.
\<close>

record task =
  task_action :: "nat option"
  task_id :: int
  task_name :: string

datatype worker = W_ready | W_checked | W_waiting | W_run task | W_exited

datatype lifetime = Alive | Stopped | Notified | Joined

record threadpool =
  tasks :: "task list"
  stop :: bool
  workers :: "worker list"
  to_notify :: nat
  lifetime :: lifetime
  accepted :: "task list"
  finished :: "(task \<times> bool) list"

definition threadpool_new :: "nat \<Rightarrow> threadpool" where
  "threadpool_new n = \<lparr>tasks = [], stop = False, workers = replicate n W_ready, to_notify = 0,
     lifetime = Alive, accepted = [], finished = []\<rparr>"

definition has_action :: "task \<Rightarrow> bool" where
  "has_action t = (task_action t \<noteq> None)"

definition unlocked :: "threadpool \<Rightarrow> bool" where
  "unlocked tp = (W_checked \<notin> set (workers tp))"

subsection \<open>The operations of the clients\<close>

definition push_back :: "task \<Rightarrow> threadpool \<Rightarrow> bool \<times> threadpool" where
  "push_back t tp =
    (if stop tp then (False, tp)
     else (True, tp\<lparr>tasks := tasks tp @ [t], accepted := accepted tp @ [t], to_notify := Suc (to_notify tp)\<rparr>))"

definition push_front :: "task \<Rightarrow> threadpool \<Rightarrow> bool \<times> threadpool" where
  "push_front t tp =
    (if stop tp then (False, tp)
     else (True, tp\<lparr>tasks := t # tasks tp, accepted := accepted tp @ [t], to_notify := Suc (to_notify tp)\<rparr>))"

text \<open>
  \<open>raise_task\<close> walks to the first task with the id, moves it out of the queue and puts it back at the
  front when it has an action.
\<close>

fun take_by_id :: "int \<Rightarrow> task list \<Rightarrow> (task \<times> task list) option" where
  "take_by_id i [] = None"
| "take_by_id i (t # ts) =
    (if task_id t = i then Some (t, ts)
     else case take_by_id i ts of None \<Rightarrow> None | Some (u, us) \<Rightarrow> Some (u, t # us))"

definition raise_task :: "int \<Rightarrow> threadpool \<Rightarrow> threadpool" where
  "raise_task i tp =
    (if i = -1 then tp
     else if length (tasks tp) \<le> 1 then tp
     else if task_id (hd (tasks tp)) = i then tp
     else case take_by_id i (tasks tp) of
        None \<Rightarrow> tp
      | Some (tmp, rest) \<Rightarrow> tp\<lparr>tasks := (if has_action tmp then tmp # rest else rest)\<rparr>)"

subsection \<open>A worker\<close>

definition set_worker :: "nat \<Rightarrow> worker \<Rightarrow> threadpool \<Rightarrow> threadpool" where
  "set_worker i w tp = tp\<lparr>workers := (workers tp)[i := w]\<rparr>"

text \<open>With the mutex locked: the condition of the wait loop, then the test that ends the worker.\<close>

definition fetch :: "nat \<Rightarrow> threadpool \<Rightarrow> threadpool" where
  "fetch i tp =
    (if \<not> (stop tp \<or> tasks tp \<noteq> []) then set_worker i W_checked tp
     else if stop tp \<and> tasks tp = [] then set_worker i W_exited tp
     else set_worker i (W_run (hd (tasks tp))) (tp\<lparr>tasks := tl (tasks tp)\<rparr>))"

text \<open>After the lock: an empty task is dropped, any other is executed unless it is cancelled.\<close>

definition complete :: "nat \<Rightarrow> task \<Rightarrow> bool \<Rightarrow> threadpool \<Rightarrow> threadpool" where
  "complete i t cancelled tp =
    set_worker i W_ready (tp\<lparr>finished := finished tp @ [(t, has_action t \<and> \<not> cancelled)]\<rparr>)"

definition wake :: "worker \<Rightarrow> worker" where
  "wake w = (if w = W_waiting then W_ready else w)"

subsection \<open>Steps\<close>

datatype event =
  E_push_back task | E_push_front task | E_raise int | E_notify "nat option"
  | E_fetch nat | E_wait nat | E_spurious nat | E_complete nat bool
  | E_set_stop | E_notify_all | E_join

text \<open>
  \<open>perform\<close> executes an event; \<open>None\<close> when it cannot happen in this state. \<open>E_notify (Some i)\<close> wakes the
  waiting worker \<open>i\<close>; without a waiting worker a notification has no effect.
\<close>

fun perform :: "event \<Rightarrow> threadpool \<Rightarrow> threadpool option" where
  "perform (E_push_back t) tp = (if unlocked tp then Some (snd (push_back t tp)) else None)"
| "perform (E_push_front t) tp = (if unlocked tp then Some (snd (push_front t tp)) else None)"
| "perform (E_raise i) tp = (if unlocked tp then Some (raise_task i tp) else None)"
| "perform (E_notify None) tp =
    (if 0 < to_notify tp \<and> W_waiting \<notin> set (workers tp) then Some (tp\<lparr>to_notify := to_notify tp - 1\<rparr>) else None)"
| "perform (E_notify (Some i)) tp =
    (if 0 < to_notify tp \<and> i < length (workers tp) \<and> workers tp ! i = W_waiting
     then Some (set_worker i W_ready (tp\<lparr>to_notify := to_notify tp - 1\<rparr>)) else None)"
| "perform (E_fetch i) tp =
    (if i < length (workers tp) \<and> workers tp ! i = W_ready \<and> unlocked tp then Some (fetch i tp) else None)"
| "perform (E_wait i) tp =
    (if i < length (workers tp) \<and> workers tp ! i = W_checked then Some (set_worker i W_waiting tp) else None)"
| "perform (E_spurious i) tp =
    (if i < length (workers tp) \<and> workers tp ! i = W_waiting then Some (set_worker i W_ready tp) else None)"
| "perform (E_complete i c) tp =
    (if i < length (workers tp)
     then (case workers tp ! i of W_run t \<Rightarrow> Some (complete i t c tp) | _ \<Rightarrow> None) else None)"
| "perform E_set_stop tp =
    (if lifetime tp = Alive then Some (tp\<lparr>stop := True, lifetime := Stopped\<rparr>) else None)"
| "perform E_notify_all tp =
    (if lifetime tp = Stopped then Some (tp\<lparr>workers := map wake (workers tp), lifetime := Notified\<rparr>) else None)"
| "perform E_join tp =
    (if lifetime tp = Notified \<and> set (workers tp) \<subseteq> {W_exited} then Some (tp\<lparr>lifetime := Joined\<rparr>) else None)"

abbreviation pool_run :: "event list \<Rightarrow> threadpool \<Rightarrow> threadpool option" where
  "pool_run \<equiv> run_events perform"

abbreviation pool_reachable :: "nat \<Rightarrow> threadpool \<Rightarrow> bool" where
  "pool_reachable n \<equiv> reachable perform (threadpool_new n)"

end
