(* ===== verification/Pool_Facts.thy ===== *)
theory Pool_Facts
  imports Thread_Pool
begin

text \<open>
  What the thread pool promises its clients: no task is lost or run twice, none is accepted after the
  stop, and all that were accepted are done when the pool is gone; and how its shutdown can hang.
\<close>

subsection \<open>The invariant\<close>

fun running_task :: "worker \<Rightarrow> task list" where
  "running_task (W_run t) = [t]"
| "running_task _ = []"

definition running :: "threadpool \<Rightarrow> task list" where
  "running tp = concat (map running_task (workers tp))"

definition real_tasks :: "task list \<Rightarrow> task multiset" where
  "real_tasks ts = mset (filter has_action ts)"

lemma real_tasks_simps [simp]:
  "real_tasks [] = {#}" "real_tasks (t # ts) = (if has_action t then {#t#} else {#}) + real_tasks ts"
  "real_tasks (xs @ ys) = real_tasks xs + real_tasks ys"
  by (simp_all add: real_tasks_def)

definition pool_inv :: "threadpool \<Rightarrow> bool" where
  "pool_inv tp \<longleftrightarrow>
     real_tasks (accepted tp) = real_tasks (tasks tp) + real_tasks (running tp) + real_tasks (map fst (finished tp)) \<and>
     stop tp = (lifetime tp \<noteq> Alive) \<and>
     (W_checked \<in> set (workers tp) \<longrightarrow> tasks tp = []) \<and>
     (W_exited \<in> set (workers tp) \<longrightarrow> stop tp \<and> tasks tp = []) \<and>
     (lifetime tp = Joined \<longrightarrow> set (workers tp) \<subseteq> {W_exited}) \<and>
     (workers tp \<noteq> [] \<and> tasks tp \<noteq> [] \<longrightarrow>
       0 < to_notify tp \<or> (\<exists>w \<in> set (workers tp). w = W_ready \<or> running_task w \<noteq> []))"

lemma pool_inv_new: "pool_inv (threadpool_new n)"
proof -
  have "concat (map running_task (replicate n W_ready)) = []" by (induction n) auto
  then show ?thesis by (auto simp: pool_inv_def threadpool_new_def running_def)
qed

lemma set_worker_sel [simp]:
  "tasks (set_worker i w tp) = tasks tp" "stop (set_worker i w tp) = stop tp"
  "workers (set_worker i w tp) = (workers tp)[i := w]" "to_notify (set_worker i w tp) = to_notify tp"
  "lifetime (set_worker i w tp) = lifetime tp" "accepted (set_worker i w tp) = accepted tp"
  "finished (set_worker i w tp) = finished tp"
  by (simp_all add: set_worker_def)

lemma real_tasks_update:
  assumes "i < length ws"
  shows "real_tasks (concat (map running_task (ws[i := w]))) + real_tasks (running_task (ws ! i)) =
    real_tasks (concat (map running_task ws)) + real_tasks (running_task w)"
  using assms
proof (induction ws arbitrary: i)
  case (Cons v ws)
  then show ?case by (cases i) (auto simp: ac_simps)
qed simp

lemma take_by_id_Some:
  "take_by_id i ts = Some (t, us) \<Longrightarrow>
    \<exists>pre post. ts = pre @ t # post \<and> us = pre @ post \<and> task_id t = i \<and> (\<forall>u \<in> set pre. task_id u \<noteq> i)"
proof (induction ts arbitrary: us)
  case (Cons x ts)
  show ?case
  proof (cases "task_id x = i")
    case True
    then show ?thesis using Cons.prems by (auto intro: exI [of _ "[]"])
  next
    case False
    then obtain vs where "take_by_id i ts = Some (t, vs)" "us = x # vs"
      using Cons.prems by (auto split: option.splits)
    then obtain pre post where "ts = pre @ t # post" "vs = pre @ post" "task_id t = i" "\<forall>u \<in> set pre. task_id u \<noteq> i"
      using Cons.IH [of vs] by blast
    with False \<open>us = x # vs\<close> show ?thesis by (intro exI [of _ "x # pre"] exI [of _ post]) auto
  qed
qed simp

lemma take_by_id_None: "take_by_id i ts = None \<longleftrightarrow> i \<notin> task_id ` set ts"
  by (induction ts) (auto split: option.splits)

lemma raise_task_shape:
  "\<exists>ts. raise_task i tp = tp\<lparr>tasks := ts\<rparr> \<and> real_tasks ts = real_tasks (tasks tp) \<and> (ts = [] \<longleftrightarrow> tasks tp = [])"
proof (cases "i = -1 \<or> length (tasks tp) \<le> 1 \<or> task_id (hd (tasks tp)) = i \<or> take_by_id i (tasks tp) = None")
  case True
  then have "raise_task i tp = tp" by (auto simp: raise_task_def)
  then show ?thesis by (intro exI [of _ "tasks tp"]) simp
next
  case False
  then obtain t us where take: "take_by_id i (tasks tp) = Some (t, us)" by auto
  then obtain pre post where "tasks tp = pre @ t # post" "us = pre @ post" using take_by_id_Some by blast
  with False take show ?thesis
    by (intro exI [of _ "if has_action t then t # us else us"]) (auto simp: raise_task_def)
qed

lemma set_update_cases: "x \<in> set (xs[i := y]) \<Longrightarrow> x = y \<or> x \<in> set xs"
  by (meson insert_iff set_update_subset_insert subsetD)

lemma running_update:
  assumes "i < length (workers tp)"
  shows "real_tasks (running (set_worker i w tp)) + real_tasks (running_task (workers tp ! i)) =
    real_tasks (running tp) + real_tasks (running_task w)"
  using real_tasks_update [OF assms] by (simp add: running_def)

lemma inv_push: "pool_inv tp \<Longrightarrow> unlocked tp \<Longrightarrow>
    pool_inv (snd (push_back t tp)) \<and> pool_inv (snd (push_front t tp))"
  by (auto simp: pool_inv_def push_back_def push_front_def unlocked_def running_def)

lemma inv_raise: "pool_inv tp \<Longrightarrow> pool_inv (raise_task i tp)"
  using raise_task_shape [of i tp] by (elim exE conjE) (auto simp: pool_inv_def running_def)

lemma inv_set_worker:
  assumes inv: "pool_inv tp" and i: "i < length (workers tp)"
    and old: "running_task (workers tp ! i) = []" and new: "running_task w = []"
    and w: "w = W_ready \<or> tasks tp = []" "w = W_exited \<longrightarrow> stop tp" and alive: "lifetime tp \<noteq> Joined"
  shows "pool_inv (set_worker i w tp)"
proof -
  have run: "real_tasks (running (set_worker i w tp)) = real_tasks (running tp)"
    using running_update [OF i, of w] old new by simp
  have mem: "v \<in> set ((workers tp)[i := w]) \<Longrightarrow> v = w \<or> v \<in> set (workers tp)" for v by (rule set_update_cases)
  have "W_ready \<in> set ((workers tp)[i := w])" if "tasks tp \<noteq> []"
    using w(1) that set_update_memI [OF i, of w] by auto
  moreover have "W_checked \<in> set ((workers tp)[i := w]) \<Longrightarrow> tasks tp = []"
    "W_exited \<in> set ((workers tp)[i := w]) \<Longrightarrow> stop tp \<and> tasks tp = []"
    using mem [of W_checked] mem [of W_exited] w inv by (auto simp: pool_inv_def)
  ultimately show ?thesis
    using inv alive run unfolding pool_inv_def by (simp only: set_worker_sel) blast
qed

lemma inv_take:
  assumes inv: "pool_inv tp" and i: "i < length (workers tp)" and old: "workers tp ! i = W_ready"
    and ts: "tasks tp = t # ts" and free: "unlocked tp"
  shows "pool_inv (set_worker i (W_run t) (tp\<lparr>tasks := ts\<rparr>))"
proof -
  let ?tp = "tp\<lparr>tasks := ts\<rparr>"
  have run: "real_tasks (running (set_worker i (W_run t) ?tp)) = real_tasks (running tp) + real_tasks [t]"
    using running_update [of i ?tp "W_run t"] i old by (simp add: running_def)
  have mem: "v \<in> set ((workers tp)[i := W_run t]) \<Longrightarrow> v = W_run t \<or> v \<in> set (workers tp)" for v
    by (rule set_update_cases)
  have "W_run t \<in> set ((workers tp)[i := W_run t])" using i by (rule set_update_memI)
  then have "\<exists>w \<in> set ((workers tp)[i := W_run t]). w = W_ready \<or> running_task w \<noteq> []"
    by (intro bexI [of _ "W_run t"]) simp_all
  moreover have "W_checked \<notin> set ((workers tp)[i := W_run t])" "W_exited \<notin> set ((workers tp)[i := W_run t])"
    using mem [of W_checked] mem [of W_exited] inv free ts by (auto simp: pool_inv_def unlocked_def)
  moreover have "lifetime tp \<noteq> Joined"
    using inv i old nth_mem [OF i] by (auto simp: pool_inv_def)
  ultimately show ?thesis
    using inv run ts unfolding pool_inv_def by (auto simp: ac_simps)
qed

lemma inv_complete:
  assumes inv: "pool_inv tp" and i: "i < length (workers tp)" and old: "workers tp ! i = W_run t"
  shows "pool_inv (complete i t c tp)"
proof -
  let ?tp = "tp\<lparr>finished := finished tp @ [(t, has_action t \<and> \<not> c)]\<rparr>"
  have run: "real_tasks (running (set_worker i W_ready ?tp)) + real_tasks [t] = real_tasks (running tp)"
    using running_update [of i ?tp W_ready] i old by (simp add: running_def)
  have mem: "v \<in> set ((workers tp)[i := W_ready]) \<Longrightarrow> v = W_ready \<or> v \<in> set (workers tp)" for v
    by (rule set_update_cases)
  have "W_ready \<in> set ((workers tp)[i := W_ready])" using i by (rule set_update_memI)
  moreover have "lifetime tp \<noteq> Joined"
    using inv old nth_mem [OF i] by (auto simp: pool_inv_def)
  ultimately show ?thesis
    using inv run mem [of W_checked] mem [of W_exited] unfolding pool_inv_def complete_def
    by (auto simp: ac_simps)
qed

lemma inv_to_notify:
  assumes "pool_inv tp"
    and "workers tp \<noteq> [] \<Longrightarrow> tasks tp \<noteq> [] \<Longrightarrow> \<exists>w \<in> set (workers tp). w = W_ready \<or> running_task w \<noteq> []"
  shows "pool_inv (tp\<lparr>to_notify := k\<rparr>)"
  using assms unfolding pool_inv_def running_def by auto

lemma wake_simps [simp]:
  "wake w = W_checked \<longleftrightarrow> w = W_checked" "wake w = W_exited \<longleftrightarrow> w = W_exited"
  "W_checked = wake w \<longleftrightarrow> w = W_checked" "W_exited = wake w \<longleftrightarrow> w = W_exited"
  "running_task (wake w) = running_task w"
  by (auto simp: wake_def)

lemma inv_notify_all:
  assumes "pool_inv tp" and "lifetime tp = Stopped"
  shows "pool_inv (tp\<lparr>workers := map wake (workers tp), lifetime := Notified\<rparr>)"
proof -
  have "concat (map running_task (map wake ws)) = concat (map running_task ws)" for ws
    by (induction ws) auto
  moreover have "w = W_ready \<or> running_task w \<noteq> [] \<Longrightarrow> wake w = W_ready \<or> running_task (wake w) \<noteq> []" for w
    by (auto simp: wake_def)
  ultimately show ?thesis
    using assms unfolding pool_inv_def running_def by (auto simp: image_iff)
qed

lemma pool_inv_event:
  assumes inv: "pool_inv tp" and run: "perform e tp = Some tp'"
  shows "pool_inv tp'"
proof (cases e)
  case (E_push_back t)
  then show ?thesis using inv run inv_push by (auto split: if_splits)
next
  case (E_push_front t)
  then show ?thesis using inv run inv_push by (auto split: if_splits)
next
  case (E_raise i)
  then show ?thesis using inv run inv_raise by (auto split: if_splits)
next
  case (E_notify j)
  show ?thesis
  proof (cases j)
    case None
    then have free: "W_waiting \<notin> set (workers tp)" and tp': "tp' = tp\<lparr>to_notify := to_notify tp - 1\<rparr>"
      using run E_notify by (auto split: if_splits)
    have "\<exists>w \<in> set (workers tp). w = W_ready \<or> running_task w \<noteq> []" if ne: "workers tp \<noteq> []" "tasks tp \<noteq> []"
    proof -
      let ?w = "hd (workers tp)"
      have mem: "?w \<in> set (workers tp)" using ne(1) by simp
      then have "?w \<noteq> W_waiting" "?w \<noteq> W_checked" "?w \<noteq> W_exited"
        using free inv ne(2) by (auto simp: pool_inv_def)
      then have "?w = W_ready \<or> running_task ?w \<noteq> []" by (cases ?w) auto
      with mem show ?thesis by blast
    qed
    then show ?thesis unfolding tp' by (intro inv_to_notify [OF inv]) blast
  next
    case (Some i)
    then have i: "i < length (workers tp)" "workers tp ! i = W_waiting"
      and tp': "tp' = (set_worker i W_ready tp)\<lparr>to_notify := to_notify tp - 1\<rparr>"
      using run E_notify by (auto simp: set_worker_def split: if_splits)
    have "lifetime tp \<noteq> Joined" using inv i nth_mem [OF i(1)] by (auto simp: pool_inv_def)
    then have "pool_inv (set_worker i W_ready tp)" using inv i by (intro inv_set_worker) simp_all
    moreover have "W_ready \<in> set (workers (set_worker i W_ready tp))" using set_update_memI [OF i(1)] by simp
    ultimately show ?thesis unfolding tp' using inv_to_notify by blast
  qed
next
  case (E_fetch i)
  then have i: "i < length (workers tp)" "workers tp ! i = W_ready" "unlocked tp" "tp' = fetch i tp"
    using run by (auto split: if_splits)
  have alive: "lifetime tp \<noteq> Joined" using inv i nth_mem [OF i(1)] by (auto simp: pool_inv_def)
  show ?thesis
  proof (cases "tasks tp")
    case Nil
    then show ?thesis using inv i alive by (auto simp: fetch_def intro!: inv_set_worker)
  next
    case (Cons t ts)
    then show ?thesis using inv_take [OF inv i(1,2) Cons i(3)] i(4) by (simp add: fetch_def)
  qed
next
  case (E_wait i)
  then have i: "i < length (workers tp)" "workers tp ! i = W_checked" "tp' = set_worker i W_waiting tp"
    using run by (auto split: if_splits)
  then have "tasks tp = []" "lifetime tp \<noteq> Joined"
    using inv nth_mem [OF i(1)] by (auto simp: pool_inv_def)
  then show ?thesis using inv i by (auto intro!: inv_set_worker)
next
  case (E_spurious i)
  then have i: "i < length (workers tp)" "workers tp ! i = W_waiting" "tp' = set_worker i W_ready tp"
    using run by (auto split: if_splits)
  then have "lifetime tp \<noteq> Joined" using inv nth_mem [OF i(1)] by (auto simp: pool_inv_def)
  then show ?thesis using inv i by (auto intro!: inv_set_worker)
next
  case (E_complete i c)
  then show ?thesis using inv run inv_complete by (auto split: if_splits worker.splits)
next
  case E_set_stop
  then show ?thesis using inv run by (auto simp: pool_inv_def running_def split: if_splits)
next
  case E_notify_all
  then show ?thesis using inv run inv_notify_all by (auto split: if_splits)
next
  case E_join
  then show ?thesis using inv run by (auto simp: pool_inv_def running_def split: if_splits)
qed

interpretation pool: machine_invariant perform pool_inv
  by unfold_locales (rule pool_inv_event)

lemma pool_reachable_inv: "pool_reachable n tp \<Longrightarrow> pool_inv tp"
  using pool.inv_reachable [OF _ pool_inv_new] .

subsection \<open>The number of workers is fixed\<close>

lemma raise_task_sel [simp]:
  "workers (raise_task i tp) = workers tp" "stop (raise_task i tp) = stop tp"
  "lifetime (raise_task i tp) = lifetime tp" "accepted (raise_task i tp) = accepted tp"
  "finished (raise_task i tp) = finished tp" "to_notify (raise_task i tp) = to_notify tp"
  by (auto simp: raise_task_def split: option.splits)

lemma perform_workers: "perform e tp = Some tp' \<Longrightarrow> length (workers tp') = length (workers tp)"
  by (induction e tp rule: perform.induct)
    (auto simp: push_back_def push_front_def fetch_def complete_def split: if_splits worker.splits)

interpretation pool_size: machine_invariant perform "\<lambda>tp. length (workers tp) = n" for n
  by unfold_locales (auto dest: perform_workers)

lemma pool_reachable_size:
  assumes "pool_reachable n tp"
  shows "length (workers tp) = n"
proof -
  have "length (workers (threadpool_new n)) = n" by (simp add: threadpool_new_def)
  then show ?thesis using pool_size.inv_reachable [OF assms] by blast
qed

subsection \<open>An orderly shutdown ends\<close>

definition draining :: "threadpool \<Rightarrow> bool" where
  "draining tp \<longleftrightarrow> pool_inv tp \<and> stop tp \<and> lifetime tp \<in> {Notified, Joined} \<and>
     W_waiting \<notin> set (workers tp) \<and> W_checked \<notin> set (workers tp)"

definition worker_event :: "event \<Rightarrow> bool" where
  "worker_event e = (case e of E_fetch i \<Rightarrow> True | E_complete i c \<Rightarrow> True | _ \<Rightarrow> False)"

fun worker_rank :: "worker \<Rightarrow> nat" where
  "worker_rank (W_run t) = 2"
| "worker_rank W_exited = 0"
| "worker_rank _ = 1"

definition work_left :: "threadpool \<Rightarrow> nat" where
  "work_left tp = 2 * length (tasks tp) + sum_list (map worker_rank (workers tp))"

lemma sum_update:
  assumes "i < length ws"
  shows "sum_list (map worker_rank (ws[i := w])) + worker_rank (ws ! i) = sum_list (map worker_rank ws) + worker_rank w"
  using assms
proof (induction ws arbitrary: i)
  case (Cons v ws)
  then show ?case by (cases i) auto
qed simp

lemma length_take_by_id: "take_by_id i ts = Some (t, us) \<Longrightarrow> length ts = Suc (length us)"
  using take_by_id_Some by fastforce

lemma length_raise: "length (tasks (raise_task i tp)) \<le> length (tasks tp)"
  by (auto simp: raise_task_def split: option.splits dest!: length_take_by_id)

lemma not_member_nth: "x \<notin> set xs \<Longrightarrow> i < length xs \<Longrightarrow> xs ! i \<noteq> x"
  by (auto dest: nth_mem)

lemma draining_event:
  assumes "draining tp" and "perform e tp = Some tp'"
  shows "draining tp'"
proof -
  have "pool_inv tp'" using assms pool_inv_event unfolding draining_def by blast
  moreover have "stop tp' \<and> lifetime tp' \<in> {Notified, Joined} \<and> W_waiting \<notin> set (workers tp') \<and> W_checked \<notin> set (workers tp')"
    using assms
    by (induction e tp rule: perform.induct)
      (auto simp: draining_def push_back_def push_front_def fetch_def complete_def split: if_splits worker.splits
        dest: not_member_nth dest!: set_update_cases)
  ultimately show ?thesis by (simp add: draining_def)
qed

lemma work_left_event:
  assumes "draining tp" and "perform e tp = Some tp'"
  shows "work_left tp' \<le> work_left tp" and "worker_event e \<Longrightarrow> work_left tp' < work_left tp"
proof -
  have "work_left tp' \<le> work_left tp \<and> (worker_event e \<longrightarrow> work_left tp' < work_left tp)"
    using assms
  proof (induction e tp rule: perform.induct)
    case (6 i tp)
    then have i: "i < length (workers tp)" "workers tp ! i = W_ready" "tp' = fetch i tp" "stop tp"
      by (auto simp: draining_def split: if_splits)
    then show ?case
      using sum_update [OF i(1), of W_exited] sum_update [OF i(1), of "W_run (hd (tasks tp))"]
      by (cases "tasks tp") (simp_all add: fetch_def work_left_def)
  next
    case (9 i c tp)
    then obtain t where i: "i < length (workers tp)" "workers tp ! i = W_run t" "tp' = complete i t c tp"
      by (auto split: if_splits worker.splits)
    then show ?case
      using sum_update [OF i(1), of W_ready] by (simp add: complete_def work_left_def)
  next
    case (3 i tp)
    then show ?case using length_raise [of i tp] by (auto simp: work_left_def worker_event_def split: if_splits)
  qed (auto simp: draining_def push_back_def push_front_def work_left_def worker_event_def split: if_splits
      dest: not_member_nth)
  then show "work_left tp' \<le> work_left tp" "worker_event e \<Longrightarrow> work_left tp' < work_left tp" by blast+
qed

interpretation drain: ranked_machine perform draining worker_event work_left
  by unfold_locales (auto dest: draining_event work_left_event)

lemma draining_progress:
  assumes "draining tp" and "\<not> set (workers tp) \<subseteq> {W_exited}"
  shows "\<exists>e tp'. worker_event e \<and> perform e tp = Some tp'"
proof -
  obtain i where i: "i < length (workers tp)" "workers tp ! i \<noteq> W_exited"
    using assms(2) unfolding subset_iff in_set_conv_nth by auto
  have "workers tp ! i \<noteq> W_waiting" "workers tp ! i \<noteq> W_checked" "unlocked tp"
    using assms(1) nth_mem [OF i(1)] by (auto simp: draining_def unlocked_def)
  then consider "workers tp ! i = W_ready" | t where "workers tp ! i = W_run t"
    using i(2) by (cases "workers tp ! i") auto
  then show ?thesis
  proof cases
    case 1
    then show ?thesis using i(1) \<open>unlocked tp\<close> by (intro exI [of _ "E_fetch i"]) (simp add: worker_event_def)
  next
    case 2
    then show ?thesis using i(1) by (intro exI [of _ "E_complete i False"]) (simp add: worker_event_def)
  qed
qed

subsection \<open>One worker, tasks pushed at the back\<close>

definition in_order :: "threadpool \<Rightarrow> bool" where
  "in_order tp \<longleftrightarrow> length (workers tp) = 1 \<and> map fst (finished tp) @ running tp @ tasks tp = accepted tp"

definition fifo_event :: "event \<Rightarrow> bool" where
  "fifo_event e = (case e of E_push_front t \<Rightarrow> False | E_raise i \<Rightarrow> False | _ \<Rightarrow> True)"

lemma in_order_event:
  assumes "in_order tp" and "fifo_event e" and "perform e tp = Some tp'"
  shows "in_order tp'"
proof -
  obtain w where w: "workers tp = [w]" using assms(1) by (auto simp: in_order_def length_Suc_conv)
  from assms w show ?thesis
    by (induction e tp rule: perform.induct)
      (auto simp: in_order_def fifo_event_def running_def push_back_def fetch_def complete_def set_worker_def wake_def
        split: if_splits worker.splits)
qed

definition fifo_perform :: "event \<Rightarrow> threadpool \<Rightarrow> threadpool option" where
  "fifo_perform e tp = (if fifo_event e then perform e tp else None)"

interpretation fifo: machine_invariant fifo_perform in_order
  by unfold_locales (auto simp: fifo_perform_def dest: in_order_event split: if_splits)

subsection \<open>What the clients rely on\<close>

text \<open>
  C24: However the clients, the workers, the notifications and the destructor of a pool interleave, each
  task that the pool accepted and that has an action is in exactly one of three places: still in the queue,
  in the hands of a worker, or executed (or dropped by its cancel callback). No task is lost and none is
  run twice, also when \<open>raise_task\<close> moves tasks about in the queue.
\<close>

theorem pool_tasks_conserved:
  assumes "pool_reachable n tp"
  shows "real_tasks (accepted tp) =
    real_tasks (tasks tp) + real_tasks (running tp) + real_tasks (map fst (finished tp))"
  using pool_reachable_inv [OF assms] by (simp add: pool_inv_def)

definition sample_task :: "int \<Rightarrow> task" where
  "sample_task i = \<lparr>task_action = Some 7, task_id = i, task_name = ''t''\<rparr>"

definition sample_events :: "event list" where
  "sample_events = [E_push_back (sample_task 1), E_push_back (sample_task 2), E_push_front (sample_task 3),
     E_raise 2, E_notify None, E_fetch 1, E_fetch 0, E_complete 0 True, E_fetch 0, E_set_stop, E_notify_all,
     E_complete 1 False, E_complete 0 False, E_fetch 0, E_fetch 1]"

definition sample_pool :: threadpool where
  "sample_pool = \<lparr>tasks = [], stop = True, workers = [W_exited, W_exited], to_notify = 2, lifetime = Joined,
     accepted = [sample_task 1, sample_task 2, sample_task 3],
     finished = [(sample_task 3, False), (sample_task 2, True), (sample_task 1, True)]\<rparr>"

lemmas pool_eval = threadpool_new_def unlocked_def push_back_def push_front_def raise_task_def has_action_def
  fetch_def complete_def set_worker_def wake_def sample_task_def

lemma sample_run: "pool_run (sample_events @ [E_join]) (threadpool_new 2) = Some sample_pool"
  by (simp add: sample_events_def sample_pool_def pool_eval numeral_2_eq_2)

lemma sample_reachable: "pool_reachable 2 sample_pool"
  using sample_run by (auto simp: reachable_run_events)

theorem pool_tasks_conserved_witness:
  "real_tasks (accepted sample_pool) =
    real_tasks (tasks sample_pool) + real_tasks (running sample_pool) + real_tasks (map fst (finished sample_pool))"
  by (rule pool_tasks_conserved [OF sample_reachable])

text \<open>
  C25: When the destructor of a pool with workers has joined them, the queue is empty, no task is being run
  and every task with an action that was accepted, from whichever thread and however late, has been
  executed or cancelled: the stop does not drop work, it only refuses new work.
\<close>

theorem pool_shutdown_complete:
  assumes "pool_reachable n tp" and "0 < n" and "lifetime tp = Joined"
  shows "tasks tp = [] \<and> running tp = [] \<and> real_tasks (accepted tp) = real_tasks (map fst (finished tp))
    \<and> push_back t tp = (False, tp) \<and> push_front t tp = (False, tp)"
proof -
  have inv: "pool_inv tp" using assms(1) by (rule pool_reachable_inv)
  then have gone: "set (workers tp) \<subseteq> {W_exited}" and stop: "stop tp"
    using assms(3) by (auto simp: pool_inv_def)
  have "workers tp \<noteq> []" using pool_reachable_size [OF assms(1)] assms(2) by auto
  then have "W_exited \<in> set (workers tp)" using gone by (cases "workers tp") auto
  then have "tasks tp = []" using inv by (auto simp: pool_inv_def)
  moreover have "running tp = []" using gone unfolding running_def by auto
  ultimately show ?thesis using inv stop by (simp add: pool_inv_def push_back_def push_front_def)
qed

theorem pool_shutdown_complete_witness:
  "real_tasks (accepted sample_pool) = real_tasks (map fst (finished sample_pool))"
  using pool_shutdown_complete [OF sample_reachable, of "sample_task 4"] by (simp add: sample_pool_def)

text \<open>
  C27: While the queue holds a task, a notification is still owed or some worker is on its way to the
  queue: \<open>notify_one\<close> after the release of the mutex loses no wakeup, so a task is never left behind with
  every worker asleep.
\<close>

theorem pool_no_lost_wakeup:
  assumes "pool_reachable n tp" and "0 < n" and "tasks tp \<noteq> []"
  shows "0 < to_notify tp \<or> (\<exists>w \<in> set (workers tp). w = W_ready \<or> running_task w \<noteq> [])"
proof -
  have "workers tp \<noteq> []" using pool_reachable_size [OF assms(1)] assms(2) by auto
  then show ?thesis using pool_reachable_inv [OF assms(1)] assms(3) by (simp add: pool_inv_def)
qed

theorem pool_no_lost_wakeup_witness:
  "\<exists>tp. pool_run [E_fetch 0, E_wait 0, E_push_back (sample_task 1)] (threadpool_new 1) = Some tp \<and>
    0 < to_notify tp"
proof -
  define es where "es = [E_fetch 0, E_wait 0, E_push_back (sample_task 1)]"
  define tp where "tp = the (pool_run es (threadpool_new 1))"
  have run: "pool_run es (threadpool_new 1) = Some tp" and asleep: "tasks tp \<noteq> []" "workers tp = [W_waiting]"
    by (simp_all add: tp_def es_def pool_eval)
  have "pool_reachable 1 tp" using run by (auto simp: reachable_run_events)
  then have "0 < to_notify tp" using pool_no_lost_wakeup [of 1 tp] asleep by simp
  then show ?thesis using run unfolding es_def by blast
qed

text \<open>
  C28: Once the stop flag has been seen by every worker (none waits and none is about to wait, and the
  destructor has notified), the shutdown ends: whatever else happens, at most \<open>work_left\<close> more steps of the
  workers are possible, and as long as a worker is alive one of them is.
\<close>

theorem orderly_shutdown_ends:
  assumes "draining tp" and "pool_run es tp = Some tp'"
  shows "length (filter worker_event es) \<le> work_left tp \<and>
    (set (workers tp') \<subseteq> {W_exited} \<or> (\<exists>e tp''. worker_event e \<and> perform e tp' = Some tp''))"
  using drain.internal_bound [OF assms] draining_progress drain.inv_run [OF assms] by auto

theorem orderly_shutdown_ends_witness:
  "\<exists>tp. pool_run sample_events (threadpool_new 2) = Some tp \<and> workers tp = [W_exited, W_exited] \<and>
    (\<forall>es tp'. pool_run es tp = Some tp' \<longrightarrow> filter worker_event es = [])"
proof -
  define tp where "tp = the (pool_run sample_events (threadpool_new 2))"
  have run: "pool_run sample_events (threadpool_new 2) = Some tp"
    and tp: "workers tp = [W_exited, W_exited]" "stop tp" "lifetime tp = Notified" "tasks tp = []"
    by (simp_all add: tp_def sample_events_def pool_eval numeral_2_eq_2)
  have "pool_reachable 2 tp" using run by (auto simp: reachable_run_events)
  then have "draining tp" using pool_reachable_inv tp by (auto simp: draining_def)
  moreover have "work_left tp = 0" using tp by (simp add: work_left_def)
  ultimately have "\<forall>es tp'. pool_run es tp = Some tp' \<longrightarrow> filter worker_event es = []"
    using orderly_shutdown_ends by fastforce
  then show ?thesis using run tp(1) by blast
qed

text \<open>
  A pool with one worker to which tasks are only pushed at the back is a queue: the tasks executed,
  then the one being executed, then the ones waiting are the accepted tasks in the order they were pushed.
\<close>

theorem single_worker_fifo:
  assumes "run_events fifo_perform es (threadpool_new 1) = Some tp"
  shows "map fst (finished tp) @ running tp @ tasks tp = accepted tp"
proof -
  have "in_order (threadpool_new 1)" by (simp add: in_order_def threadpool_new_def running_def)
  then show ?thesis using fifo.inv_run [OF _ assms] by (simp add: in_order_def)
qed

theorem single_worker_fifo_witness:
  "\<exists>tp. run_events fifo_perform [E_push_back (sample_task 1), E_push_back (sample_task 2), E_fetch 0,
      E_complete 0 False, E_fetch 0, E_push_back (sample_task 3)] (threadpool_new 1) = Some tp \<and>
    map fst (finished tp) @ running tp @ tasks tp = [sample_task 1, sample_task 2, sample_task 3]"
proof -
  define es where "es = [E_push_back (sample_task 1), E_push_back (sample_task 2), E_fetch 0,
      E_complete 0 False, E_fetch 0, E_push_back (sample_task 3)]"
  define tp where "tp = the (run_events fifo_perform es (threadpool_new 1))"
  have run: "run_events fifo_perform es (threadpool_new 1) = Some tp"
    and acc: "accepted tp = [sample_task 1, sample_task 2, sample_task 3]"
    by (simp_all add: tp_def es_def fifo_perform_def fifo_event_def pool_eval)
  show ?thesis using run single_worker_fifo [OF run] acc unfolding es_def by auto
qed

lemma take_by_id_first:
  "i \<notin> task_id ` set pre \<Longrightarrow> task_id t = i \<Longrightarrow> take_by_id i (pre @ t # post) = Some (t, pre @ post)"
  by (induction pre) auto

lemma raise_task_unknown: "i \<notin> task_id ` set (tasks tp) \<Longrightarrow> raise_task i tp = tp"
  using take_by_id_None [of i "tasks tp"] by (simp add: raise_task_def)

text \<open>
  \<open>raise_task\<close> moves the first task with the id, when it has an action, to the front of the queue and
  leaves the order of all others alone. A task without an action is not put back, unless it is at the
  front already.
\<close>

theorem raise_task_spec:
  assumes "tasks tp = pre @ t # post" and "task_id t = i" and "i \<notin> task_id ` set pre" and "i \<noteq> -1"
  shows "raise_task i tp = tp\<lparr>tasks := (if has_action t \<or> pre = [] then t # pre @ post else pre @ post)\<rparr>"
  using assms take_by_id_first [of i pre t post] by (cases pre) (auto simp: raise_task_def)

theorem raise_task_spec_witness:
  "\<exists>tp. tasks tp = [sample_task 1, sample_task 2, sample_task 3] \<and>
    tasks (raise_task 2 tp) = [sample_task 2, sample_task 1, sample_task 3]"
proof -
  define tp where "tp = (threadpool_new 1)\<lparr>tasks := [sample_task 1, sample_task 2, sample_task 3]\<rparr>"
  have "raise_task 2 tp = tp\<lparr>tasks := [sample_task 2, sample_task 1, sample_task 3]\<rparr>"
    using raise_task_spec [of tp "[sample_task 1]" "sample_task 2" "[sample_task 3]" 2]
    by (simp add: tp_def sample_task_def has_action_def)
  then show ?thesis by (intro exI [of _ tp]) (simp add: tp_def)
qed

subsection \<open>A shutdown that hangs\<close>

text \<open>The stop is set, all have been notified, and the only worker is waiting with nothing to wake it.\<close>

definition hung :: "threadpool \<Rightarrow> bool" where
  "hung tp \<longleftrightarrow> stop tp \<and> lifetime tp = Notified \<and> workers tp = [W_waiting] \<and> tasks tp = [] \<and> to_notify tp = 0"

definition no_spurious :: "event \<Rightarrow> threadpool \<Rightarrow> threadpool option" where
  "no_spurious e tp = (case e of E_spurious i \<Rightarrow> None | _ \<Rightarrow> perform e tp)"

lemma hung_event: "hung tp \<Longrightarrow> no_spurious e tp = Some tp' \<Longrightarrow> hung tp'"
  by (cases "(e, tp)" rule: perform.cases)
    (auto simp: hung_def no_spurious_def push_back_def push_front_def raise_task_def split: if_splits worker.splits)

interpretation hang: machine_invariant no_spurious hung
  by unfold_locales (rule hung_event)

text \<open>
  C30: The destructor can wait for ever. It sets \<open>stop_\<close> without the mutex of the queue: a worker that has
  just found the queue empty and the flag clear, and still holds the mutex, then goes to wait after the
  notification to all. From that state on, unless the implementation of the condition variable wakes the
  worker for no reason, no event changes the worker, and the join is never possible.
\<close>

theorem destructor_can_hang:
  "\<exists>tp. pool_run [E_fetch 0, E_set_stop, E_notify_all, E_wait 0] (threadpool_new 1) = Some tp \<and>
    (\<nexists>es tp'. run_events no_spurious es tp = Some tp' \<and> lifetime tp' = Joined)"
proof -
  define es where "es = [E_fetch 0, E_set_stop, E_notify_all, E_wait 0]"
  define tp where "tp = the (pool_run es (threadpool_new 1))"
  have run: "pool_run es (threadpool_new 1) = Some tp" and hung: "hung tp"
    by (simp_all add: tp_def es_def hung_def pool_eval)
  have "lifetime tp' \<noteq> Joined" if "run_events no_spurious fs tp = Some tp'" for fs tp'
    using hang.inv_run [OF hung that] by (simp add: hung_def)
  then show ?thesis using run unfolding es_def by blast
qed

end
