(* ===== verification/Scheduler.thy ===== *)
theory Scheduler
  imports Event_Machine "HOL-Library.Word" "HOL-Library.Multiset"
begin

text \<open>
  The timers of the core (\<open>core/scheduler.h\<close>, \<open>scheduler.cpp\<close>) as a machine of events, the sections under
  the mutex being one event each, and what the clients of the timers rely on.

  Times are the readings of \<open>steady_clock\<close>, an integer in its ticks, and do not go back. The function of a
  timer is a number, and \<open>posts\<close> is what \<open>g_core->execute_core_context\<close> was called with: the timer as it
  was when it was found due, and the time. \<open>timers_given\<close> counts the calls of \<open>get_id\<close>, whose static
  counter is 32 bits wide and shared by all schedulers of the process.
\<close>

record timer_task =
  last_execute_time :: int
  timer_id :: "32 word"
  timeout :: int
  function_of :: nat
  single_shot :: bool

record scheduler =
  timed_tasks :: "timer_task list"
  being_pushed :: "timer_task list"
  last_id :: "32 word"
  timers_given :: nat
  is_stop :: bool
  thread_alive :: bool
  clock :: int
  posts :: "(timer_task \<times> int) list"

definition scheduler_new :: "int \<Rightarrow> scheduler" where
  "scheduler_new t0 = \<lparr>timed_tasks = [], being_pushed = [], last_id = 0, timers_given = 0, is_stop = False,
     thread_alive = True, clock = t0, posts = []\<rparr>"

text \<open>\<open>push_timer\<close> takes the next id and makes the timer, then moves it to the end of the list.\<close>

definition get_id :: "scheduler \<Rightarrow> 32 word \<times> scheduler" where
  "get_id s = (last_id s + 1, s\<lparr>last_id := last_id s + 1, timers_given := Suc (timers_given s)\<rparr>)"

definition make_timer :: "nat \<Rightarrow> int \<Rightarrow> bool \<Rightarrow> int \<Rightarrow> scheduler \<Rightarrow> scheduler" where
  "make_timer f tm single now s =
    (case get_id s of (i, s') \<Rightarrow>
       s'\<lparr>being_pushed := being_pushed s' @
            [\<lparr>last_execute_time = now, timer_id = i, timeout = tm, function_of = f, single_shot = single\<rparr>]\<rparr>)"

definition splice_timer :: "nat \<Rightarrow> scheduler \<Rightarrow> scheduler" where
  "splice_timer k s =
    s\<lparr>timed_tasks := timed_tasks s @ [being_pushed s ! k],
      being_pushed := take k (being_pushed s) @ drop (Suc k) (being_pushed s)\<rparr>"

fun remove_timer :: "32 word \<Rightarrow> timer_task list \<Rightarrow> timer_task list" where
  "remove_timer i [] = []"
| "remove_timer i (t # ts) = (if timer_id t = i then ts else t # remove_timer i ts)"

definition stop_timer :: "32 word \<Rightarrow> scheduler \<Rightarrow> scheduler" where
  "stop_timer i s = s\<lparr>timed_tasks := remove_timer i (timed_tasks s)\<rparr>"

text \<open>
  The loop of a tick: the timers posted, the list that is left and the list of the single shot timers
  spliced out of it.
\<close>

fun tick_loop :: "int \<Rightarrow> timer_task list \<Rightarrow> (timer_task \<times> int) list \<Rightarrow> timer_task list \<Rightarrow>
    (timer_task \<times> int) list \<times> timer_task list \<times> timer_task list" where
  "tick_loop now [] out tmp = (out, [], tmp)"
| "tick_loop now (t # ts) out tmp =
    (if now - last_execute_time t \<ge> timeout t then
       (let t' = t\<lparr>last_execute_time := now\<rparr>; out' = out @ [(t, now)] in
        if single_shot t then tick_loop now ts out' (t' # tmp)
        else case tick_loop now ts out' tmp of (o', l, tm) \<Rightarrow> (o', t' # l, tm))
     else case tick_loop now ts out tmp of (o', l, tm) \<Rightarrow> (o', t # l, tm))"

text \<open>One round of the thread: \<open>timed_out\<close> tells what \<open>wait_for\<close> returned.\<close>

definition thread_round :: "bool \<Rightarrow> int \<Rightarrow> scheduler \<Rightarrow> scheduler" where
  "thread_round timed_out now s =
    (if is_stop s then s\<lparr>thread_alive := False\<rparr>
     else if timed_out then
       (case tick_loop now (timed_tasks s) [] [] of
          (out, l, _) \<Rightarrow> s\<lparr>timed_tasks := l, posts := posts s @ out\<rparr>)
     else s)"

datatype timer_event =
  T_make nat int bool int | T_splice nat | T_stop_timer "32 word" | T_round bool int | T_destroy

fun timer_step :: "timer_event \<Rightarrow> scheduler \<Rightarrow> scheduler option" where
  "timer_step (T_make f tm single now) s =
    (if clock s \<le> now then Some (make_timer f tm single now (s\<lparr>clock := now\<rparr>)) else None)"
| "timer_step (T_splice k) s = (if k < length (being_pushed s) then Some (splice_timer k s) else None)"
| "timer_step (T_stop_timer i) s = Some (stop_timer i s)"
| "timer_step (T_round timed_out now) s =
    (if thread_alive s \<and> clock s \<le> now then Some (thread_round timed_out now (s\<lparr>clock := now\<rparr>)) else None)"
| "timer_step T_destroy s = (if is_stop s then None else Some (s\<lparr>is_stop := True\<rparr>))"

abbreviation timers_reachable :: "int \<Rightarrow> scheduler \<Rightarrow> bool" where
  "timers_reachable t0 \<equiv> reachable timer_step (scheduler_new t0)"

subsection \<open>What a tick does\<close>

definition is_due :: "int \<Rightarrow> timer_task \<Rightarrow> bool" where
  "is_due now t = (timeout t \<le> now - last_execute_time t)"

definition renew :: "int \<Rightarrow> timer_task \<Rightarrow> timer_task" where
  "renew now t = (if is_due now t then t\<lparr>last_execute_time := now\<rparr> else t)"

lemma tick_loop_spec:
  "tick_loop now ts out tmp =
    (out @ map (\<lambda>t. (t, now)) (filter (is_due now) ts),
     map (renew now) (filter (\<lambda>t. \<not> (is_due now t \<and> single_shot t)) ts),
     rev (map (renew now) (filter (\<lambda>t. is_due now t \<and> single_shot t) ts)) @ tmp)"
proof (induction ts arbitrary: out tmp)
  case (Cons t ts)
  show ?case
    by (simp add: Cons.IH Let_def is_due_def [of now t] renew_def [of now t] split: prod.splits)
qed simp

lemma thread_round_tick:
  "\<not> is_stop s \<Longrightarrow> thread_round True now s =
    s\<lparr>timed_tasks := map (renew now) (filter (\<lambda>t. \<not> (is_due now t \<and> single_shot t)) (timed_tasks s)),
      posts := posts s @ map (\<lambda>t. (t, now)) (filter (is_due now) (timed_tasks s))\<rparr>"
  by (simp add: thread_round_def tick_loop_spec)

subsection \<open>The invariant\<close>

definition timers :: "scheduler \<Rightarrow> timer_task list" where
  "timers s = timed_tasks s @ being_pushed s"

definition follows :: "timer_task \<times> int \<Rightarrow> timer_task \<times> int \<Rightarrow> bool" where
  "follows p q = (timer_id (fst p) = timer_id (fst q) \<longrightarrow>
     \<not> single_shot (fst p) \<and> timeout (fst p) \<le> snd q - snd p)"

definition bears :: "(timer_task \<times> int) list \<Rightarrow> timer_task \<Rightarrow> bool" where
  "bears ps t = (\<forall>p \<in> set ps. timer_id (fst p) = timer_id t \<longrightarrow>
     \<not> single_shot (fst p) \<and> timeout (fst p) = timeout t \<and> snd p \<le> last_execute_time t)"

definition timers_ok :: "scheduler \<Rightarrow> bool" where
  "timers_ok s \<longleftrightarrow>
     distinct (map timer_id (timers s)) \<and>
     (\<forall>t \<in> set (timers s). unat (timer_id t) \<le> timers_given s \<and> bears (posts s) t) \<and>
     (\<forall>p \<in> set (posts s). unat (timer_id (fst p)) \<le> timers_given s \<and> snd p \<le> clock s) \<and>
     sorted_wrt follows (posts s)"

definition timers_inv :: "scheduler \<Rightarrow> bool" where
  "timers_inv s \<longleftrightarrow> last_id s = of_nat (timers_given s) \<and> (timers_given s < 2 ^ 32 \<longrightarrow> timers_ok s)"

lemma renew_simps [simp]:
  "timer_id (renew now t) = timer_id t" "timeout (renew now t) = timeout t"
  "single_shot (renew now t) = single_shot t" "function_of (renew now t) = function_of t"
  by (simp_all add: renew_def)

lemma timers_inv_new: "timers_inv (scheduler_new t0)"
  by (simp add: timers_inv_def timers_ok_def timers_def scheduler_new_def)

lemma remove_timer_filter: "distinct (map timer_id ts) \<Longrightarrow> remove_timer i ts = filter (\<lambda>t. timer_id t \<noteq> i) ts"
proof (induction ts)
  case (Cons t ts)
  then show ?case by (cases "timer_id t = i") (auto intro!: filter_True [symmetric] simp: image_iff)
qed simp

lemma set_remove_timer: "set (remove_timer i ts) \<subseteq> set ts"
  by (induction ts) auto

lemma timers_ok_less:
  assumes "timers_ok s" and "distinct (map timer_id (timers s'))" and "set (timers s') \<subseteq> set (timers s)"
    and "timers_given s' = timers_given s" and "posts s' = posts s" and "clock s \<le> clock s'"
  shows "timers_ok s'"
  using assms unfolding timers_ok_def by (force simp: subset_iff)

lemma mset_splice: "k < length xs \<Longrightarrow> add_mset (xs ! k) (mset (take k xs @ drop (Suc k) xs)) = mset xs"
  by (metis id_take_nth_drop mset.simps(2) mset_append union_mset_add_mset_right)

lemma splice_ok:
  assumes "timers_ok s" and "k < length (being_pushed s)"
  shows "timers_ok (splice_timer k s)"
proof -
  have same: "mset (timers (splice_timer k s)) = mset (timers s)"
    using mset_splice [OF assms(2)] by (simp add: timers_def splice_timer_def)
  then have "mset (map timer_id (timers (splice_timer k s))) = mset (map timer_id (timers s))" by simp
  then have "distinct (map timer_id (timers (splice_timer k s)))"
    using mset_eq_imp_distinct_iff assms(1) unfolding timers_ok_def by blast
  moreover have "set (timers (splice_timer k s)) = set (timers s)" using mset_eq_setD [OF same] .
  ultimately show ?thesis by (intro timers_ok_less [OF assms(1)]) (simp_all add: splice_timer_def)
qed

lemma stop_ok:
  assumes "timers_ok s"
  shows "timers_ok (stop_timer i s)"
proof (rule timers_ok_less [OF assms])
  have "distinct (map timer_id (timed_tasks s))" using assms by (auto simp: timers_ok_def timers_def)
  then show "distinct (map timer_id (timers (stop_timer i s)))"
    using assms by (auto simp: timers_ok_def timers_def stop_timer_def remove_timer_filter distinct_map_filter)
  show "set (timers (stop_timer i s)) \<subseteq> set (timers s)"
    using set_remove_timer [of i "timed_tasks s"] by (auto simp: timers_def stop_timer_def)
qed (simp_all add: stop_timer_def)

lemma make_ok:
  assumes inv: "timers_inv s" and room: "Suc (timers_given s) < 2 ^ 32"
  shows "timers_ok (make_timer f tm single now s)"
proof -
  have ok: "timers_ok s" and last: "last_id s = of_nat (timers_given s)" using inv room by (auto simp: timers_inv_def)
  have "last_id s + 1 = of_nat (Suc (timers_given s))" using last by simp
  then have i: "unat (last_id s + 1) = Suc (timers_given s)"
    using room by (simp only: unat_of_nat) simp
  have fresh: "timer_id t \<noteq> last_id s + 1" if "unat (timer_id t) \<le> timers_given s" for t
    using that i by (cases "timer_id t = last_id s + 1") simp_all
  then have "\<forall>p \<in> set (posts s). timer_id (fst p) \<noteq> last_id s + 1" using ok by (auto simp: timers_ok_def)
  then have new: "bears (posts s) t" if "timer_id t = last_id s + 1" for t
    using that by (auto simp: bears_def)
  let ?t = "\<lparr>last_execute_time = now, timer_id = last_id s + 1, timeout = tm, function_of = f, single_shot = single\<rparr>"
  let ?s = "make_timer f tm single now s"
  have s': "timers ?s = timers s @ [?t]" "posts ?s = posts s" "timers_given ?s = Suc (timers_given s)" "clock ?s = clock s"
    by (simp_all add: make_timer_def get_id_def timers_def)
  have "timer_id t \<noteq> last_id s + 1" if "t \<in> set (timers s)" for t using ok that fresh by (auto simp: timers_ok_def)
  then have "last_id s + 1 \<notin> timer_id ` set (timers s)" by (metis imageE)
  then have "distinct (map timer_id (timers ?s))" using ok by (simp add: s' timers_ok_def)
  moreover have "unat (timer_id t) \<le> Suc (timers_given s) \<and> bears (posts s) t" if "t \<in> set (timers s @ [?t])" for t
    using that ok new i by (auto simp: timers_ok_def)
  ultimately show ?thesis using ok unfolding timers_ok_def s' by auto
qed

lemma distinct_sorted_wrt: "distinct (map f xs) \<Longrightarrow> sorted_wrt (\<lambda>x y. f x = f y \<longrightarrow> P x y) xs"
  by (induction xs) (auto simp: image_iff)

lemma tick_ok:
  assumes ok: "timers_ok s" and now: "clock s = now" and going: "\<not> is_stop s"
  shows "timers_ok (thread_round True now s)"
proof -
  let ?keep = "\<lambda>t. \<not> (is_due now t \<and> single_shot t)"
  let ?new = "map (\<lambda>t. (t, now)) (filter (is_due now) (timed_tasks s))"
  let ?s = "thread_round True now s"
  have s': "timed_tasks ?s = map (renew now) (filter ?keep (timed_tasks s))" "being_pushed ?s = being_pushed s"
      "posts ?s = posts s @ ?new" "timers_given ?s = timers_given s" "clock ?s = now"
    using now by (simp_all add: thread_round_tick [OF going])
  have ids: "distinct (map timer_id (timed_tasks s))" "distinct (map timer_id (timers s))"
    using ok by (auto simp: timers_ok_def timers_def)
  then have dist: "distinct (map timer_id (timers ?s))"
    using s' by (auto simp: timers_def distinct_map_filter comp_def)
  have known: "bears (posts s) t" "unat (timer_id t) \<le> timers_given s" if "t \<in> set (timed_tasks s)" for t
    using ok that by (auto simp: timers_ok_def timers_def)
  have past: "snd p \<le> now" if "p \<in> set (posts s)" for p
    using ok that now by (auto simp: timers_ok_def)
  have same: "t = u" if "t \<in> set (timed_tasks s)" "u \<in> set (timed_tasks s)" "timer_id t = timer_id u" for t u
    using ids(1) that by (auto simp: distinct_map dest: inj_onD)
  have listed: "bears (posts ?s) (renew now t)" if t: "t \<in> set (timed_tasks s)" "?keep t" for t
    unfolding bears_def s'(3)
  proof (intro ballI impI)
    fix p assume p: "p \<in> set (posts s @ ?new)" "timer_id (fst p) = timer_id (renew now t)"
    show "\<not> single_shot (fst p) \<and> timeout (fst p) = timeout (renew now t) \<and> snd p \<le> last_execute_time (renew now t)"
    proof (cases "p \<in> set (posts s)")
      case True
      then show ?thesis using known(1) [OF t(1)] past [OF True] p(2) by (auto simp: bears_def renew_def)
    next
      case False
      then obtain u where u: "p = (u, now)" "u \<in> set (timed_tasks s)" "is_due now u" using p(1) by auto
      then have "u = t" using same [OF u(2) t(1)] p(2) by simp
      then show ?thesis using u t(2) by (simp add: renew_def)
    qed
  qed
  have pending: "bears (posts ?s) t" if t: "t \<in> set (being_pushed s)" for t
  proof -
    have "timer_id u \<noteq> timer_id t" if "u \<in> set (timed_tasks s)" for u
      using ids(2) t that by (auto simp: timers_def)
    then show ?thesis using ok t unfolding s'(3) bears_def timers_ok_def timers_def by fastforce
  qed
  have "distinct (map timer_id (filter (is_due now) (timed_tasks s)))"
    using ids(1) by (simp add: distinct_map_filter)
  then have "sorted_wrt follows ?new"
    using distinct_sorted_wrt [of timer_id "filter (is_due now) (timed_tasks s)"
        "\<lambda>t u. \<not> single_shot t \<and> timeout t \<le> 0"]
    by (simp add: sorted_wrt_map follows_def)
  moreover have "follows p (t, now)" if "p \<in> set (posts s)" "t \<in> set (timed_tasks s)" "is_due now t" for p t
    using known(1) [OF that(2)] that by (force simp: bears_def follows_def is_due_def)
  ultimately have "sorted_wrt follows (posts ?s)"
    using ok unfolding s'(3) timers_ok_def by (auto simp: sorted_wrt_append)
  with dist listed pending known past ok show ?thesis
    unfolding timers_ok_def timers_def s' by auto
qed

lemma make_timer_sel [simp]:
  "timers_given (make_timer f tm single now s) = Suc (timers_given s)"
  "last_id (make_timer f tm single now s) = last_id s + 1"
  by (simp_all add: make_timer_def get_id_def)

lemma timers_inv_clock: "timers_inv s \<Longrightarrow> clock s \<le> now \<Longrightarrow> timers_inv (s\<lparr>clock := now\<rparr>)"
  unfolding timers_inv_def timers_ok_def timers_def by fastforce

lemma timers_inv_round:
  assumes "timers_inv s" and "clock s = now"
  shows "timers_inv (thread_round timed_out now s)"
proof -
  have "timers_inv s \<Longrightarrow> timers_inv (s\<lparr>thread_alive := False\<rparr>)"
    by (simp add: timers_inv_def timers_ok_def timers_def)
  moreover have "\<not> is_stop s \<Longrightarrow> timers_given (thread_round True now s) = timers_given s \<and>
      last_id (thread_round True now s) = last_id s"
    by (simp add: thread_round_tick)
  ultimately show ?thesis
    using assms tick_ok [of s now] by (cases "is_stop s"; cases timed_out) (auto simp: timers_inv_def thread_round_def)
qed

lemma timers_inv_step:
  assumes inv: "timers_inv s" and run: "timer_step e s = Some s'"
  shows "timers_inv s'"
proof (cases e)
  case (T_make f tm single now)
  then have s': "s' = make_timer f tm single now (s\<lparr>clock := now\<rparr>)" "timers_inv (s\<lparr>clock := now\<rparr>)"
    using inv run timers_inv_clock by (auto split: if_splits)
  then show ?thesis
    using make_ok [OF s'(2), of f tm single now] by (auto simp: timers_inv_def)
next
  case (T_splice k)
  then show ?thesis using inv run splice_ok [of s k] by (auto simp: timers_inv_def splice_timer_def split: if_splits)
next
  case (T_stop_timer i)
  then show ?thesis using inv run stop_ok [of s i] by (auto simp: timers_inv_def stop_timer_def)
next
  case (T_round timed_out now)
  then have "s' = thread_round timed_out now (s\<lparr>clock := now\<rparr>)" "clock s \<le> now" using run by (auto split: if_splits)
  then show ?thesis using timers_inv_round [OF timers_inv_clock [OF inv]] by simp
next
  case T_destroy
  then have "s' = s\<lparr>is_stop := True\<rparr>" using run by (auto split: if_splits)
  then show ?thesis using inv by (simp add: timers_inv_def timers_ok_def timers_def)
qed

interpretation sched: machine_invariant timer_step timers_inv
  by unfold_locales (rule timers_inv_step)

lemma timers_reachable_inv: "timers_reachable t0 s \<Longrightarrow> timers_inv s"
  using sched.inv_reachable [OF _ timers_inv_new] .

subsection \<open>A timer that was stopped\<close>

definition gone :: "32 word \<Rightarrow> (timer_task \<times> int) list \<Rightarrow> scheduler \<Rightarrow> bool" where
  "gone i ps s \<longleftrightarrow> timers_inv s \<and> (timers_given s < 2 ^ 32 \<longrightarrow>
     i \<notin> timer_id ` set (timers s) \<and> unat i \<le> timers_given s \<and>
     filter (\<lambda>p. timer_id (fst p) = i) (posts s) = ps)"

lemma gone_step:
  assumes g: "gone i ps s" and run: "timer_step e s = Some s'"
  shows "gone i ps s'"
proof -
  have inv: "timers_inv s'" using g run timers_inv_step unfolding gone_def by blast
  have less: "i \<notin> timer_id ` set (timers s')"
    if "timers_given s' = timers_given s" "timers_given s < 2 ^ 32" "timer_id ` set (timers s') \<subseteq> timer_id ` set (timers s)"
    using that g by (auto simp: gone_def)
  show ?thesis
  proof (cases e)
    case (T_make f tm single now)
    then have s': "s' = make_timer f tm single now (s\<lparr>clock := now\<rparr>)" using run by (auto split: if_splits)
    have "i \<noteq> last_id s + 1" if room: "Suc (timers_given s) < 2 ^ 32"
    proof -
      have "last_id s + 1 = of_nat (Suc (timers_given s))" using g by (simp add: gone_def timers_inv_def)
      then have "unat (last_id s + 1) = Suc (timers_given s)" using room by (simp only: unat_of_nat) simp
      then show ?thesis using g room by (auto simp: gone_def)
    qed
    then show ?thesis using g inv unfolding s' by (auto simp: gone_def make_timer_def get_id_def timers_def)
  next
    case (T_splice k)
    then have s': "s' = splice_timer k s" "k < length (being_pushed s)" using run by (auto split: if_splits)
    have "mset (timers s') = mset (timers s)"
      using mset_splice [OF s'(2)] by (simp add: timers_def splice_timer_def s'(1))
    then have "set (timers s') = set (timers s)" by (rule mset_eq_setD)
    then show ?thesis using g inv s' by (auto simp: gone_def splice_timer_def)
  next
    case (T_stop_timer j)
    then have s': "s' = stop_timer j s" using run by simp
    have "timer_id ` set (timers s') \<subseteq> timer_id ` set (timers s)"
      using set_remove_timer [of j "timed_tasks s"] by (auto simp: timers_def stop_timer_def s')
    then show ?thesis using g inv less s' by (auto simp: gone_def stop_timer_def)
  next
    case (T_round timed_out now)
    then have s': "s' = thread_round timed_out now (s\<lparr>clock := now\<rparr>)" using run by (auto split: if_splits)
    have none: "filter (\<lambda>t. timer_id t = i) (filter (is_due now) (timed_tasks s)) = []" if "timers_given s < 2 ^ 32"
      using g that by (auto simp: gone_def timers_def filter_empty_conv)
    show ?thesis
    proof (cases "is_stop s \<or> \<not> timed_out")
      case True
      then show ?thesis using g inv unfolding s' by (auto simp: gone_def thread_round_def timers_def)
    next
      case False
      have "timer_id ` set (timers s') \<subseteq> timer_id ` set (timers s)"
        using False by (auto simp: s' thread_round_tick timers_def)
      then show ?thesis using False g inv less none
        by (auto simp: gone_def s' thread_round_tick filter_map comp_def)
    qed
  next
    case T_destroy
    then show ?thesis using g inv run by (auto simp: gone_def timers_def split: if_splits)
  qed
qed

interpretation stopped: machine_invariant timer_step "gone i ps" for i ps
  by unfold_locales (rule gone_step)

subsection \<open>What the clients rely on\<close>

text \<open>
  C26: Fewer than $2^{32}$ timers having been made, however pushes, stops and ticks interleave: a single
  shot timer is posted to the core at most once, and two posts of the same timer are at least its timeout
  apart.
\<close>

theorem timer_posts_spaced:
  assumes "timers_reachable t0 s" and "timers_given s < 2 ^ 32" and "j < k" and "k < length (posts s)"
    and "timer_id (fst (posts s ! j)) = timer_id (fst (posts s ! k))"
  shows "\<not> single_shot (fst (posts s ! j)) \<and> timeout (fst (posts s ! j)) \<le> snd (posts s ! k) - snd (posts s ! j)"
proof -
  have "sorted_wrt follows (posts s)"
    using timers_reachable_inv [OF assms(1)] assms(2) by (simp add: timers_inv_def timers_ok_def)
  then have "follows (posts s ! j) (posts s ! k)" using assms(3,4) by (rule sorted_wrt_nth_less)
  then show ?thesis using assms(5) by (simp add: follows_def)
qed

definition timer_events :: "timer_event list" where
  "timer_events = [T_make 7 300 False 0, T_make 8 200 True 0, T_splice 1, T_splice 0, T_round True 100,
     T_round True 250, T_round True 350, T_round False 400, T_round True 700]"

lemmas timer_eval = scheduler_new_def make_timer_def get_id_def splice_timer_def stop_timer_def thread_round_def

lemma timer_events_run:
  "\<exists>s. run_events timer_step timer_events (scheduler_new 0) = Some s \<and> timers_given s = 2 \<and>
    length (posts s) = 3 \<and> timer_id (fst (posts s ! 1)) = 1 \<and> timer_id (fst (posts s ! 2)) = 1 \<and>
    timeout (fst (posts s ! 1)) = 300"
  by (simp add: timer_events_def timer_eval)

theorem timer_posts_spaced_witness:
  "\<exists>s. run_events timer_step timer_events (scheduler_new 0) = Some s \<and> 300 \<le> snd (posts s ! 2) - snd (posts s ! 1)"
proof -
  obtain s where s: "run_events timer_step timer_events (scheduler_new 0) = Some s" "timers_given s = 2"
      "length (posts s) = 3" "timer_id (fst (posts s ! 1)) = 1" "timer_id (fst (posts s ! 2)) = 1"
      "timeout (fst (posts s ! 1)) = 300"
    using timer_events_run by blast
  then have reach: "timers_reachable 0 s" by (auto simp: reachable_run_events)
  have "300 \<le> snd (posts s ! 2) - snd (posts s ! 1)"
    using timer_posts_spaced [OF reach, of 1 2] s(2-6) by simp
  then show ?thesis using s(1) by blast
qed

text \<open>
  C31: A tick posts exactly the timers that are due, in the order of the list, and afterwards the list holds
  the others unchanged and the periodic ones that were due with the time of the tick: no timer is skipped
  because another one was removed from the list under the loop.
\<close>

theorem tick_posts_due:
  assumes "\<not> is_stop s"
  shows "posts (thread_round True now s) =
      posts s @ map (\<lambda>t. (t, now)) (filter (\<lambda>t. timeout t \<le> now - last_execute_time t) (timed_tasks s))
    \<and> timed_tasks (thread_round True now s) =
      map (\<lambda>t. if timeout t \<le> now - last_execute_time t then t\<lparr>last_execute_time := now\<rparr> else t)
        (filter (\<lambda>t. \<not> (timeout t \<le> now - last_execute_time t \<and> single_shot t)) (timed_tasks s))"
  using thread_round_tick [OF assms, of now] by (simp add: renew_def [abs_def] is_due_def [abs_def])

theorem tick_posts_due_witness:
  "\<exists>s. timer_step (T_splice 0) (make_timer 7 300 True 0 (scheduler_new 0)) = Some s \<and>
    timed_tasks (thread_round True 300 s) = [] \<and> length (posts (thread_round True 300 s)) = 1"
proof -
  define s where "s = splice_timer 0 (make_timer 7 300 True 0 (scheduler_new 0))"
  have "\<not> is_stop s" by (simp add: s_def timer_eval)
  from tick_posts_due [OF this, of 300] show ?thesis
    by (intro exI [of _ s]) (simp add: s_def timer_eval)
qed

text \<open>
  C29: After \<open>stop_timer\<close> has found a timer in the list, nothing is posted for it any more, whatever
  happens later, as long as the ids have not wrapped around.
\<close>

theorem stopped_timer_silent:
  assumes "timers_reachable t0 s" and "t \<in> set (timed_tasks s)"
    and "run_events timer_step es (stop_timer (timer_id t) s) = Some s'" and "timers_given s' < 2 ^ 32"
    and "timers_given s < 2 ^ 32"
  shows "filter (\<lambda>p. timer_id (fst p) = timer_id t) (posts s') = filter (\<lambda>p. timer_id (fst p) = timer_id t) (posts s)"
proof -
  let ?i = "timer_id t"
  have inv: "timers_inv s" using timers_reachable_inv [OF assms(1)] .
  have ok: "timers_ok s" using inv assms(5) by (simp add: timers_inv_def)
  then have dist: "distinct (map timer_id (timed_tasks s))" "distinct (map timer_id (timers s))"
    by (auto simp: timers_ok_def timers_def)
  have "?i \<notin> timer_id ` set (being_pushed s)" using dist(2) assms(2) by (auto simp: timers_def)
  then have "?i \<notin> timer_id ` set (timers (stop_timer ?i s))"
    by (auto simp: timers_def stop_timer_def remove_timer_filter [OF dist(1)])
  moreover have "timers_inv (stop_timer ?i s)" using timers_inv_step [OF inv, of "T_stop_timer ?i"] by simp
  moreover have "unat ?i \<le> timers_given s" using ok assms(2) by (auto simp: timers_ok_def timers_def)
  ultimately have "gone ?i (filter (\<lambda>p. timer_id (fst p) = ?i) (posts s)) (stop_timer ?i s)"
    by (simp add: gone_def stop_timer_def)
  from stopped.inv_run [OF this assms(3)] show ?thesis using assms(4) by (simp add: gone_def)
qed

theorem stopped_timer_silent_witness:
  "\<exists>s s'. run_events timer_step timer_events (scheduler_new 0) = Some s \<and>
    run_events timer_step [T_round True 9000] (stop_timer 1 s) = Some s' \<and>
    length (filter (\<lambda>p. timer_id (fst p) = 1) (posts s')) = 2"
proof -
  define s where "s = the (run_events timer_step timer_events (scheduler_new 0))"
  define s' where "s' = the (run_events timer_step [T_round True 9000] (stop_timer 1 s))"
  have run: "run_events timer_step timer_events (scheduler_new 0) = Some s"
      "run_events timer_step [T_round True 9000] (stop_timer 1 s) = Some s'"
    and s: "timed_tasks s = [\<lparr>last_execute_time = 700, timer_id = 1, timeout = 300, function_of = 7, single_shot = False\<rparr>]"
      "timers_given s = 2" "timers_given s' = 2" "length (filter (\<lambda>p. timer_id (fst p) = 1) (posts s)) = 2"
    by (simp_all add: s'_def s_def timer_events_def timer_eval)
  have "timers_reachable 0 s" using run(1) by (auto simp: reachable_run_events)
  then have "filter (\<lambda>p. timer_id (fst p) = 1) (posts s') = filter (\<lambda>p. timer_id (fst p) = 1) (posts s)"
    using stopped_timer_silent [of 0 s "hd (timed_tasks s)" "[T_round True 9000]" s'] run(2) s by simp
  then show ?thesis using run s(4) by auto
qed

text \<open>The counter of the ids is 32 bits wide: the first id is 1, and after $2^{32}$ timers the id 0 is given.\<close>

lemma id_wraps: "timers_inv s \<Longrightarrow> timers_given s = 2 ^ 32 - 1 \<Longrightarrow> fst (get_id s) = 0"
  by (simp add: timers_inv_def get_id_def)

end
