(* ===== verification/Strings.thy ===== *)
theory Strings
  imports Url_Types "HOL-Library.Sublist"
begin

text \<open>
  The string helpers of the core (\<open>core/tools/strings.cpp\<close>): the classes of addresses, the words of a
  text, and the search of a pattern whose symbols can be spelled in several ways.

  A position of \<open>std::string\<close> is a natural number, and \<open>npos\<close> is \<open>None\<close>.
\<close>

subsection \<open>Addresses\<close>

definition is_phone :: "cstring \<Rightarrow> bool" where
  "is_phone v = (v \<noteq> [] \<and> list_all ascii_digit (if hd v = CHR ''+'' then tl v else v))"

definition is_number :: "cstring \<Rightarrow> bool" where
  "is_number v = list_all ascii_digit v"

definition is_uin :: "cstring \<Rightarrow> bool" where
  "is_uin v = is_number v"

definition is_email_sym :: "byte \<Rightarrow> bool" where
  "is_email_sym c = (ascii_upper c \<or> ascii_lower c \<or> ascii_digit c \<or> c = CHR ''_'' \<or> c = CHR ''.'' \<or> c = CHR ''-'')"

text \<open>The loop of \<open>is_email\<close>; \<open>None\<close> when it returns false from inside.\<close>

fun email_loop :: "cstring \<Rightarrow> bool \<Rightarrow> int \<Rightarrow> int \<Rightarrow> int \<Rightarrow> (bool \<times> int \<times> int \<times> int) option" where
  "email_loop [] alpha name dm dots = Some (alpha, name, dm, dots)"
| "email_loop (c # cs) alpha name dm dots =
    (if c = CHR 0x40 then (if alpha then None else email_loop cs True name dm dots)
     else if \<not> is_email_sym c then None
     else if \<not> alpha then email_loop cs alpha (name + 1) dm dots
     else email_loop cs alpha name (dm + 1) (if c = CHR ''.'' then dots + 1 else dots))"

definition is_email :: "cstring \<Rightarrow> bool" where
  "is_email v = (case email_loop v False 0 0 0 of
     None \<Rightarrow> False
   | Some (alpha, name, dm, dots) \<Rightarrow> alpha \<and> 0 < name \<and> 0 < dm - dots \<and> 0 < dots)"

lemma at_not_sym [simp]: "\<not> is_email_sym (CHR 0x40)"
  by (simp add: is_email_sym_def ascii_upper_def ascii_lower_def ascii_digit_def)

lemma email_loop_domain:
  "email_loop cs True n d k =
    (if list_all is_email_sym cs
     then Some (True, n, d + int (length cs), k + int (length (filter (\<lambda>c. c = CHR ''.'') cs))) else None)"
proof (induction cs arbitrary: d k)
  case (Cons c cs)
  then show ?case by (cases "c = CHR 0x40") (simp_all add: add.assoc)
qed simp

lemma email_loop_name:
  "list_all is_email_sym cs \<Longrightarrow> email_loop (cs @ CHR 0x40 # ds) False n d k = email_loop ds True (n + int (length cs)) d k"
proof (induction cs arbitrary: n)
  case (Cons c cs)
  then show ?case by (cases "c = CHR 0x40") (simp_all add: add.assoc)
qed simp

lemma email_loop_no_at:
  "email_loop cs False n d k = Some (True, n', d', k') \<Longrightarrow>
    \<exists>us ds. cs = us @ CHR 0x40 # ds \<and> list_all is_email_sym us"
proof (induction cs arbitrary: n)
  case (Cons c cs)
  show ?case
  proof (cases "c = CHR 0x40")
    case True
    then show ?thesis by (intro exI [of _ "[]"] exI [of _ cs]) simp
  next
    case False
    then have c: "is_email_sym c" "email_loop cs False (n + 1) d k = Some (True, n', d', k')"
      using Cons.prems by (auto split: if_splits)
    then obtain us ds where "cs = us @ CHR 0x40 # ds" "list_all is_email_sym us" using Cons.IH by blast
    then show ?thesis using c(1) by (intro exI [of _ "c # us"] exI [of _ ds]) simp
  qed
qed simp

text \<open>
  \<open>is_email\<close> accepts exactly the texts \<open>name@domain\<close> whose two parts are made of the admitted symbols,
  whose name is not empty and whose domain has a dot and a symbol that is not a dot.
\<close>

theorem is_email_iff:
  "is_email v \<longleftrightarrow> (\<exists>us ds. v = us @ CHR 0x40 # ds \<and> us \<noteq> [] \<and> list_all is_email_sym (us @ ds) \<and>
     CHR ''.'' \<in> set ds \<and> (\<exists>c \<in> set ds. c \<noteq> CHR ''.''))"
proof
  let ?dots = "\<lambda>ds. filter (\<lambda>c. c = CHR ''.'') ds"
  have less: "length (?dots ds) < length ds \<longleftrightarrow> (\<exists>c \<in> set ds. c \<noteq> CHR ''.'')" for ds
    by (metis (mono_tags, lifting) filter_True length_filter_less less_irrefl)
  have some: "0 < length (?dots ds) \<longleftrightarrow> CHR ''.'' \<in> set ds" for ds by (induction ds) auto
  show "\<exists>us ds. v = us @ CHR 0x40 # ds \<and> us \<noteq> [] \<and> list_all is_email_sym (us @ ds) \<and>
      CHR ''.'' \<in> set ds \<and> (\<exists>c \<in> set ds. c \<noteq> CHR ''.'')" if mail: "is_email v"
  proof -
    obtain n d k where run: "email_loop v False 0 0 0 = Some (True, n, d, k)" "0 < n" "0 < d - k" "0 < k"
      using mail unfolding is_email_def by (cases "email_loop v False 0 0 0") auto
    then obtain us ds where v: "v = us @ CHR 0x40 # ds" "list_all is_email_sym us" using email_loop_no_at by blast
    have "email_loop ds True (int (length us)) 0 0 = Some (True, n, d, k)"
      using run(1) email_loop_name [OF v(2), of ds 0 0 0] v(1) by simp
    then have ds: "list_all is_email_sym ds" "n = int (length us)" "d = int (length ds)" "k = int (length (?dots ds))"
      by (simp_all add: email_loop_domain split: if_splits)
    have "us \<noteq> []" using run(2) ds(2) by auto
    moreover have "CHR ''.'' \<in> set ds" using some [of ds] run(4) ds(4) by simp
    moreover have "\<exists>c \<in> set ds. c \<noteq> CHR ''.''" using less [of ds] run(3) ds(3,4) by simp
    ultimately show ?thesis using v ds(1) by (intro exI [of _ us] exI [of _ ds]) simp
  qed
  assume "\<exists>us ds. v = us @ CHR 0x40 # ds \<and> us \<noteq> [] \<and> list_all is_email_sym (us @ ds) \<and>
     CHR ''.'' \<in> set ds \<and> (\<exists>c \<in> set ds. c \<noteq> CHR ''.'')"
  then obtain us ds where v: "v = us @ CHR 0x40 # ds" "us \<noteq> []" "list_all is_email_sym us" "list_all is_email_sym ds"
      "CHR ''.'' \<in> set ds" "\<exists>c \<in> set ds. c \<noteq> CHR ''.''" by auto
  then show "is_email v"
    using less [of ds] some [of ds] by (simp add: is_email_def email_loop_name email_loop_domain)
qed

subsection \<open>The words of a text\<close>

definition blank :: "byte \<Rightarrow> bool" where
  "blank c = (c \<in> {CHR '' '', CHR 0x0A, CHR 0x09, CHR 0x0D})"

function find_from :: "(byte \<Rightarrow> bool) \<Rightarrow> cstring \<Rightarrow> nat \<Rightarrow> nat option" where
  "find_from P w pos = (if pos < length w then (if P (w ! pos) then Some pos else find_from P w (Suc pos)) else None)"
  by pat_completeness auto
termination by (relation "measure (\<lambda>(_, w, pos). length w - pos)") auto

declare find_from.simps [simp del]

fun find_last :: "(byte \<Rightarrow> bool) \<Rightarrow> cstring \<Rightarrow> nat option" where
  "find_last P [] = None"
| "find_last P (c # cs) =
    (case find_last P cs of Some i \<Rightarrow> Some (Suc i) | None \<Rightarrow> if P c then Some 0 else None)"

definition trim_word :: "cstring \<Rightarrow> cstring" where
  "trim_word w =
    (let w = (case find_from (\<lambda>c. \<not> blank c) w 0 of None \<Rightarrow> [] | Some i \<Rightarrow> drop i w)
     in case find_last (\<lambda>c. \<not> blank c) w of None \<Rightarrow> [] | Some i \<Rightarrow> take (Suc i) w)"

lemma from_pos: "(\<forall>k. pos \<le> k \<and> k < n \<longrightarrow> Q k) \<longleftrightarrow> (pos < n \<longrightarrow> Q pos) \<and> (\<forall>k. Suc pos \<le> k \<and> k < n \<longrightarrow> Q k)"
  by (metis Suc_leD Suc_leI le_eq_less_or_eq)

lemma find_from_Some:
  "find_from P w pos = Some i \<Longrightarrow> pos \<le> i \<and> i < length w \<and> P (w ! i) \<and> (\<forall>k. pos \<le> k \<and> k < i \<longrightarrow> \<not> P (w ! k))"
proof (induction P w pos rule: find_from.induct)
  case (1 P w pos)
  show ?case
  proof (cases "P (w ! pos)")
    case True
    then show ?thesis using "1.prems" by (subst (asm) find_from.simps) (auto split: if_splits)
  next
    case False
    then have "pos < length w" "find_from P w (Suc pos) = Some i"
      using "1.prems" by (subst (asm) find_from.simps, simp split: if_splits)+
    then show ?thesis using "1.IH" False by (subst from_pos) auto
  qed
qed

lemma find_from_None: "find_from P w pos = None \<longleftrightarrow> (\<forall>k. pos \<le> k \<and> k < length w \<longrightarrow> \<not> P (w ! k))"
proof (induction P w pos rule: find_from.induct)
  case (1 P w pos)
  show ?case
  proof (cases "pos < length w \<and> \<not> P (w ! pos)")
    case True
    then show ?thesis using "1.IH" by (subst from_pos, subst find_from.simps) simp
  next
    case False
    then show ?thesis by (subst find_from.simps) auto
  qed
qed

text \<open>
  The loop: \<open>prev\<close> and \<open>pos\<close> delimit the next word. The test before the second search keeps \<open>prev\<close> when it
  is at the last character already.
\<close>

function words_loop :: "cstring \<Rightarrow> nat option \<Rightarrow> nat option \<Rightarrow> cstring list \<Rightarrow> cstring list" where
  "words_loop w prev_pos (Some pos) words =
    (let words = words @ [take (pos - the prev_pos) (drop (the prev_pos) w)];
         prev_pos = Some (pos + 1);
         prev_pos = (if pos + 1 < length w - 1 then find_from (\<lambda>c. \<not> blank c) w (pos + 1) else prev_pos)
     in words_loop w prev_pos (case prev_pos of None \<Rightarrow> None | Some p \<Rightarrow> find_from blank w p) words)"
| "words_loop w prev_pos None words =
    (case prev_pos of None \<Rightarrow> words | Some p \<Rightarrow> if p < length w then words @ [drop p w] else words)"
  by pat_completeness auto
termination
proof (relation "measure (\<lambda>(w, _, pos, _). case pos of None \<Rightarrow> 0 | Some p \<Rightarrow> Suc (length w - p))", goal_cases)
  case (2 w prev_pos pos words x xa xb)
  show ?case
  proof (cases "case xb of None \<Rightarrow> None | Some p \<Rightarrow> find_from blank w p")
    case (Some q)
    then have "pos < q \<and> q < length w"
      using 2 by (fastforce split: option.splits if_splits dest!: find_from_Some)
    with Some show ?thesis by (simp add: diff_less_mono2)
  qed simp
qed simp

definition get_words :: "cstring \<Rightarrow> cstring list" where
  "get_words w =
    (let w = trim_word w in if w = [] then [] else words_loop w (Some 0) (find_from blank w 0) [])"

text \<open>The reference: the maximal runs of characters that are not blank.\<close>

function words :: "cstring \<Rightarrow> cstring list" where
  "words [] = []"
| "words (c # cs) =
    (if blank c then words cs
     else takeWhile (\<lambda>c. \<not> blank c) (c # cs) # words (dropWhile (\<lambda>c. \<not> blank c) cs))"
  by pat_completeness auto
termination by (relation "measure length") (auto simp: le_imp_less_Suc length_dropWhile_le)

lemma words_blanks: "list_all blank bs \<Longrightarrow> words (bs @ v) = words v"
  by (induction bs) auto

lemma words_run:
  assumes "u \<noteq> []" and "list_all (\<lambda>c. \<not> blank c) u" and "v = [] \<or> blank (hd v)"
  shows "words (u @ v) = u # words v"
proof -
  have split: "takeWhile (\<lambda>c. \<not> blank c) (x @ v) = x \<and> dropWhile (\<lambda>c. \<not> blank c) (x @ v) = v"
    if "list_all (\<lambda>c. \<not> blank c) x" for x
    using that assms(3) by (induction x) (auto, (cases v; simp)+)
  obtain c cs where u: "u = c # cs" using assms(1) by (cases u) auto
  then show ?thesis using assms(2) split [of cs] by simp
qed

lemma words_trail: "list_all blank bs \<Longrightarrow> words (w @ bs) = words w"
proof (induction w rule: words.induct)
  case 1
  then show ?case using words_blanks [of bs "[]"] by simp
next
  case (2 c cs)
  show ?case
  proof (cases "blank c")
    case False
    let ?u = "takeWhile (\<lambda>c. \<not> blank c) (c # cs)" and ?v = "dropWhile (\<lambda>c. \<not> blank c) cs"
    have split: "c # cs = ?u @ ?v" using False by simp
    have v: "?v = [] \<or> blank (hd ?v)" using hd_dropWhile [of "\<lambda>c. \<not> blank c" cs] by auto
    then have "?v @ bs = [] \<or> blank (hd (?v @ bs))"
    proof (cases "?v = []")
      case True
      then show ?thesis using 2(3) unfolding True by (cases bs) simp_all
    next
      case False
      then show ?thesis using v by (simp only: hd_append) simp
    qed
    moreover have "list_all (\<lambda>c. \<not> blank c) ?u" by (metis (mono_tags, lifting) Ball_set set_takeWhileD)
    ultimately have run: "words (?u @ (?v @ bs)) = ?u # words (?v @ bs)" using False by (intro words_run) simp_all
    have here: "words (c # cs) = ?u # words ?v" using False by simp
    have "(c # cs) @ bs = ?u @ (?v @ bs)" using split by (metis append_assoc)
    then show ?thesis by (simp only: run here 2(2) [OF False 2(3)])
  qed (use 2 in simp)
qed

lemma find_last_Some: "find_last P w = Some i \<Longrightarrow> i < length w \<and> P (w ! i) \<and> (\<forall>k. i < k \<and> k < length w \<longrightarrow> \<not> P (w ! k))"
proof (induction w arbitrary: i)
  case (Cons c cs)
  show ?case
  proof (cases "find_last P cs")
    case None
    moreover have "list_all (\<lambda>c. \<not> P c) cs" using None by (induction cs) (auto split: option.splits if_splits)
    ultimately show ?thesis using Cons.prems
      by (auto simp: nth_Cons list_all_length split: if_splits nat.splits)
  next
    case (Some j)
    then show ?thesis using Cons.IH [OF Some] Cons.prems by (auto simp: nth_Cons split: nat.splits)
  qed
qed simp

lemma find_last_None: "find_last P w = None \<Longrightarrow> list_all (\<lambda>c. \<not> P c) w"
  by (induction w) (auto split: option.splits if_splits)

lemma list_all_drop: "\<forall>k. n \<le> k \<and> k < length xs \<longrightarrow> P (xs ! k) \<Longrightarrow> list_all P (drop n xs)"
  by (auto simp: list_all_length)

lemma trim_word_split:
  obtains a b where "w = a @ trim_word w @ b" "list_all blank a" "list_all blank b"
    "trim_word w \<noteq> [] \<Longrightarrow> \<not> blank (hd (trim_word w)) \<and> \<not> blank (last (trim_word w))"
proof (cases "find_from (\<lambda>c. \<not> blank c) w 0")
  case None
  then have "list_all blank w" by (auto simp: find_from_None list_all_length)
  moreover have "trim_word w = []" using None by (simp add: trim_word_def)
  ultimately show ?thesis using that [of w "[]"] by simp
next
  case (Some i)
  note i = find_from_Some [OF Some]
  let ?v = "drop i w"
  have first: "\<not> blank (hd ?v)" "?v \<noteq> []" using i by (auto simp: hd_drop_conv_nth)
  show ?thesis
  proof (cases "find_last (\<lambda>c. \<not> blank c) ?v")
    case None
    then show ?thesis using find_last_None [OF None] first by (cases ?v) auto
  next
    case (Some j)
    note j = find_last_Some [OF Some]
    have t: "trim_word w = take (Suc j) ?v"
      using Some \<open>find_from _ w 0 = Some i\<close> by (simp add: trim_word_def)
    have "list_all blank (take i w)" using i by (auto simp: list_all_length)
    moreover have "\<forall>k. Suc j \<le> k \<and> k < length ?v \<longrightarrow> blank (?v ! k)"
      using j unfolding Suc_le_eq not_not by blast
    then have "list_all blank (drop (Suc j) ?v)" by (rule list_all_drop)
    moreover have "w = take i w @ take (Suc j) ?v @ drop (Suc j) ?v" by (metis append_take_drop_id)
    moreover have "hd (take (Suc j) ?v) = hd ?v" using first by (cases ?v) auto
    moreover have "last (take (Suc j) ?v) = ?v ! j" using j by (simp add: take_Suc_conv_app_nth)
    ultimately show ?thesis using that [of "take i w" "drop (Suc j) ?v"] first j unfolding t by simp
  qed
qed

lemma next_start:
  assumes "\<not> blank (last w)" and "Suc p < length w" and "blank (w ! p)"
  shows "\<exists>q. (if p + 1 < length w - 1 then find_from (\<lambda>c. \<not> blank c) w (p + 1) else Some (p + 1)) = Some q \<and>
    p < q \<and> q < length w \<and> \<not> blank (w ! q) \<and> list_all blank (take (q - p) (drop p w))"
proof (cases "p + 1 < length w - 1")
  case True
  have fin: "\<not> blank (w ! (length w - 1))" using assms(1,2) by (metis last_conv_nth list.size(3) not_less_zero)
  obtain q where q: "find_from (\<lambda>c. \<not> blank c) w (p + 1) = Some q"
    using find_from_None [of "\<lambda>c. \<not> blank c" w "p + 1"] fin True by fastforce
  have gap: "blank (w ! (p + k))" if "k < q - p" for k
    using find_from_Some [OF q] that assms(3) by (cases k) auto
  then have "list_all blank (take (q - p) (drop p w))" using assms(2) by (simp add: list_all_length)
  then show ?thesis using True q find_from_Some [OF q] by (intro exI [of _ q]) simp
next
  case False
  then have p: "p + 1 = length w - 1" using assms(2) by simp
  then have "\<not> blank (w ! (p + 1))" using assms(1,2) by (metis last_conv_nth list.size(3) not_less_zero)
  moreover have "list_all blank (take 1 (drop p w))" using assms(2,3) by (simp add: take_Suc hd_drop_conv_nth)
  ultimately show ?thesis using False p assms(2) by (intro exI [of _ "p + 1"]) simp
qed

lemma words_loop_words:
  assumes "\<not> blank (last w)" and "prev < length w" and "\<not> blank (w ! prev)"
  shows "words_loop w (Some prev) (find_from blank w prev) acc = acc @ words (drop prev w)"
  using assms(2,3)
proof (induction "length w - prev" arbitrary: prev acc rule: less_induct)
  case less
  show ?case
  proof (cases "find_from blank w prev")
    case None
    then have "list_all (\<lambda>c. \<not> blank c) (drop prev w)" by (auto simp: find_from_None list_all_length)
    then have "words (drop prev w) = [drop prev w]" using words_run [of "drop prev w" "[]"] less.prems by simp
    with None less.prems show ?thesis by simp
  next
    case (Some p)
    note p = find_from_Some [OF Some]
    have before: "prev < p" using p less.prems by (metis le_eq_less_or_eq)
    have w: "w \<noteq> []" using less.prems by auto
    then have last: "w ! (length w - 1) = last w" by (simp add: last_conv_nth)
    have inner: "Suc p < length w" using p last assms(1) by (metis Suc_lessI diff_Suc_1)
    let ?u = "take (p - prev) (drop prev w)"
    have "list_all (\<lambda>c. \<not> blank c) ?u" using p by (auto simp: list_all_length)
    moreover have "drop prev w = ?u @ drop p w"
      using before by (metis append_take_drop_id drop_drop le_add_diff_inverse2 less_imp_le_nat)
    moreover have "blank (hd (drop p w))" using p by (simp add: hd_drop_conv_nth)
    moreover have "?u \<noteq> []" using before p less.prems by simp
    ultimately have head: "words (drop prev w) = ?u # words (drop p w)" using words_run [of ?u "drop p w"] by simp
    obtain q where q: "(if p + 1 < length w - 1 then find_from (\<lambda>c. \<not> blank c) w (p + 1) else Some (p + 1)) = Some q"
        "p < q" "q < length w" "\<not> blank (w ! q)" "list_all blank (take (q - p) (drop p w))"
      using next_start [OF assms(1) inner] p by blast
    note q(5)
    moreover have "drop p w = take (q - p) (drop p w) @ drop q w"
      using q(2) by (metis append_take_drop_id drop_drop le_add_diff_inverse2 less_imp_le_nat)
    ultimately have "words (drop p w) = words (drop q w)" by (metis words_blanks)
    moreover have "words_loop w (Some prev) (Some p) acc = words_loop w (Some q) (find_from blank w q) (acc @ [?u])"
      using q(1) by (simp only: words_loop.simps Let_def option.sel option.case)
    moreover have "words_loop w (Some q) (find_from blank w q) (acc @ [?u]) = (acc @ [?u]) @ words (drop q w)"
      using less.hyps [of q "acc @ [?u]"] q before less.prems by simp
    ultimately show ?thesis using Some head by simp
  qed
qed

text \<open>
  C40: \<open>get_words\<close> returns exactly the maximal runs of characters other than space, tab, carriage return
  and line feed, in their order: the trimming and the test at the last character, which spares a search,
  lose no word and make no empty one.
\<close>

theorem get_words_spec: "get_words w = words w"
proof -
  obtain a b where w: "w = a @ trim_word w @ b" "list_all blank a" "list_all blank b"
      "trim_word w \<noteq> [] \<Longrightarrow> \<not> blank (hd (trim_word w)) \<and> \<not> blank (last (trim_word w))"
    using trim_word_split [of w] by blast
  have "words w = words (trim_word w)"
    using words_blanks [OF w(2), of "trim_word w @ b"] words_trail [OF w(3), of "trim_word w"] w(1) by simp
  moreover have "words_loop (trim_word w) (Some 0) (find_from blank (trim_word w) 0) [] = words (trim_word w)"
    if "trim_word w \<noteq> []"
    using words_loop_words [of "trim_word w" 0 "[]"] w(4) that by (simp add: hd_conv_nth)
  ultimately show ?thesis by (simp add: get_words_def Let_def)
qed

subsection \<open>A pattern whose symbols have several spellings\<close>

definition at_pos :: "cstring \<Rightarrow> cstring \<Rightarrow> nat \<Rightarrow> bool" where
  "at_pos s w pos = (take (length s) (drop pos w) = s)"

function str_find :: "cstring \<Rightarrow> cstring \<Rightarrow> nat \<Rightarrow> nat option" where
  "str_find s w pos =
    (if pos + length s \<le> length w then (if at_pos s w pos then Some pos else str_find s w (Suc pos)) else None)"
  by pat_completeness auto
termination by (relation "measure (\<lambda>(_, w, pos). Suc (length w) - pos)") auto

declare str_find.simps [simp del]

lemma later_less: "s \<noteq> [] \<Longrightarrow> pos + length s \<le> i \<Longrightarrow> i + length s \<le> n \<Longrightarrow> n - i < n - (pos :: nat)"
  by (cases s) auto

lemma str_find_Some: "str_find s w pos = Some i \<Longrightarrow> pos \<le> i \<and> i + length s \<le> length w \<and> at_pos s w i"
proof (induction s w pos rule: str_find.induct)
  case (1 s w pos)
  show ?case
  proof (cases "at_pos s w pos")
    case True
    then show ?thesis using "1.prems" by (subst (asm) str_find.simps) (auto split: if_splits)
  next
    case False
    then have "pos + length s \<le> length w" "str_find s w (Suc pos) = Some i"
      using "1.prems" by (subst (asm) str_find.simps, simp split: if_splits)+
    then show ?thesis using "1.IH" False by simp
  qed
qed

text \<open>The rest of the symbols: for each the first spelling, from \<open>offset\<close> on, that is found at the position.\<close>

fun first_spelling :: "cstring list \<Rightarrow> cstring \<Rightarrow> nat \<Rightarrow> cstring option" where
  "first_spelling [] w pos = None"
| "first_spelling (t # ts) w pos = (if at_pos t w pos then Some t else first_spelling ts w pos)"

fun contains_on_pos :: "cstring list list \<Rightarrow> cstring \<Rightarrow> nat \<Rightarrow> cstring \<Rightarrow> nat \<Rightarrow> bool \<times> cstring" where
  "contains_on_pos [] w pos pattern k = (True, pattern)"
| "contains_on_pos (p # ps) w pos pattern k =
    (case first_spelling (drop k p) w pos of
       None \<Rightarrow> (False, pattern)
     | Some t \<Rightarrow> contains_on_pos ps w (pos + length t) (pattern @ t) k)"

text \<open>The inner loop, over the occurrences of one spelling \<open>s\<close> of the first symbol.\<close>

function occurrences :: "cstring \<Rightarrow> cstring list list \<Rightarrow> cstring \<Rightarrow> nat \<Rightarrow> nat option \<Rightarrow> (cstring \<times> int) option" where
  "occurrences s ps w k None = None"
| "occurrences s ps w k (Some pos) =
    (if s = [] then None
     else if length w - 1 < pos + length s then None
     else case contains_on_pos ps w (pos + length s) s k of
        (True, pattern) \<Rightarrow>
          Some (pattern, if length w = length pattern \<or> pos = 0 \<or> w ! (pos - 1) = CHR '' '' then 0 else 1)
      | (False, _) \<Rightarrow> occurrences s ps w k (str_find s w (pos + length s)))"
  by pat_completeness auto

termination
  by (relation "measure (\<lambda>(s, _, w, _, pos). case pos of None \<Rightarrow> 0 | Some p \<Rightarrow> Suc (length w - p))")
    (auto split: option.splits dest!: str_find_Some intro: later_less)

fun first_symbol :: "cstring list \<Rightarrow> cstring list list \<Rightarrow> cstring \<Rightarrow> nat \<Rightarrow> bool \<Rightarrow> (cstring \<times> int) option" where
  "first_symbol [] ps w k starts_with = None"
| "first_symbol (s # ss) ps w k starts_with =
    (let pos = str_find s w 0
     in if starts_with \<and> pos \<noteq> Some 0 then first_symbol ss ps w k starts_with
        else case occurrences s ps w k pos of
          Some r \<Rightarrow> Some r
        | None \<Rightarrow> first_symbol ss ps w k starts_with)"

definition contains :: "cstring list list \<Rightarrow> cstring \<Rightarrow> nat \<Rightarrow> bool \<Rightarrow> (bool \<times> cstring) \<times> int" where
  "contains patterns w k starts_with =
    (case patterns of
       [] \<Rightarrow> ((True, []), -1)
     | p # ps \<Rightarrow>
        (case first_symbol (drop k p) ps w k starts_with of
           None \<Rightarrow> ((False, []), -1)
         | Some (pattern, priority) \<Rightarrow> ((True, pattern), priority)))"

subsection \<open>What a found pattern is\<close>

definition spelled :: "nat \<Rightarrow> cstring list list \<Rightarrow> cstring \<Rightarrow> bool" where
  "spelled k ps pattern = (\<exists>ts. pattern = concat ts \<and> list_all2 (\<lambda>t p. t \<in> set (drop k p)) ts ps)"

lemma spelled_Nil: "spelled k [] []"
  by (auto simp: spelled_def)

lemma spelled_Cons:
  assumes "t \<in> set (drop k p)" and "spelled k ps x"
  shows "spelled k (p # ps) (t @ x)"
proof -
  obtain ts where "x = concat ts" "list_all2 (\<lambda>t p. t \<in> set (drop k p)) ts ps" using assms(2) by (auto simp: spelled_def)
  then show ?thesis unfolding spelled_def using assms(1) by (intro exI [of _ "t # ts"]) simp
qed

lemma first_spelling_Some: "first_spelling ts w pos = Some t \<Longrightarrow> t \<in> set ts \<and> at_pos t w pos"
  by (induction ts) (auto split: if_splits)

lemma at_pos_append: "at_pos t w pos \<Longrightarrow> at_pos x w (pos + length t) \<Longrightarrow> at_pos (t @ x) w pos"
  by (simp add: at_pos_def take_add add.commute)

lemma contains_on_pos_True:
  "contains_on_pos ps w pos pattern k = (True, pattern') \<Longrightarrow>
    \<exists>x. pattern' = pattern @ x \<and> spelled k ps x \<and> at_pos x w pos"
proof (induction ps w pos pattern k arbitrary: pattern' rule: contains_on_pos.induct)
  case (1 w pos pattern k)
  then show ?case using spelled_Nil [of k] by (auto simp: at_pos_def)
next
  case (2 p ps w pos pattern k)
  then obtain t where t: "first_spelling (drop k p) w pos = Some t"
      "contains_on_pos ps w (pos + length t) (pattern @ t) k = (True, pattern')"
    by (auto split: option.splits)
  then obtain x where "pattern' = (pattern @ t) @ x" "spelled k ps x" "at_pos x w (pos + length t)"
    using "2.IH" by blast
  then show ?case
    using first_spelling_Some [OF t(1)] spelled_Cons [of t k p ps x] at_pos_append [of t w pos x]
    by (intro exI [of _ "t @ x"]) simp
qed

definition priority_at :: "cstring \<Rightarrow> cstring \<Rightarrow> nat \<Rightarrow> int" where
  "priority_at w pattern pos = (if length w = length pattern \<or> pos = 0 \<or> w ! (pos - 1) = CHR '' '' then 0 else 1)"

lemma occurrences_Some:
  "occurrences s ps w k (Some pos) = Some (pattern, n) \<Longrightarrow> at_pos s w pos \<Longrightarrow>
    \<exists>x i. s \<noteq> [] \<and> pattern = s @ x \<and> spelled k ps x \<and> at_pos pattern w i \<and> n = priority_at w pattern i"
proof (induction s ps w k "Some pos" arbitrary: pos rule: occurrences.induct)
  case (2 s ps w k pos)
  obtain ok p where run: "contains_on_pos ps w (pos + length s) s k = (ok, p)" by force
  show ?case
  proof (cases ok)
    case True
    then obtain x where "p = s @ x" "spelled k ps x" "at_pos x w (pos + length s)"
      using run contains_on_pos_True [of ps w "pos + length s" s k p] by auto
    then show ?thesis
      using "2.prems" run True at_pos_append [of s w pos x]
      by (intro exI [of _ x] exI [of _ pos]) (auto simp: priority_at_def split: if_splits)
  next
    case False
    then obtain q where q: "str_find s w (pos + length s) = Some q" "occurrences s ps w k (Some q) = Some (pattern, n)"
      using "2.prems"(1) run by (cases "str_find s w (pos + length s)") (auto split: if_splits)
    then have "at_pos s w q" using str_find_Some by blast
    then show ?thesis using "2.hyps" run False q "2.prems"(1) by (auto split: if_splits)
  qed
qed

text \<open>
  When \<open>contains\<close> finds a pattern, what it returns is a substring of the word, it is made of one of the
  admitted spellings of each symbol in their order, and the priority is 0 exactly when it is the whole
  word or begins the word or follows a space.
\<close>

theorem contains_sound:
  assumes "contains (p # ps) w k starts_with = ((True, pattern), n)"
  shows "\<exists>pre post. w = pre @ pattern @ post \<and> spelled k (p # ps) pattern \<and>
    n = (if pre = [] \<or> last pre = CHR '' '' then 0 else 1)"
proof -
  have "\<exists>s x i. s \<in> set ss \<and> s \<noteq> [] \<and> pattern = s @ x \<and> spelled k ps x \<and> at_pos pattern w i \<and> n = priority_at w pattern i"
    if "first_symbol ss ps w k starts_with = Some (pattern, n)" for ss
    using that
  proof (induction ss)
    case (Cons s ss)
    show ?case
    proof (cases "first_symbol ss ps w k starts_with = Some (pattern, n)")
      case False
      then obtain pos where "str_find s w 0 = Some pos" "occurrences s ps w k (Some pos) = Some (pattern, n)"
        using Cons.prems by (cases "str_find s w 0") (auto simp: Let_def split: if_splits option.splits)
      then show ?thesis using occurrences_Some str_find_Some by fastforce
    qed (use Cons.IH in auto)
  qed simp
  moreover have "first_symbol (drop k p) ps w k starts_with = Some (pattern, n)"
    using assms by (auto simp: contains_def split: option.splits)
  ultimately obtain s x i where found: "s \<in> set (drop k p)" "pattern = s @ x" "s \<noteq> []" "spelled k ps x" "at_pos pattern w i"
      "n = priority_at w pattern i" by blast
  have len: "i + length pattern \<le> length w" "i < length w"
    using arg_cong [OF found(5)[unfolded at_pos_def], of length] found(2,3) by (cases "i < length w"; simp)+
  have w: "w = take i w @ pattern @ drop (i + length pattern) w"
    using found(5) unfolding at_pos_def by (metis append_take_drop_id drop_drop add.commute)
  have "n = (if take i w = [] \<or> last (take i w) = CHR '' '' then 0 else 1)"
  proof (cases "i = 0")
    case False
    then have "last (take i w) = w ! (i - 1)" using len(2) by (cases i) (simp_all add: take_Suc_conv_app_nth)
    then show ?thesis using False len found(6) by (auto simp: priority_at_def)
  qed (simp add: found(6) priority_at_def)
  then show ?thesis using w found(2) spelled_Cons [OF found(1,4)] by blast
qed

theorem contains_sound_witness:
  "contains [[''k'', ''a'', ''A''], [''k'', ''n'', ''N'']] ''Joe Anna'' 1 False = ((True, ''An''), 0)
   \<and> (\<exists>pre post. ''Joe Anna'' = pre @ ''An'' @ post \<and> (pre = [] \<or> last pre = CHR '' ''))"
proof -
  have run: "contains [[''k'', ''a'', ''A''], [''k'', ''n'', ''N'']] ''Joe Anna'' 1 False = ((True, ''An''), 0)"
    by (simp add: contains_def str_find.simps at_pos_def)
  then show ?thesis using contains_sound [OF run] by (metis zero_neq_one)
qed

text \<open>
  The search misses a symbol at the end of the word: a pattern of one symbol is not found in the word
  that consists of just this symbol, because the loop stops when the next position is the end of the word
  before it asks whether there are more symbols.
\<close>

theorem contains_misses_end: "contains [[t]] t 0 starts_with = ((False, []), -1)"
proof -
  have "str_find t t 0 = Some 0" by (subst str_find.simps) (simp add: at_pos_def)
  then show ?thesis by (cases "t = []") (auto simp: contains_def)
qed

text \<open>The flag \<open>starts_with\<close> is tested for the first occurrence only; a later one is accepted in the middle of the word.\<close>

lemma starts_with_ignored: "contains [[''a''], [''b'']] ''axab'' 0 True = ((True, ''ab''), 1)"
  by (simp add: contains_def str_find.simps at_pos_def)

end
