(* ===== verification/Spec2Isabelle.thy ===== *)
theory Spec2Isabelle
  imports Index_File Archive_Search Dlg_State Url_Facts Pool_Facts Scheduler Strings
begin

text \<open>
  A model of the core logic of the ICQ desktop client.

  The program. The client has a core (\<open>src/core\<close>), which talks to the servers and keeps the local
  database of messages, a user interface (\<open>src/gui\<close>), and code shared by both (\<open>src/common.shared\<close>).
  The core keeps, for every contact, an archive on disk. Its files are logs of framed blocks
  (\<open>core/archive/storage.cpp\<close>); a block of the index file is a pack of tagged values
  (\<open>core/tools/tlv.cpp\<close>), each holding one message header (\<open>core/archive/history_message.cpp\<close>) written
  to a byte stream (\<open>core/tools/binary_stream.h\<close>). The index in memory
  (\<open>core/archive/archive_index.cpp\<close>) merges the headers by message id, answers ranges of the history,
  and finds the holes that have to be asked from the server. Texts of messages are searched for links
  by a state machine over their bytes (\<open>common.shared/url_parser\<close>).

  The theories, bottom up.
  \<^item> \<open>Prelude\<close>: bytes, little-endian integers, growing vectors; the locales \<open>codec\<close> and \<open>log_codec\<close>
    (an encoding whose decoder takes it off the front of any input; a log of such records is read
    unambiguously), interpreted on the integer fields.
  \<^item> \<open>Binary_Stream\<close>: the class \<open>binary_stream\<close>, a record of the buffer and the two cursors. A typed
    read of too few bytes dereferences a null pointer in the code; it is the result \<open>None\<close> here, and
    \<open>bs_pending\<close> is the abstraction: the bytes not yet read.
  \<^item> \<open>Tlv\<close>: \<open>tlv\<close> and \<open>tlvpack\<close>; \<open>tlv_enc\<close> is the wire format, interpreted as a \<open>log_codec\<close>, and the
    refinement lemmas say that serializing writes it and unserializing reads it.
  \<^item> \<open>Archive_Storage\<close>, \<open>Storage_Log\<close>: the class \<open>storage\<close> over a model of a file and of
    \<open>std::fstream\<close>; \<open>frame\<close> and \<open>dec_frame\<close> are the reference format, a \<open>log_codec\<close> again; reading
    refines the decoder, writing appends a frame, or on a full disk a prefix no reader accepts.
  \<^item> \<open>Message_Header\<close>: flags as a 32-bit word, patch versions as an instance of the preorders, the
    header with its format in seven versions, and \<open>merge_with\<close>.
  \<^item> \<open>Message_Fields\<close>, \<open>Message_Parts\<close>, \<open>Quotes\<close>, \<open>Chat_Event\<close>, \<open>Message_Contents\<close>: the message
    itself (\<open>history_message\<close> in the same file) with its formats, quotes, calls, files, polls, tasks and
    events. A part is written to a pack of tagged values; its specification is the list of its fields
    (\<open>quote_fields\<close>, \<open>chat_event_fields\<close>, ...), the writer is shown to produce it and the reader to
    invert it. \<open>Message_Facts\<close> composes them to the round trip of a message: what comes back is
    \<open>message_stored\<close>. \<open>Message_Ops\<close> has flags, patches, copies, merges, modifications and the search
    for one field, \<open>Message_Safety\<close> the reading of arbitrary bytes (types and undefined behaviour),
    \<open>Message_Changes\<close> what changes leave.
  \<^item> \<open>Message_Store\<close>: the file of the messages (\<open>core/archive/messages_data.cpp\<close>): appending messages
    and reading them back through their headers, and what one unreadable header does to the others.
  \<^item> \<open>Ordered_Map\<close>: \<open>std::map\<close> as an ordered association list; the locale \<open>keyed_map\<close> with what a
    sequence of insert-or-merge operations does to one key, interpreted on it.
  \<^item> \<open>Archive_Index\<close>, \<open>Index_Facts\<close>, \<open>Index_File\<close>: the class \<open>archive_index\<close>; its invariant, the
    specifications of ranges, holes, deletion and optimization; and the index through its file.
  \<^item> \<open>Url_Types\<close>, \<open>Url_Parser\<close>, \<open>Url_Facts\<close>: the link parser, one function \<open>step_\<close> per state of the
    machine; an \<open>outcome\<close> says how the code leaves the \<open>switch\<close>. The extension states, which all have
    one form, are a table.
  \<^item> \<open>Event_Machine\<close>: programs that several threads act on, as functions from events to the next state;
    the locales \<open>machine_invariant\<close> and \<open>ranked_machine\<close> (a measure bounds the internal events).
  \<^item> \<open>Thread_Pool\<close>, \<open>Pool_Facts\<close>: the thread pool (\<open>core/tools/threadpool.cpp\<close>), its clients, workers
    and destructor interleaved; no task is lost or run twice, an orderly shutdown ends, and one that
    falls between a worker's test and its wait does not. Both locales are interpreted on it.
  \<^item> \<open>Scheduler\<close>: the timers (\<open>core/scheduler.cpp\<close>); spacing of the posts of a timer, exactness of a
    tick, silence after \<open>stop_timer\<close>.
  \<^item> \<open>Strings\<close>: addresses, words and patterns with several spellings (\<open>core/tools/strings.cpp\<close>); the
    functions on characters against specifications on texts.
  \<^item> \<open>Text_Search\<close>, \<open>Search_Facts\<close>: the search of a term in the texts of stored messages, a variant of
    Knuth, Morris and Pratt over UTF-8 (\<open>kmp_strstr\<close> in \<open>core/archive/messages_data.cpp\<close>, the coded
    term in \<open>core/tools/strings.cpp\<close>). First the algorithm on lists of symbols with its borders, then
    its refinement to bytes. The case tables of the system are the parameter \<open>case_env\<close>.
  \<^item> \<open>Archive_Search\<close>: the search through the message files (\<open>get_history_archive\<close>,
    \<open>search_in_archive\<close>, and \<open>get_history_block\<close> of \<open>local_history.cpp\<close>): the pieces of the files in one
    buffer, the fields of a message found in its bytes, the term searched in its text; composed to the
    statement that a search of files finds the last versions that have the term, and where the limit of
    the results loses a match.
  \<^item> \<open>Dlg_State\<close>: the state of a dialog and its file (\<open>core/archive/dlg_state.cpp\<close>): the members
    with their format, the heads, the merge of what the server sends into what is stored, and
    \<open>archive_state\<close> with its cache; deletions are never taken back, and what is stored survives a
    restart.

  Correspondence. A record has the members of its class, an operation takes the object last and
  returns it changed, beside the result. Undefined behaviour (a null dereference, \<open>back()\<close> of an empty
  string, an iterator that was invalidated) is \<open>None\<close>, so a statement that a function returns also
  says that it has none. Assertions (\<open>im_assert\<close>) are compiled out in releases and are not modelled.
  Sizes and offsets in memory are natural numbers; the 32-bit fields of the formats are words, and
  the conversions at the boundary are written out.

  The environment. The clock is an argument, and so is the local time a state is saved at. The disk takes a given number of further bytes
  (\<open>room\<close>), so that writes can fail in the middle; whether folders can be made and files opened are
  flags. The table of top level domains (generated code), the list of supported schemes (the
  configuration) and the permission for ftp links (a feature flag) are the parameter \<open>url_env\<close>. What
  rapidjson reads from a stored answer of the server, and the value of members no constructor sets
  (\<open>junk\<close>), are the parameter \<open>message_env\<close>.

  Termination. No fuel is used. The loops over blocks and over the headers of a block take bytes on
  every round, which is their measure; \<open>fast_scan\<close> moves its position; the walks over the index
  shorten the list of entries. \<open>tlvpack_unserialize\<close> is a partial function, shown to return on every
  stream.

  Not modelled: the conversions of messages from JSON and to the collections of the user interface, the
  network protocol, calls, the user interface; of the parts above the UTF-16 variant of the link parser, files, encryption and
  compression of the byte stream (wrappers of the system, OpenSSL, zlib and zstd), and the debug
  helpers of the index.
\<close>

end
